(* ===== verification/Moxy_Prelude.thy ===== *)
theory Moxy_Prelude
  imports Main "HOL-Library.Word" "HOL-Library.AList" "HOL-Library.Multiset"
begin

text \<open>
  Shared vocabulary of the development: the Go types and library functions every package of
  moxy uses, and the generic lemmas on lists and Go maps that carry the component proofs.

  \<^item> Go strings and byte slices are sequences of bytes: \<open>char list\<close> (a HOL \<open>char\<close> is a byte). A
    byte slice that may be nil is \<open>bytes option\<close>, with \<open>None\<close> for nil.
  \<^item> \<open>int\<close>, \<open>int64\<close> and \<open>time.Duration\<close> are 64-bit words read as signed numbers; \<open>time.Time\<close> is an
    instant in nanoseconds, an unbounded \<open>int\<close>. The package never reads the monotonic part.
  \<^item> A Go map is a list of key/value pairs with distinct keys; the order of the list means nothing to
    the code. A \<open>range\<close> over a map visits the keys in an order the runtime chooses: the functions
    that range over a map take that choice as an argument.
  \<^item> Errors are values of one datatype with the sentinels of all packages; \<open>errors_is\<close> is
    \<open>errors.Is\<close>.
\<close>

named_theorems gomap_simps \<open>lookup, update, delete and key rules for Go maps\<close>

section \<open>Go values\<close>

type_synonym bytes = "char list"
type_synonym i64 = "64 word"
type_synonym duration = i64
type_synonym instant = int
type_synonym ('k, 'v) gomap = "('k \<times> 'v) list"

text \<open>The built-in \<open>copy(dst, src)\<close>: it overwrites the first \<open>min(len(dst), len(src))\<close> elements of
  the destination and leaves the rest of it alone.\<close>

definition go_copy :: "'a list \<Rightarrow> 'a list \<Rightarrow> 'a list" where
  "go_copy dst src = take (length dst) src @ drop (length src) dst"

lemma go_copy_same_length: "length dst = length src \<Longrightarrow> go_copy dst src = src"
  by (simp add: go_copy_def)

lemma go_copy_tl: "go_copy (x # xs) xs = xs @ [last (x # xs)]"
proof -
  have "drop (length xs) (x # xs) = [last (x # xs)]"
    by (induction xs arbitrary: x) auto
  then show ?thesis by (simp add: go_copy_def)
qed

text \<open>A write to the index \<open>last\<close> of the copied array and the reslice \<open>[:last]\<close>.\<close>

lemma go_pop_front: "take (length xs) ((go_copy (x # xs) xs)[length xs := z]) = xs"
  by (simp add: go_copy_tl list_update_append)

section \<open>Text\<close>

text \<open>The strings that are valid UTF-8 (\<open>utf8.ValidString\<close>), which is what the ids of tasks and leases are:
  \<open>uuid.NewString\<close> returns hexadecimal digits and hyphens. \<open>encoding/json\<close> keeps such strings; in others it
  replaces the bytes that are not UTF-8.\<close>

definition byte_in :: "nat \<Rightarrow> nat \<Rightarrow> char \<Rightarrow> bool" where
  "byte_in lo hi c \<longleftrightarrow> lo \<le> of_char c \<and> of_char c \<le> hi"

abbreviation continuation :: "char \<Rightarrow> bool" where
  "continuation \<equiv> byte_in 0x80 0xBF"

fun utf8_valid :: "bytes \<Rightarrow> bool" where
  "utf8_valid [] \<longleftrightarrow> True"
| "utf8_valid (a # s) \<longleftrightarrow>
     (if byte_in 0 0x7F a then utf8_valid s
      else case s of
        [] \<Rightarrow> False
      | b # s1 \<Rightarrow>
          if byte_in 0xC2 0xDF a then continuation b \<and> utf8_valid s1
          else (case s1 of
            [] \<Rightarrow> False
          | c # s2 \<Rightarrow>
              if byte_in 0xE0 0xEF a then
                (if byte_in 0xE0 0xE0 a then byte_in 0xA0 0xBF b
                 else if byte_in 0xED 0xED a then byte_in 0x80 0x9F b
                 else continuation b) \<and> continuation c \<and> utf8_valid s2
              else (case s2 of
                [] \<Rightarrow> False
              | d # s3 \<Rightarrow>
                  byte_in 0xF0 0xF4 a \<and>
                  (if byte_in 0xF0 0xF0 a then byte_in 0x90 0xBF b
                   else if byte_in 0xF4 0xF4 a then byte_in 0x80 0x8F b
                   else continuation b) \<and> continuation c \<and> continuation d \<and> utf8_valid s3)))"

declare utf8_valid.simps(2) [simp del]

text \<open>A string of ASCII bytes is valid.\<close>

lemma utf8_valid_ascii: "list_all (byte_in 0 0x7F) s \<Longrightarrow> utf8_valid s"
  by (induction s) (simp_all add: utf8_valid.simps(2))

section \<open>Go maps\<close>

abbreviation gm_get :: "('k, 'v) gomap \<Rightarrow> 'k \<Rightarrow> 'v option" where
  "gm_get \<equiv> map_of"

abbreviation gm_put :: "'k \<Rightarrow> 'v \<Rightarrow> ('k, 'v) gomap \<Rightarrow> ('k, 'v) gomap" where
  "gm_put \<equiv> AList.update"

abbreviation gm_del :: "'k \<Rightarrow> ('k, 'v) gomap \<Rightarrow> ('k, 'v) gomap" where
  "gm_del \<equiv> AList.delete"

abbreviation gm_keys :: "('k, 'v) gomap \<Rightarrow> 'k list" where
  "gm_keys m \<equiv> map fst m"

text \<open>The well-formed maps: no key occurs twice.\<close>

definition gm_ok :: "('k, 'v) gomap \<Rightarrow> bool" where
  "gm_ok m \<longleftrightarrow> distinct (gm_keys m)"

lemma gm_ok_Nil [simp]: "gm_ok []"
  by (simp add: gm_ok_def)

lemma gm_ok_put [simp]: "gm_ok m \<Longrightarrow> gm_ok (gm_put k v m)"
  by (simp add: gm_ok_def distinct_update)

lemma gm_ok_del [simp]: "gm_ok m \<Longrightarrow> gm_ok (gm_del k m)"
  by (simp add: gm_ok_def distinct_delete)

lemma gm_get_put [gomap_simps]: "gm_get (gm_put k v m) = (gm_get m)(k \<mapsto> v)"
  by (rule update_conv')

lemma gm_get_del [gomap_simps]: "gm_get (gm_del k m) = (gm_get m)(k := None)"
  by (rule delete_conv')

lemma gm_del_absent: "gm_get m k = None \<Longrightarrow> gm_del k m = m"
  by (simp add: map_of_eq_None_iff delete_idem)

lemma gm_keys_dom: "set (gm_keys m) = dom (gm_get m)"
  by (simp add: dom_map_of_conv_image_fst)

lemma gm_length_card: "gm_ok m \<Longrightarrow> length m = card (dom (gm_get m))"
  by (metis distinct_card gm_keys_dom gm_ok_def length_map)

lemma gm_get_Some_iff: "gm_ok m \<Longrightarrow> gm_get m k = Some v \<longleftrightarrow> (k, v) \<in> set m"
  by (simp add: gm_ok_def)

text \<open>An order of a \<open>range\<close> statement: some rearrangement of the keys.\<close>

definition range_order :: "('k list \<Rightarrow> 'k list) \<Rightarrow> bool" where
  "range_order ord \<longleftrightarrow> (\<forall>ks. mset (ord ks) = mset ks)"

lemma range_order_id: "range_order (\<lambda>ks. ks)"
  by (simp add: range_order_def)

lemma range_order_rev: "range_order rev"
  by (simp add: range_order_def)

lemma range_order_set: "range_order ord \<Longrightarrow> set (ord ks) = set ks"
  by (metis range_order_def set_mset_mset)

lemma range_order_distinct: "range_order ord \<Longrightarrow> distinct ks \<Longrightarrow> distinct (ord ks)"
  by (metis range_order_def mset_eq_imp_distinct_iff)

lemma range_order_length: "range_order ord \<Longrightarrow> length (ord ks) = length ks"
  by (metis range_order_def size_mset)

section \<open>Decimal numbers\<close>

text \<open>The digits \<open>%d\<close> and \<open>strconv\<close> print for a number.\<close>

fun show_nat :: "nat \<Rightarrow> string" where
  "show_nat n =
     (if n < 10 then [char_of (48 + n)] else show_nat (n div 10) @ [char_of (48 + n mod 10)])"

declare show_nat.simps [simp del]

definition show_int :: "int \<Rightarrow> string" where
  "show_int i = (if i < 0 then CHR ''-'' # show_nat (nat (- i)) else show_nat (nat i))"

section \<open>Errors\<close>

datatype go_error =
    ErrQueueEmpty | ErrTaskNotProcessing | ErrLeaseFenceMismatch
  | ErrLeaseNotFound | ErrInvalidTimeout | ErrRecoveryIncomplete
  | ErrInvalidQueueName | ErrTooManyQueues
  | ErrUnknownCommand | ErrInvalidArguments | ErrCommandTimeout
  | ErrMalformedRESP | ErrValueTooLarge
  | ErrEOF | ErrUnexpectedEOF
  | ErrNew string
  | ErrWrap string go_error string
  | ErrJoin "go_error list"

text \<open>\<open>errors.Is(err, target)\<close> for a sentinel target: it looks through \<open>fmt.Errorf\<close> wrapping (a prefix
  and a suffix around \<open>%w\<close>) and through \<open>errors.Join\<close>.\<close>

fun errors_is :: "go_error \<Rightarrow> go_error \<Rightarrow> bool" where
  "errors_is (ErrWrap pre e post) t \<longleftrightarrow> ErrWrap pre e post = t \<or> errors_is e t"
| "errors_is (ErrJoin es) t \<longleftrightarrow> ErrJoin es = t \<or> list_ex (\<lambda>e. errors_is e t) es"
| "errors_is e t \<longleftrightarrow> e = t"

text \<open>\<open>errors.Join\<close> of a list of non-nil errors: nil when there is none.\<close>

definition errors_join :: "go_error list \<Rightarrow> go_error option" where
  "errors_join es = (if es = [] then None else Some (ErrJoin es))"

end
