(* ===== verification/Queue_Backend.thy ===== *)
theory Queue_Backend
  imports Moxy_Prelude
begin

text \<open>
  The task of \<open>internal/task\<close> and the storage boundary of \<open>internal/queue/backend.go\<close>.

  The Go interface \<open>Backend\<close> is the record \<open>backend_ops\<close>: one function per method, over a state type
  \<open>'b\<close> the implementation chooses. The contract the engine relies on is the locale \<open>backend_contract\<close>: every
  method behaves like its counterpart on the abstract queue \<open>aqueue\<close>, or fails with an error that is
  none of the package's own sentinels (a lost connection), in which case the transition has either not
  happened or happened completely. \<open>reliable_backend\<close> is the contract of a backend that never fails.
\<close>

section \<open>Tasks\<close>

record task =
  task_ID :: string
  task_Payload :: "bytes option"
  task_Attempts :: i64

definition zero_task :: task where
  "zero_task = \<lparr>task_ID = [], task_Payload = None, task_Attempts = 0\<rparr>"

definition cloneBytes :: "bytes option \<Rightarrow> bytes option" where
  "cloneBytes payload =
     (case payload of
        None \<Rightarrow> None
      | Some p \<Rightarrow> Some (go_copy (replicate (length p) (char_of (0::nat))) p))"

definition cloneTask :: "task \<Rightarrow> task" where
  "cloneTask item =
     \<lparr>task_ID = task_ID item,
      task_Payload = cloneBytes (task_Payload item),
      task_Attempts = task_Attempts item\<rparr>"

lemma cloneBytes_eq [simp]: "cloneBytes p = p"
  by (cases p) (simp_all add: cloneBytes_def go_copy_same_length)

lemma cloneTask_eq [simp]: "cloneTask t = t"
  by (simp add: cloneTask_def)

text \<open>\<open>task.Attempts++\<close> on a 64-bit counter.\<close>

definition bump_attempts :: "task \<Rightarrow> task" where
  "bump_attempts t = t\<lparr>task_Attempts := task_Attempts t + 1\<rparr>"

lemma bump_attempts_sel [simp]:
  "task_ID (bump_attempts t) = task_ID t"
  "task_Payload (bump_attempts t) = task_Payload t"
  "task_Attempts (bump_attempts t) = task_Attempts t + 1"
  by (simp_all add: bump_attempts_def)

section \<open>The types of the storage boundary\<close>

record queue_stats =
  qs_Ready :: nat
  qs_Processing :: nat
  qs_Dead :: nat

record dead_task =
  dead_Task :: task
  dead_Reason :: string
  dead_DeadAt :: instant

record lease_fence =
  fence_TaskID :: string
  fence_LeaseID :: string

record recovery_result =
  rr_Moved :: nat
  rr_MatchedLeaseIDs :: "(string, unit) gomap"

text \<open>The interface. A method that returns only an error returns \<open>Inl\<close> of it, or \<open>Inr ()\<close> for nil.
  \<open>DeadLetter\<close> reads the wall clock: the reading is an argument.\<close>

record 'b backend_ops =
  be_Enqueue :: "task \<Rightarrow> 'b \<Rightarrow> (go_error + unit) \<times> 'b"
  be_Acquire :: "string \<Rightarrow> 'b \<Rightarrow> (go_error + task) \<times> 'b"
  be_Complete :: "string \<Rightarrow> string \<Rightarrow> 'b \<Rightarrow> (go_error + unit) \<times> 'b"
  be_Requeue :: "string \<Rightarrow> string \<Rightarrow> 'b \<Rightarrow> (go_error + unit) \<times> 'b"
  be_DeadLetter :: "string \<Rightarrow> string \<Rightarrow> string \<Rightarrow> instant \<Rightarrow> 'b \<Rightarrow> (go_error + unit) \<times> 'b"
  be_RecoverOrphanedProcessing ::
    "lease_fence list \<Rightarrow> 'b \<Rightarrow> (go_error + recovery_result) \<times> 'b"
  be_Stats :: "'b \<Rightarrow> queue_stats"

definition isStaleLeaseError :: "go_error \<Rightarrow> bool" where
  "isStaleLeaseError err \<longleftrightarrow>
     errors_is err ErrTaskNotProcessing \<or> errors_is err ErrLeaseFenceMismatch"

section \<open>The abstract queue\<close>

text \<open>What a backend stores, without its representation: the ready tasks in the order they will be
  handed out, the processing tasks with the lease that fences each, and the dead letters.\<close>

record aqueue =
  aq_ready :: "task list"
  aq_proc :: "string \<rightharpoonup> task \<times> string"
  aq_dead :: "dead_task list"

definition aq_empty :: aqueue where
  "aq_empty = \<lparr>aq_ready = [], aq_proc = Map.empty, aq_dead = []\<rparr>"

definition fence_check :: "string \<Rightarrow> string \<Rightarrow> aqueue \<Rightarrow> go_error + task" where
  "fence_check tid lid q =
     (case aq_proc q tid of
        None \<Rightarrow> Inl ErrTaskNotProcessing
      | Some (t, l) \<Rightarrow> if l \<noteq> lid then Inl ErrLeaseFenceMismatch else Inr t)"

definition drop_proc :: "string \<Rightarrow> aqueue \<Rightarrow> aqueue" where
  "drop_proc tid q = q\<lparr>aq_proc := (aq_proc q)(tid := None)\<rparr>"

definition spec_Enqueue :: "task \<Rightarrow> aqueue \<Rightarrow> (go_error + unit) \<times> aqueue" where
  "spec_Enqueue t q = (Inr (), q\<lparr>aq_ready := aq_ready q @ [t]\<rparr>)"

definition spec_Acquire :: "string \<Rightarrow> aqueue \<Rightarrow> (go_error + task) \<times> aqueue" where
  "spec_Acquire lid q =
     (case aq_ready q of
        [] \<Rightarrow> (Inl ErrQueueEmpty, q)
      | t # ts \<Rightarrow>
          (Inr t, q\<lparr>aq_ready := ts, aq_proc := (aq_proc q)(task_ID t \<mapsto> (t, lid))\<rparr>))"

definition spec_Complete :: "string \<Rightarrow> string \<Rightarrow> aqueue \<Rightarrow> (go_error + unit) \<times> aqueue" where
  "spec_Complete tid lid q =
     (case fence_check tid lid q of
        Inl e \<Rightarrow> (Inl e, q)
      | Inr t \<Rightarrow> (Inr (), drop_proc tid q))"

definition spec_Requeue :: "string \<Rightarrow> string \<Rightarrow> aqueue \<Rightarrow> (go_error + unit) \<times> aqueue" where
  "spec_Requeue tid lid q =
     (case fence_check tid lid q of
        Inl e \<Rightarrow> (Inl e, q)
      | Inr t \<Rightarrow> (Inr (), (drop_proc tid q)\<lparr>aq_ready := aq_ready q @ [bump_attempts t]\<rparr>))"

definition spec_DeadLetter ::
  "string \<Rightarrow> string \<Rightarrow> string \<Rightarrow> instant \<Rightarrow> aqueue \<Rightarrow> (go_error + unit) \<times> aqueue" where
  "spec_DeadLetter tid lid reason at q =
     (case fence_check tid lid q of
        Inl e \<Rightarrow> (Inl e, q)
      | Inr t \<Rightarrow>
          (Inr (), (drop_proc tid q)\<lparr>aq_dead := aq_dead q @
             [\<lparr>dead_Task = bump_attempts t, dead_Reason = reason, dead_DeadAt = at\<rparr>]\<rparr>))"

text \<open>Startup reconciliation. The processing entries whose exact fence is active are covered: they
  stay, and their lease ids are the matched ones. All others go back to ready storage unchanged, in an
  order that is not specified.\<close>

definition covered :: "lease_fence list \<Rightarrow> aqueue \<Rightarrow> string set" where
  "covered active q =
     {tid. \<exists>t l. aq_proc q tid = Some (t, l) \<and>
        \<lparr>fence_TaskID = tid, fence_LeaseID = l\<rparr> \<in> set active}"

definition matched_leases :: "lease_fence list \<Rightarrow> aqueue \<Rightarrow> string set" where
  "matched_leases active q =
     {l. \<exists>tid t. aq_proc q tid = Some (t, l) \<and>
        \<lparr>fence_TaskID = tid, fence_LeaseID = l\<rparr> \<in> set active}"

definition orphans :: "lease_fence list \<Rightarrow> aqueue \<Rightarrow> task multiset" where
  "orphans active q =
     image_mset (\<lambda>tid. fst (the (aq_proc q tid))) (mset_set (dom (aq_proc q) - covered active q))"

definition spec_Recover ::
  "lease_fence list \<Rightarrow> aqueue \<Rightarrow> recovery_result \<Rightarrow> aqueue \<Rightarrow> bool" where
  "spec_Recover active q res q' \<longleftrightarrow>
     (\<exists>moved. aq_ready q' = aq_ready q @ moved \<and> mset moved = orphans active q \<and>
        rr_Moved res = length moved) \<and>
     aq_proc q' = aq_proc q |` covered active q \<and>
     aq_dead q' = aq_dead q \<and>
     set (gm_keys (rr_MatchedLeaseIDs res)) = matched_leases active q"

text \<open>Well-formed storage: finitely many processing entries, each under the id of its task.\<close>

definition aq_wf :: "aqueue \<Rightarrow> bool" where
  "aq_wf q \<longleftrightarrow> finite (dom (aq_proc q)) \<and>
     (\<forall>tid t l. aq_proc q tid = Some (t, l) \<longrightarrow> task_ID t = tid)"

text \<open>The ids of all tasks a queue holds, with multiplicity.\<close>

definition task_ids :: "aqueue \<Rightarrow> string multiset" where
  "task_ids q =
     mset (map task_ID (aq_ready q)) + mset_set (dom (aq_proc q)) +
     mset (map (task_ID \<circ> dead_Task) (aq_dead q))"

lemmas spec_op_defs = spec_Enqueue_def spec_Acquire_def spec_Complete_def spec_Requeue_def
  spec_DeadLetter_def


section \<open>Facts on the abstract queue\<close>

lemma fence_check_Inr [simp]: "fence_check tid lid q = Inr t \<longleftrightarrow> aq_proc q tid = Some (t, lid)"
  by (auto simp: fence_check_def split: option.splits)

lemma fence_check_Inl:
  "fence_check tid lid q = Inl e \<longleftrightarrow>
     aq_proc q tid = None \<and> e = ErrTaskNotProcessing \<or>
     (\<exists>t l. aq_proc q tid = Some (t, l) \<and> l \<noteq> lid \<and> e = ErrLeaseFenceMismatch)"
  by (auto simp: fence_check_def split: option.splits)

lemma fence_check_stale: "fence_check tid lid q = Inl e \<Longrightarrow> isStaleLeaseError e"
  by (auto simp: fence_check_Inl isStaleLeaseError_def)

lemma drop_proc_sel [simp]:
  "aq_ready (drop_proc tid q) = aq_ready q"
  "aq_proc (drop_proc tid q) = (aq_proc q)(tid := None)"
  "aq_dead (drop_proc tid q) = aq_dead q"
  by (simp_all add: drop_proc_def)

text \<open>The three fenced transitions, as one case rule each: either the fence is not the caller's and
  nothing changes, or it is and the entry leaves processing storage.\<close>

lemma spec_Complete_cases:
  "spec_Complete tid lid q = (r, q') \<longleftrightarrow>
     (\<exists>e. fence_check tid lid q = Inl e \<and> r = Inl e \<and> q' = q) \<or>
     (\<exists>t. aq_proc q tid = Some (t, lid) \<and> r = Inr () \<and> q' = drop_proc tid q)"
  by (auto simp: spec_Complete_def fence_check_def split: option.splits)

lemma spec_Requeue_cases:
  "spec_Requeue tid lid q = (r, q') \<longleftrightarrow>
     (\<exists>e. fence_check tid lid q = Inl e \<and> r = Inl e \<and> q' = q) \<or>
     (\<exists>t. aq_proc q tid = Some (t, lid) \<and> r = Inr () \<and>
        q' = (drop_proc tid q)\<lparr>aq_ready := aq_ready q @ [bump_attempts t]\<rparr>)"
  by (auto simp: spec_Requeue_def fence_check_def split: option.splits)

lemma spec_DeadLetter_cases:
  "spec_DeadLetter tid lid reason at q = (r, q') \<longleftrightarrow>
     (\<exists>e. fence_check tid lid q = Inl e \<and> r = Inl e \<and> q' = q) \<or>
     (\<exists>t. aq_proc q tid = Some (t, lid) \<and> r = Inr () \<and>
        q' = (drop_proc tid q)\<lparr>aq_dead := aq_dead q @
          [\<lparr>dead_Task = bump_attempts t, dead_Reason = reason, dead_DeadAt = at\<rparr>]\<rparr>)"
  by (auto simp: spec_DeadLetter_def fence_check_def split: option.splits)

lemmas spec_fenced_cases = spec_Complete_cases spec_Requeue_cases spec_DeadLetter_cases

lemma aq_wf_empty [simp]: "aq_wf aq_empty"
  by (simp add: aq_wf_def aq_empty_def)

lemma aq_wf_Enqueue: "aq_wf q \<Longrightarrow> aq_wf (snd (spec_Enqueue t q))"
  by (simp add: aq_wf_def spec_Enqueue_def)

lemma aq_wf_Acquire: "aq_wf q \<Longrightarrow> aq_wf (snd (spec_Acquire lid q))"
  by (auto simp: aq_wf_def spec_Acquire_def split: list.splits)

lemma aq_wf_drop_proc: "aq_wf q \<Longrightarrow> aq_proc q' = (aq_proc q)(tid := None) \<Longrightarrow> aq_wf q'"
  by (auto simp: aq_wf_def)

lemma aq_wf_Complete: "aq_wf q \<Longrightarrow> aq_wf (snd (spec_Complete tid lid q))"
  by (auto simp: spec_Complete_def intro: aq_wf_drop_proc split: sum.splits)

lemma aq_wf_Requeue: "aq_wf q \<Longrightarrow> aq_wf (snd (spec_Requeue tid lid q))"
  by (auto simp: spec_Requeue_def intro: aq_wf_drop_proc split: sum.splits)

lemma aq_wf_DeadLetter: "aq_wf q \<Longrightarrow> aq_wf (snd (spec_DeadLetter tid lid reason at q))"
  by (auto simp: spec_DeadLetter_def intro: aq_wf_drop_proc split: sum.splits)

lemma aq_wf_Recover: "spec_Recover active q res q' \<Longrightarrow> aq_wf q \<Longrightarrow> aq_wf q'"
  by (auto simp: spec_Recover_def aq_wf_def restrict_map_def split: if_splits
      intro: finite_subset [rotated])

lemmas aq_wf_ops = aq_wf_Enqueue aq_wf_Acquire aq_wf_Complete aq_wf_Requeue aq_wf_DeadLetter

subsection \<open>Conservation of tasks\<close>

lemma mset_set_dom_remove:
  "finite (dom m) \<Longrightarrow> m k = Some v \<Longrightarrow>
   mset_set (dom m) = add_mset k (mset_set (dom (m(k := None))))"
  by (subst mset_set.remove [of "dom m" k]) auto

lemma task_ids_Enqueue: "task_ids (snd (spec_Enqueue t q)) = add_mset (task_ID t) (task_ids q)"
  by (simp add: task_ids_def spec_Enqueue_def)

lemma task_ids_Acquire:
  assumes "aq_wf q" and "\<And>t ts. aq_ready q = t # ts \<Longrightarrow> aq_proc q (task_ID t) = None"
  shows "task_ids (snd (spec_Acquire lid q)) = task_ids q"
proof (cases "aq_ready q")
  case Nil
  then show ?thesis by (simp add: spec_Acquire_def)
next
  case (Cons t ts)
  with assms have "task_ID t \<notin> dom (aq_proc q)" and "finite (dom (aq_proc q))"
    by (auto simp: aq_wf_def)
  then show ?thesis
    by (simp add: spec_Acquire_def task_ids_def Cons)
qed

lemma task_ids_fenced:
  assumes "aq_wf q"
  shows "task_ids (snd (spec_Requeue tid lid q)) = task_ids q"
    and "task_ids (snd (spec_DeadLetter tid lid reason at q)) = task_ids q"
    and "fst (spec_Complete tid lid q) = Inr () \<Longrightarrow>
         task_ids q = add_mset tid (task_ids (snd (spec_Complete tid lid q)))"
    and "fst (spec_Complete tid lid q) = Inl e \<Longrightarrow> snd (spec_Complete tid lid q) = q"
proof -
  have rm: "mset_set (dom (aq_proc q)) = add_mset tid (mset_set (dom ((aq_proc q)(tid := None))))"
    and id: "task_ID t = tid" if "aq_proc q tid = Some (t, lid)" for t
    using that assms mset_set_dom_remove [of "aq_proc q" tid] by (auto simp: aq_wf_def)
  show "task_ids (snd (spec_Requeue tid lid q)) = task_ids q"
    using rm id by (auto simp: spec_Requeue_def task_ids_def fence_check_def split: option.splits)
  show "task_ids (snd (spec_DeadLetter tid lid reason at q)) = task_ids q"
    using rm id by (auto simp: spec_DeadLetter_def task_ids_def fence_check_def split: option.splits)
  show "task_ids q = add_mset tid (task_ids (snd (spec_Complete tid lid q)))"
    if "fst (spec_Complete tid lid q) = Inr ()"
    using that rm by (auto simp: spec_Complete_def task_ids_def fence_check_def split: option.splits if_splits)
  show "snd (spec_Complete tid lid q) = q" if "fst (spec_Complete tid lid q) = Inl e"
    using that by (auto simp: spec_Complete_def fence_check_def split: option.splits if_splits)
qed

lemma covered_subset: "covered active q \<subseteq> dom (aq_proc q)"
  by (auto simp: covered_def)

lemma task_ids_Recover:
  assumes "spec_Recover active q res q'" and "aq_wf q"
  shows "task_ids q' = task_ids q"
proof -
  let ?c = "covered active q" and ?d = "dom (aq_proc q)"
  have fin: "finite ?d" and ids: "\<And>tid. tid \<in> ?d \<Longrightarrow> task_ID (fst (the (aq_proc q tid))) = tid"
    using assms(2) by (auto simp: aq_wf_def)
  from assms(1) obtain moved where moved: "aq_ready q' = aq_ready q @ moved"
    "mset moved = orphans active q" by (auto simp: spec_Recover_def)
  have "image_mset task_ID (orphans active q) = image_mset (\<lambda>tid. tid) (mset_set (?d - ?c))"
    unfolding orphans_def image_mset.compositionality using fin ids
    by (intro image_mset_cong) auto
  then have "mset (map task_ID moved) = mset_set (?d - ?c)"
    using moved by simp
  moreover have "dom (aq_proc q') = ?c"
    using assms(1) covered_subset [of active q] by (auto simp: spec_Recover_def)
  moreover have "mset_set ?d = mset_set ?c + mset_set (?d - ?c)"
    using covered_subset [of active q] fin
    by (metis Diff_disjoint Un_Diff_cancel finite_Diff finite_subset mset_set_Union sup.absorb_iff2)
  ultimately show ?thesis
    using assms(1) moved by (auto simp: task_ids_def spec_Recover_def)
qed

section \<open>The contract\<close>

text \<open>What a backend that stores tasks as text may ask of its callers. An id is valid UTF-8 without a NUL
  byte, as every UUID is. A clock reading has a year of four digits. How often a task has been attempted is
  a number that the storage can still count up: \<open>room t\<close>, true of every task where the counter has all 64
  bits.\<close>

definition id_text :: "string \<Rightarrow> bool" where
  "id_text s \<longleftrightarrow> utf8_valid s \<and> CHR 0x00 \<notin> set s"

definition clock_text :: "instant \<Rightarrow> bool" where
  "clock_text at \<longleftrightarrow> - 62135596800000000000 \<le> at \<and> at < 253402300800000000000"

definition can_fetch :: "(task \<Rightarrow> bool) \<Rightarrow> aqueue \<Rightarrow> bool" where
  "can_fetch room q \<longleftrightarrow> (\<forall>t \<in> set (aq_ready q). room t)"

definition can_bump :: "(task \<Rightarrow> bool) \<Rightarrow> string \<Rightarrow> aqueue \<Rightarrow> bool" where
  "can_bump room tid q \<longleftrightarrow> (\<forall>t l. aq_proc q tid = Some (t, l) \<longrightarrow> room t)"

definition can_reap :: "(task \<Rightarrow> bool) \<Rightarrow> (string \<Rightarrow> instant) \<Rightarrow> aqueue \<Rightarrow> bool" where
  "can_reap room wall q \<longleftrightarrow> (\<forall>tid. can_bump room tid q) \<and> (\<forall>l. clock_text (wall l))"

lemma id_text_valid: "id_text s \<Longrightarrow> utf8_valid s"
  by (simp add: id_text_def)

lemma can_bump_map_le: "can_bump room tid q \<Longrightarrow> aq_proc q' \<subseteq>\<^sub>m aq_proc q \<Longrightarrow> can_bump room tid q'"
  unfolding can_bump_def map_le_def by (metis domI)

lemma can_reap_map_le: "can_reap room wall q \<Longrightarrow> aq_proc q' \<subseteq>\<^sub>m aq_proc q \<Longrightarrow> can_reap room wall q'"
  unfolding can_reap_def by (blast intro: can_bump_map_le)

lemma can_reap_bump: "can_reap room wall q \<Longrightarrow> can_bump room tid q" "can_reap room wall q \<Longrightarrow> clock_text (wall l)"
  by (simp_all add: can_reap_def)

text \<open>An error that reports no verdict of the queue itself: it is neither \<open>ErrQueueEmpty\<close> nor one of
  the two stale-lease errors.\<close>

definition transport_error :: "go_error \<Rightarrow> bool" where
  "transport_error e \<longleftrightarrow> \<not> errors_is e ErrQueueEmpty \<and> \<not> isStaleLeaseError e"

definition outcome ::
  "(aqueue \<Rightarrow> (go_error + 'r) \<times> aqueue) \<Rightarrow> aqueue \<Rightarrow> go_error + 'r \<Rightarrow> aqueue \<Rightarrow> bool" where
  "outcome spec q r q' \<longleftrightarrow>
     (r, q') = spec q \<or> (\<exists>e. r = Inl e \<and> transport_error e \<and> (q' = q \<or> q' = snd (spec q)))"

lemma outcome_exact: "(r, q') = spec q \<Longrightarrow> outcome spec q r q'"
  by (simp add: outcome_def)

locale backend_contract =
  fixes ops :: "'b backend_ops"
    and abs :: "'b \<Rightarrow> aqueue"
    and invar :: "'b \<Rightarrow> bool"
    and room :: "task \<Rightarrow> bool"
  assumes invar_wf: "invar b \<Longrightarrow> aq_wf (abs b)"
    and Enqueue: "invar b \<Longrightarrow> id_text (task_ID t) \<Longrightarrow> task_Attempts t = 0 \<Longrightarrow> be_Enqueue ops t b = (r, b') \<Longrightarrow>
          invar b' \<and> outcome (spec_Enqueue t) (abs b) r (abs b')"
    and Acquire: "invar b \<Longrightarrow> id_text lid \<Longrightarrow> be_Acquire ops lid b = (ra, b') \<Longrightarrow>
          invar b' \<and> outcome (spec_Acquire lid) (abs b) ra (abs b')"
    and Complete: "invar b \<Longrightarrow> be_Complete ops tid lid b = (r, b') \<Longrightarrow>
          invar b' \<and> outcome (spec_Complete tid lid) (abs b) r (abs b')"
    and Requeue: "invar b \<Longrightarrow> can_bump room tid (abs b) \<Longrightarrow> be_Requeue ops tid lid b = (r, b') \<Longrightarrow>
          invar b' \<and> outcome (spec_Requeue tid lid) (abs b) r (abs b')"
    and DeadLetter: "invar b \<Longrightarrow> can_bump room tid (abs b) \<Longrightarrow> utf8_valid reason \<Longrightarrow> clock_text at \<Longrightarrow> be_DeadLetter ops tid lid reason at b = (r, b') \<Longrightarrow>
          invar b' \<and> outcome (spec_DeadLetter tid lid reason at) (abs b) r (abs b')"
    and Recover: "invar b \<Longrightarrow> be_RecoverOrphanedProcessing ops active b = (rr, b') \<Longrightarrow>
          invar b' \<and>
          ((\<exists>res. rr = Inr res \<and> spec_Recover active (abs b) res (abs b')) \<or>
           (\<exists>e. rr = Inl e \<and> (abs b' = abs b \<or> (\<exists>res. spec_Recover active (abs b) res (abs b')))))"

locale reliable_backend =
  fixes ops :: "'b backend_ops"
    and abs :: "'b \<Rightarrow> aqueue"
    and invar :: "'b \<Rightarrow> bool"
    and room :: "task \<Rightarrow> bool"
  assumes invar_wf: "invar b \<Longrightarrow> aq_wf (abs b)"
    and Enqueue: "invar b \<Longrightarrow> id_text (task_ID t) \<Longrightarrow> task_Attempts t = 0 \<Longrightarrow> be_Enqueue ops t b = (r, b') \<Longrightarrow>
          invar b' \<and> (r, abs b') = spec_Enqueue t (abs b)"
    and Acquire: "invar b \<Longrightarrow> id_text lid \<Longrightarrow> be_Acquire ops lid b = (ra, b') \<Longrightarrow>
          invar b' \<and> (ra, abs b') = spec_Acquire lid (abs b)"
    and Complete: "invar b \<Longrightarrow> be_Complete ops tid lid b = (r, b') \<Longrightarrow>
          invar b' \<and> (r, abs b') = spec_Complete tid lid (abs b)"
    and Requeue: "invar b \<Longrightarrow> can_bump room tid (abs b) \<Longrightarrow> be_Requeue ops tid lid b = (r, b') \<Longrightarrow>
          invar b' \<and> (r, abs b') = spec_Requeue tid lid (abs b)"
    and DeadLetter: "invar b \<Longrightarrow> can_bump room tid (abs b) \<Longrightarrow> utf8_valid reason \<Longrightarrow> clock_text at \<Longrightarrow> be_DeadLetter ops tid lid reason at b = (r, b') \<Longrightarrow>
          invar b' \<and> (r, abs b') = spec_DeadLetter tid lid reason at (abs b)"
    and Recover: "invar b \<Longrightarrow> be_RecoverOrphanedProcessing ops active b = (rr, b') \<Longrightarrow>
          invar b' \<and> (\<exists>res. rr = Inr res \<and> spec_Recover active (abs b) res (abs b'))"
    and Stats: "invar b \<Longrightarrow>
          be_Stats ops b = \<lparr>qs_Ready = length (aq_ready (abs b)),
            qs_Processing = card (dom (aq_proc (abs b))), qs_Dead = length (aq_dead (abs b))\<rparr>"

sublocale reliable_backend \<subseteq> faulty: backend_contract ops abs invar room
proof unfold_locales
  show "invar b \<Longrightarrow> aq_wf (abs b)" for b
    by (rule invar_wf)
  show "invar b \<Longrightarrow> id_text (task_ID t) \<Longrightarrow> task_Attempts t = 0 \<Longrightarrow> be_Enqueue ops t b = (r, b') \<Longrightarrow>
      invar b' \<and> outcome (spec_Enqueue t) (abs b) r (abs b')" for b t r b'
    by (simp add: Enqueue outcome_exact)
  show "invar b \<Longrightarrow> id_text lid \<Longrightarrow> be_Acquire ops lid b = (r, b') \<Longrightarrow>
      invar b' \<and> outcome (spec_Acquire lid) (abs b) r (abs b')" for b lid r b'
    by (simp add: Acquire outcome_exact)
  show "invar b \<Longrightarrow> be_Complete ops tid lid b = (r, b') \<Longrightarrow>
      invar b' \<and> outcome (spec_Complete tid lid) (abs b) r (abs b')" for b tid lid r b'
    by (simp add: Complete outcome_exact)
  show "invar b \<Longrightarrow> can_bump room tid (abs b) \<Longrightarrow> be_Requeue ops tid lid b = (r, b') \<Longrightarrow>
      invar b' \<and> outcome (spec_Requeue tid lid) (abs b) r (abs b')" for b tid lid r b'
    by (simp add: Requeue outcome_exact)
  show "invar b \<Longrightarrow> can_bump room tid (abs b) \<Longrightarrow> utf8_valid reason \<Longrightarrow> clock_text at \<Longrightarrow> be_DeadLetter ops tid lid reason at b = (r, b') \<Longrightarrow>
      invar b' \<and> outcome (spec_DeadLetter tid lid reason at) (abs b) r (abs b')"
    for b tid lid reason at r b'
    by (simp add: DeadLetter outcome_exact)
  show "invar b \<Longrightarrow> be_RecoverOrphanedProcessing ops active b = (rr, b') \<Longrightarrow>
      invar b' \<and>
      ((\<exists>res. rr = Inr res \<and> spec_Recover active (abs b) res (abs b')) \<or>
       (\<exists>e. rr = Inl e \<and> (abs b' = abs b \<or> (\<exists>res. spec_Recover active (abs b) res (abs b')))))"
    for b active rr b'
    by (simp add: Recover)
qed

end
