(* ===== verification/Memory_Queue.thy ===== *)
theory Memory_Queue
  imports Queue_Backend
begin

text \<open>
  \<open>internal/queue/memory.go\<close>: the in-memory backend. The state is the struct \<open>MemoryQueue\<close> without its
  mutex (every method holds it from its first statement to its last, so a method is one step). The
  processing map is a Go map; \<open>RecoverOrphanedProcessing\<close> ranges over it in an order \<open>ord\<close> of the
  runtime's choosing. The theory ends with the interpretation of the backend contract.
\<close>

record memoryProcessingEntry =
  mpe_task :: task
  mpe_leaseID :: string

record MemoryQueue =
  mq_ready :: "task list"
  mq_processing :: "(string, memoryProcessingEntry) gomap"
  mq_dead :: "dead_task list"

definition NewMemoryQueue :: MemoryQueue where
  "NewMemoryQueue = \<lparr>mq_ready = [], mq_processing = [], mq_dead = []\<rparr>"

definition mem_Enqueue :: "task \<Rightarrow> MemoryQueue \<Rightarrow> (go_error + unit) \<times> MemoryQueue" where
  "mem_Enqueue t q = (Inr (), q\<lparr>mq_ready := mq_ready q @ [cloneTask t]\<rparr>)"

definition mem_Acquire :: "string \<Rightarrow> MemoryQueue \<Rightarrow> (go_error + task) \<times> MemoryQueue" where
  "mem_Acquire leaseID q =
     (case mq_ready q of
        [] \<Rightarrow> (Inl ErrQueueEmpty, q)
      | next # rest \<Rightarrow>
          let shifted = go_copy (next # rest) rest;
              last = length (mq_ready q) - 1;
              cleared = shifted[last := zero_task]
          in (Inr (cloneTask next),
              q\<lparr>mq_ready := take last cleared,
                mq_processing := gm_put (task_ID next)
                  \<lparr>mpe_task = cloneTask next, mpe_leaseID = leaseID\<rparr> (mq_processing q)\<rparr>))"

definition mem_Complete ::
  "string \<Rightarrow> string \<Rightarrow> MemoryQueue \<Rightarrow> (go_error + unit) \<times> MemoryQueue" where
  "mem_Complete taskID leaseID q =
     (case gm_get (mq_processing q) taskID of
        None \<Rightarrow> (Inl ErrTaskNotProcessing, q)
      | Some entry \<Rightarrow>
          if mpe_leaseID entry \<noteq> leaseID then (Inl ErrLeaseFenceMismatch, q)
          else (Inr (), q\<lparr>mq_processing := gm_del taskID (mq_processing q)\<rparr>))"

definition mem_Requeue ::
  "string \<Rightarrow> string \<Rightarrow> MemoryQueue \<Rightarrow> (go_error + unit) \<times> MemoryQueue" where
  "mem_Requeue taskID leaseID q =
     (case gm_get (mq_processing q) taskID of
        None \<Rightarrow> (Inl ErrTaskNotProcessing, q)
      | Some entry \<Rightarrow>
          if mpe_leaseID entry \<noteq> leaseID then (Inl ErrLeaseFenceMismatch, q)
          else
            let task = bump_attempts (mpe_task entry)
            in (Inr (), q\<lparr>mq_processing := gm_del taskID (mq_processing q),
                          mq_ready := mq_ready q @ [cloneTask task]\<rparr>))"

definition mem_DeadLetter ::
  "string \<Rightarrow> string \<Rightarrow> string \<Rightarrow> instant \<Rightarrow> MemoryQueue \<Rightarrow> (go_error + unit) \<times> MemoryQueue" where
  "mem_DeadLetter taskID leaseID reason now q =
     (case gm_get (mq_processing q) taskID of
        None \<Rightarrow> (Inl ErrTaskNotProcessing, q)
      | Some entry \<Rightarrow>
          if mpe_leaseID entry \<noteq> leaseID then (Inl ErrLeaseFenceMismatch, q)
          else
            let task = bump_attempts (mpe_task entry)
            in (Inr (), q\<lparr>mq_processing := gm_del taskID (mq_processing q),
                          mq_dead := mq_dead q @
                            [\<lparr>dead_Task = cloneTask task, dead_Reason = reason,
                              dead_DeadAt = now\<rparr>]\<rparr>))"

text \<open>The body of the recovery loop for one key of the range, and the loop. The range runs over the
  map the loop deletes from: a key is visited once, and only its own iteration deletes it.\<close>

definition recover_entry ::
  "lease_fence list \<Rightarrow> string \<Rightarrow> recovery_result \<times> MemoryQueue \<Rightarrow> recovery_result \<times> MemoryQueue" where
  "recover_entry active taskID = (\<lambda>(result, q).
     case gm_get (mq_processing q) taskID of
       None \<Rightarrow> (result, q)
     | Some entry \<Rightarrow>
         if \<lparr>fence_TaskID = taskID, fence_LeaseID = mpe_leaseID entry\<rparr> \<in> set active
         then (result\<lparr>rr_MatchedLeaseIDs :=
                 gm_put (mpe_leaseID entry) () (rr_MatchedLeaseIDs result)\<rparr>, q)
         else (result\<lparr>rr_Moved := rr_Moved result + 1\<rparr>,
               q\<lparr>mq_processing := gm_del taskID (mq_processing q),
                 mq_ready := mq_ready q @ [cloneTask (mpe_task entry)]\<rparr>))"

definition mem_RecoverOrphanedProcessing ::
  "(string list \<Rightarrow> string list) \<Rightarrow> lease_fence list \<Rightarrow> MemoryQueue \<Rightarrow>
   (go_error + recovery_result) \<times> MemoryQueue" where
  "mem_RecoverOrphanedProcessing ord activeLeases q =
     (let (result, q') =
        fold (recover_entry activeLeases) (ord (gm_keys (mq_processing q)))
          (\<lparr>rr_Moved = 0, rr_MatchedLeaseIDs = []\<rparr>, q)
      in (Inr result, q'))"

definition mem_Stats :: "MemoryQueue \<Rightarrow> queue_stats" where
  "mem_Stats q =
     \<lparr>qs_Ready = length (mq_ready q), qs_Processing = length (mq_processing q),
      qs_Dead = length (mq_dead q)\<rparr>"

text \<open>The method table of \<open>*MemoryQueue\<close> as a \<open>Backend\<close>.\<close>

definition memory_ops :: "(string list \<Rightarrow> string list) \<Rightarrow> MemoryQueue backend_ops" where
  "memory_ops ord =
     \<lparr>be_Enqueue = mem_Enqueue, be_Acquire = mem_Acquire, be_Complete = mem_Complete,
      be_Requeue = mem_Requeue, be_DeadLetter = mem_DeadLetter,
      be_RecoverOrphanedProcessing = mem_RecoverOrphanedProcessing ord,
      be_Stats = mem_Stats\<rparr>"

lemma memory_ops_sel [simp]:
  "be_Enqueue (memory_ops ord) = mem_Enqueue"
  "be_Acquire (memory_ops ord) = mem_Acquire"
  "be_Complete (memory_ops ord) = mem_Complete"
  "be_Requeue (memory_ops ord) = mem_Requeue"
  "be_DeadLetter (memory_ops ord) = mem_DeadLetter"
  "be_RecoverOrphanedProcessing (memory_ops ord) = mem_RecoverOrphanedProcessing ord"
  "be_Stats (memory_ops ord) = mem_Stats"
  by (simp_all add: memory_ops_def)

section \<open>Abstraction and invariant\<close>

definition mem_abs :: "MemoryQueue \<Rightarrow> aqueue" where
  "mem_abs q =
     \<lparr>aq_ready = mq_ready q,
      aq_proc = (\<lambda>tid. map_option (\<lambda>en. (mpe_task en, mpe_leaseID en)) (gm_get (mq_processing q) tid)),
      aq_dead = mq_dead q\<rparr>"

definition mem_invar :: "MemoryQueue \<Rightarrow> bool" where
  "mem_invar q \<longleftrightarrow> gm_ok (mq_processing q) \<and>
     (\<forall>tid en. gm_get (mq_processing q) tid = Some en \<longrightarrow> task_ID (mpe_task en) = tid)"

lemma mem_abs_sel [simp]:
  "aq_ready (mem_abs q) = mq_ready q"
  "aq_dead (mem_abs q) = mq_dead q"
  "aq_proc (mem_abs q) tid =
     map_option (\<lambda>en. (mpe_task en, mpe_leaseID en)) (gm_get (mq_processing q) tid)"
  by (simp_all add: mem_abs_def)

lemma mem_abs_dom [simp]: "dom (aq_proc (mem_abs q)) = dom (gm_get (mq_processing q))"
  by (auto simp: dom_def)

lemma mem_invar_new [simp]: "mem_invar NewMemoryQueue"
  by (simp add: mem_invar_def NewMemoryQueue_def)

lemma mem_abs_new [simp]: "mem_abs NewMemoryQueue = aq_empty"
  by (simp add: mem_abs_def NewMemoryQueue_def aq_empty_def)

lemma mem_invar_wf: "mem_invar q \<Longrightarrow> aq_wf (mem_abs q)"
  by (auto simp: aq_wf_def mem_invar_def finite_dom_map_of)

lemma mem_abs_del:
  "mem_abs (q\<lparr>mq_processing := gm_del tid (mq_processing q)\<rparr>) = drop_proc tid (mem_abs q)"
  by (auto simp: mem_abs_def drop_proc_def gomap_simps)

section \<open>Each operation implements the abstract queue\<close>

lemma mem_Enqueue_refines:
  "mem_Enqueue t q = (r, q') \<Longrightarrow> (r, mem_abs q') = spec_Enqueue t (mem_abs q)"
  by (auto simp: mem_Enqueue_def spec_Enqueue_def mem_abs_def)

lemma mem_Acquire_eq:
  "mem_Acquire lid q =
     (case mq_ready q of
        [] \<Rightarrow> (Inl ErrQueueEmpty, q)
      | t # ts \<Rightarrow>
          (Inr t, q\<lparr>mq_ready := ts,
             mq_processing := gm_put (task_ID t) \<lparr>mpe_task = t, mpe_leaseID = lid\<rparr> (mq_processing q)\<rparr>))"
  by (simp add: mem_Acquire_def Let_def go_copy_tl split: list.splits)

lemma mem_Acquire_refines:
  "mem_Acquire lid q = (r, q') \<Longrightarrow> (r, mem_abs q') = spec_Acquire lid (mem_abs q)"
  by (auto simp: mem_Acquire_eq spec_Acquire_def mem_abs_def gomap_simps fun_eq_iff
      split: list.splits)

lemma mem_Complete_refines:
  "mem_Complete tid lid q = (r, q') \<Longrightarrow> (r, mem_abs q') = spec_Complete tid lid (mem_abs q)"
  by (auto simp: mem_Complete_def spec_Complete_def fence_check_def mem_abs_del
      split: option.splits if_splits)

lemma mem_Requeue_refines:
  "mem_Requeue tid lid q = (r, q') \<Longrightarrow> (r, mem_abs q') = spec_Requeue tid lid (mem_abs q)"
  by (auto simp: mem_Requeue_def spec_Requeue_def fence_check_def mem_abs_def drop_proc_def Let_def
      gomap_simps fun_eq_iff split: option.splits if_splits)

lemma mem_DeadLetter_refines:
  "mem_DeadLetter tid lid reason at q = (r, q') \<Longrightarrow>
   (r, mem_abs q') = spec_DeadLetter tid lid reason at (mem_abs q)"
  by (auto simp: mem_DeadLetter_def spec_DeadLetter_def fence_check_def mem_abs_def drop_proc_def
      Let_def gomap_simps fun_eq_iff split: option.splits if_splits)

lemma mem_invar_ops:
  "mem_invar q \<Longrightarrow> mem_invar (snd (mem_Enqueue t q))"
  "mem_invar q \<Longrightarrow> mem_invar (snd (mem_Acquire lid q))"
  "mem_invar q \<Longrightarrow> mem_invar (snd (mem_Complete tid lid q))"
  "mem_invar q \<Longrightarrow> mem_invar (snd (mem_Requeue tid lid q))"
  "mem_invar q \<Longrightarrow> mem_invar (snd (mem_DeadLetter tid lid reason at q))"
  by (auto simp: mem_invar_def mem_Enqueue_def mem_Acquire_eq mem_Complete_def mem_Requeue_def
      mem_DeadLetter_def Let_def gomap_simps split: list.splits option.splits if_splits)


section \<open>Startup reconciliation\<close>

text \<open>A key of the range that the loop moves: its entry is fenced by no active lease.\<close>

definition orphan_key :: "lease_fence list \<Rightarrow> MemoryQueue \<Rightarrow> string \<Rightarrow> bool" where
  "orphan_key active q k \<longleftrightarrow>
     (case gm_get (mq_processing q) k of
        None \<Rightarrow> False
      | Some en \<Rightarrow> \<lparr>fence_TaskID = k, fence_LeaseID = mpe_leaseID en\<rparr> \<notin> set active)"

definition matched_ids :: "lease_fence list \<Rightarrow> MemoryQueue \<Rightarrow> string set \<Rightarrow> string set" where
  "matched_ids active q ks =
     {mpe_leaseID en | en k. k \<in> ks \<and> gm_get (mq_processing q) k = Some en \<and>
        \<lparr>fence_TaskID = k, fence_LeaseID = mpe_leaseID en\<rparr> \<in> set active}"

lemma gm_keys_put_unit: "set (gm_keys (gm_put k () m)) = insert k (set (gm_keys m))"
  by (simp add: dom_update)

text \<open>One iteration changes the entry of its own key only.\<close>

lemma recover_entry_frame:
  assumes "recover_entry active k (res, q) = (res', q')" and "k' \<noteq> k"
  shows "gm_get (mq_processing q') k' = gm_get (mq_processing q) k'"
    and "orphan_key active q' k' = orphan_key active q k'"
  using assms by (auto simp: recover_entry_def orphan_key_def gomap_simps split: option.splits if_splits)

lemma recover_entry_effect:
  assumes "recover_entry active k (res, q) = (res', q')"
  shows "mq_ready q' = mq_ready q @
           (if orphan_key active q k then [mpe_task (the (gm_get (mq_processing q) k))] else [])"
    and "gm_get (mq_processing q') = (if orphan_key active q k then (gm_get (mq_processing q))(k := None)
           else gm_get (mq_processing q))"
    and "gm_ok (mq_processing q) \<Longrightarrow> gm_ok (mq_processing q')"
    and "mq_dead q' = mq_dead q"
    and "rr_Moved res' = rr_Moved res + (if orphan_key active q k then 1 else 0)"
    and "set (gm_keys (rr_MatchedLeaseIDs res')) =
           set (gm_keys (rr_MatchedLeaseIDs res)) \<union> matched_ids active q {k}"
  using assms
  by (auto simp: recover_entry_def orphan_key_def matched_ids_def gomap_simps gm_keys_put_unit
      simp del: set_map split: option.splits if_splits)

lemma recover_loop:
  assumes "distinct ks" and "fold (recover_entry active) ks (res, q) = (res', q')"
  shows "mq_ready q' = mq_ready q @
           map (\<lambda>k. mpe_task (the (gm_get (mq_processing q) k))) (filter (orphan_key active q) ks) \<and>
         gm_get (mq_processing q') = gm_get (mq_processing q) |` (- {k \<in> set ks. orphan_key active q k}) \<and>
         (gm_ok (mq_processing q) \<longrightarrow> gm_ok (mq_processing q')) \<and>
         mq_dead q' = mq_dead q \<and>
         rr_Moved res' = rr_Moved res + length (filter (orphan_key active q) ks) \<and>
         set (gm_keys (rr_MatchedLeaseIDs res')) =
           set (gm_keys (rr_MatchedLeaseIDs res)) \<union> matched_ids active q (set ks)"
  using assms
proof (induction ks arbitrary: res q)
  case Nil
  then show ?case by (simp add: matched_ids_def)
next
  case (Cons k ks)
  obtain res1 q1 where one: "recover_entry active k (res, q) = (res1, q1)" by fastforce
  note eff = recover_entry_effect [OF one] and frame = recover_entry_frame [OF one]
  from Cons.prems have rest: "fold (recover_entry active) ks (res1, q1) = (res', q')"
    and k: "k \<notin> set ks" and "distinct ks"
    by (simp_all add: one)
  note ih = Cons.IH [OF \<open>distinct ks\<close> rest]
  have keys: "gm_get (mq_processing q1) k' = gm_get (mq_processing q) k'"
    "orphan_key active q1 k' = orphan_key active q k'" if "k' \<in> set ks" for k'
    using that k frame by metis+
  have fil: "filter (orphan_key active q1) ks = filter (orphan_key active q) ks"
    using keys(2) by (rule filter_cong [OF refl])
  have mat: "matched_ids active q1 (set ks) = matched_ids active q (set ks)"
    unfolding matched_ids_def using keys(1) by metis
  have mp: "map (\<lambda>k. mpe_task (the (gm_get (mq_processing q1) k))) (filter (orphan_key active q) ks) =
      map (\<lambda>k. mpe_task (the (gm_get (mq_processing q) k))) (filter (orphan_key active q) ks)"
    using keys(1) by auto
  have un: "matched_ids active q (set (k # ks)) = matched_ids active q {k} \<union> matched_ids active q (set ks)"
    by (auto simp: matched_ids_def)
  have res: "gm_get (mq_processing q1) |` (- {k \<in> set ks. orphan_key active q1 k}) =
      gm_get (mq_processing q) |` (- {k' \<in> set (k # ks). orphan_key active q k'})"
    using keys k by (auto simp: eff(2) restrict_map_def fun_eq_iff)
  note ih' = ih [unfolded res mat, unfolded fil, unfolded mp]
  show ?case
    unfolding un using ih' eff(1,3-6) by (simp add: Un_assoc del: set_map)
qed

lemma mem_Recover_refines:
  assumes inv: "mem_invar q" and ord: "range_order ord"
    and run: "mem_RecoverOrphanedProcessing ord active q = (rr, q')"
  shows "\<exists>res. rr = Inr res \<and> spec_Recover active (mem_abs q) res (mem_abs q') \<and> mem_invar q'"
proof -
  let ?ks = "ord (gm_keys (mq_processing q))" and ?P = "gm_get (mq_processing q)"
  let ?orph = "filter (orphan_key active q) ?ks"
  obtain res where rr: "rr = Inr res"
    and loop: "fold (recover_entry active) ?ks (\<lparr>rr_Moved = 0, rr_MatchedLeaseIDs = []\<rparr>, q) = (res, q')"
    using run by (auto simp: mem_RecoverOrphanedProcessing_def split: prod.splits)
  have ok: "gm_ok (mq_processing q)" using inv by (simp add: mem_invar_def)
  have dist: "distinct ?ks" using range_order_distinct [OF ord] ok by (simp add: gm_ok_def)
  have ks: "set ?ks = dom ?P"
    using range_order_set [OF ord] by (simp add: dom_map_of_conv_image_fst)
  note l = recover_loop [OF dist loop]
  have orph: "set ?orph = dom ?P - covered active (mem_abs q)"
    using ks by (auto simp: orphan_key_def covered_def)
  have "mset ?orph = mset_set (set ?orph)"
    by (rule mset_set_set [symmetric]) (simp add: dist)
  then have "mset (map (\<lambda>k. mpe_task (the (?P k))) ?orph) =
      image_mset (\<lambda>k. mpe_task (the (?P k))) (mset_set (dom ?P - covered active (mem_abs q)))"
    by (simp only: mset_map orph)
  also have "\<dots> = orphans active (mem_abs q)"
    unfolding orphans_def mem_abs_dom
    by (rule image_mset_cong) (auto simp: finite_dom_map_of)
  finally have moved: "mset (map (\<lambda>k. mpe_task (the (?P k))) ?orph) = orphans active (mem_abs q)" .
  have proc: "aq_proc (mem_abs q') = aq_proc (mem_abs q) |` covered active (mem_abs q)"
    using l ks by (auto simp: fun_eq_iff restrict_map_def orphan_key_def covered_def split: option.splits)
  have "matched_ids active q (set ?ks) = matched_leases active (mem_abs q)"
    unfolding ks matched_ids_def matched_leases_def by auto
  then have "spec_Recover active (mem_abs q) res (mem_abs q')"
    unfolding spec_Recover_def using l moved proc by auto
  moreover have "mem_invar q'"
    using l inv by (auto simp: mem_invar_def restrict_map_def split: if_splits)
  ultimately show ?thesis using rr by blast
qed

text \<open>The in-memory queue keeps the contract of a backend that never fails, whatever the order of the
  runtime's map iteration.\<close>

definition mem_inv :: "(string list \<Rightarrow> string list) \<Rightarrow> MemoryQueue \<Rightarrow> bool" where
  "mem_inv ord q \<longleftrightarrow> range_order ord \<and> mem_invar q"

abbreviation any_task :: "task \<Rightarrow> bool" where
  "any_task \<equiv> \<lambda>_. True"

interpretation mem: reliable_backend "memory_ops ord" mem_abs "mem_inv ord" any_task for ord
proof unfold_locales
  show "mem_inv ord b \<Longrightarrow> aq_wf (mem_abs b)" for b
    by (simp add: mem_inv_def mem_invar_wf)
  show "mem_inv ord b \<Longrightarrow> be_Stats (memory_ops ord) b =
      \<lparr>qs_Ready = length (aq_ready (mem_abs b)), qs_Processing = card (dom (aq_proc (mem_abs b))),
       qs_Dead = length (aq_dead (mem_abs b))\<rparr>" for b
    unfolding mem_abs_dom by (simp add: mem_inv_def mem_Stats_def mem_invar_def gm_length_card)
next
  show "mem_inv ord b \<Longrightarrow> be_Enqueue (memory_ops ord) t b = (r, b') \<Longrightarrow>
      mem_inv ord b' \<and> (r, mem_abs b') = spec_Enqueue t (mem_abs b)" for b t r b'
    using mem_invar_ops(1) [of b t] mem_Enqueue_refines [of t b r b'] by (simp add: mem_inv_def)
  show "mem_inv ord b \<Longrightarrow> be_Acquire (memory_ops ord) lid b = (r, b') \<Longrightarrow>
      mem_inv ord b' \<and> (r, mem_abs b') = spec_Acquire lid (mem_abs b)" for b lid r b'
    using mem_invar_ops(2) [of b lid] mem_Acquire_refines [of lid b r b'] by (simp add: mem_inv_def)
  show "mem_inv ord b \<Longrightarrow> be_Complete (memory_ops ord) tid lid b = (r, b') \<Longrightarrow>
      mem_inv ord b' \<and> (r, mem_abs b') = spec_Complete tid lid (mem_abs b)" for b tid lid r b'
    using mem_invar_ops(3) [of b tid lid] mem_Complete_refines [of tid lid b r b'] by (simp add: mem_inv_def)
  show "mem_inv ord b \<Longrightarrow> be_Requeue (memory_ops ord) tid lid b = (r, b') \<Longrightarrow>
      mem_inv ord b' \<and> (r, mem_abs b') = spec_Requeue tid lid (mem_abs b)" for b tid lid r b'
    using mem_invar_ops(4) [of b tid lid] mem_Requeue_refines [of tid lid b r b'] by (simp add: mem_inv_def)
  show "mem_inv ord b \<Longrightarrow> be_DeadLetter (memory_ops ord) tid lid reason at b = (r, b') \<Longrightarrow>
      mem_inv ord b' \<and> (r, mem_abs b') = spec_DeadLetter tid lid reason at (mem_abs b)"
    for b tid lid reason at r b'
    using mem_invar_ops(5) [of b tid lid reason at] mem_DeadLetter_refines [of tid lid reason at b r b']
    by (simp add: mem_inv_def)
  show "mem_inv ord b \<Longrightarrow> be_RecoverOrphanedProcessing (memory_ops ord) active b = (rr, b') \<Longrightarrow>
      mem_inv ord b' \<and> (\<exists>res. rr = Inr res \<and> spec_Recover active (mem_abs b) res (mem_abs b'))"
    for b active rr b'
    using mem_Recover_refines [of b ord active rr b'] by (auto simp: mem_inv_def)
qed

end
