(* ===== verification/Expiration_Heap.thy ===== *)
theory Expiration_Heap
  imports Moxy_Prelude
begin

text \<open>
  \<open>internal/core/heap.go\<close>: the heap of lease deadlines, an array of \<open>expirationItem\<close> ordered by
  \<open>ExpiresAt\<close>, together with the functions of Go's \<open>container/heap\<close> the engine calls on it
  (\<open>heap.Init\<close>, \<open>heap.Push\<close>, \<open>heap.Pop\<close> and their loops \<open>up\<close> and \<open>down\<close>). The locale \<open>expiry_queue\<close>
  states what the engine needs of a deadline queue; the array heap is interpreted in it.
\<close>

record expirationItem =
  ei_LeaseID :: string
  ei_ExpiresAt :: instant

type_synonym expirationHeap = "expirationItem list"

section \<open>The methods of expirationHeap\<close>

definition eh_Len :: "expirationHeap \<Rightarrow> nat" where
  "eh_Len h = length h"

definition eh_Less :: "expirationHeap \<Rightarrow> nat \<Rightarrow> nat \<Rightarrow> bool" where
  "eh_Less h i j \<longleftrightarrow> ei_ExpiresAt (h ! i) < ei_ExpiresAt (h ! j)"

definition eh_Swap :: "expirationHeap \<Rightarrow> nat \<Rightarrow> nat \<Rightarrow> expirationHeap" where
  "eh_Swap h i j = h[i := h ! j, j := h ! i]"

definition eh_Push :: "expirationHeap \<Rightarrow> expirationItem \<Rightarrow> expirationHeap" where
  "eh_Push h x = h @ [x]"

text \<open>The slice method \<open>Pop\<close> panics on an empty heap: \<open>None\<close>.\<close>

definition eh_Pop :: "expirationHeap \<Rightarrow> (expirationItem \<times> expirationHeap) option" where
  "eh_Pop old =
     (let n = length old
      in if n = 0 then None else Some (old ! (n - 1), take (n - 1) old))"

definition eh_peek :: "expirationHeap \<Rightarrow> expirationItem option" where
  "eh_peek h = (if length h = 0 then None else Some (h ! 0))"

section \<open>container/heap\<close>

function heap_up :: "expirationHeap \<Rightarrow> nat \<Rightarrow> expirationHeap" where
  "heap_up h j =
     (let i = (j - 1) div 2
      in if i = j \<or> \<not> eh_Less h j i then h else heap_up (eh_Swap h i j) i)"
  by pat_completeness auto
termination
  by (relation "measure snd") auto

function heap_down :: "expirationHeap \<Rightarrow> nat \<Rightarrow> nat \<Rightarrow> expirationHeap" where
  "heap_down h i n =
     (let j1 = 2 * i + 1
      in if j1 \<ge> n then h
         else
           let j2 = j1 + 1;
               j = (if j2 < n \<and> eh_Less h j2 j1 then j2 else j1)
           in if \<not> eh_Less h j i then h else heap_down (eh_Swap h i j) j n)"
  by pat_completeness auto
termination
  by (relation "measure (\<lambda>(h, i, n). n - i)") (auto split: if_splits)

declare heap_up.simps [simp del] heap_down.simps [simp del]

text \<open>\<open>heap.Init\<close> runs \<open>down\<close> from the last inner node to the root.\<close>

definition heap_Init :: "expirationHeap \<Rightarrow> expirationHeap" where
  "heap_Init h = fold (\<lambda>i h. heap_down h i (eh_Len h)) (rev [0..<eh_Len h div 2]) h"

definition heap_Push :: "expirationItem \<Rightarrow> expirationHeap \<Rightarrow> expirationHeap" where
  "heap_Push x h = (let h' = eh_Push h x in heap_up h' (eh_Len h' - 1))"

definition heap_Pop :: "expirationHeap \<Rightarrow> (expirationItem \<times> expirationHeap) option" where
  "heap_Pop h =
     (if h = [] then None
      else let n = eh_Len h - 1 in eh_Pop (heap_down (eh_Swap h 0 n) 0 n))"

section \<open>The heap property\<close>

definition par :: "nat \<Rightarrow> nat" where
  "par k = (k - 1) div 2"

abbreviation ekey :: "expirationHeap \<Rightarrow> nat \<Rightarrow> instant" where
  "ekey h k \<equiv> ei_ExpiresAt (h ! k)"

text \<open>The first \<open>n\<close> cells form a heap; they form one except that the cell \<open>j\<close> may be smaller than its
  parent; they form one except that the cell \<open>i\<close> may be larger than its children.\<close>

definition heap_upto :: "expirationHeap \<Rightarrow> nat \<Rightarrow> bool" where
  "heap_upto h n \<longleftrightarrow> (\<forall>k<n. 0 < k \<longrightarrow> ekey h (par k) \<le> ekey h k)"

definition heap_except_up :: "expirationHeap \<Rightarrow> nat \<Rightarrow> nat \<Rightarrow> bool" where
  "heap_except_up h n j \<longleftrightarrow>
     (\<forall>k<n. 0 < k \<longrightarrow> k \<noteq> j \<longrightarrow> ekey h (par k) \<le> ekey h k) \<and>
     (\<forall>k<n. 0 < k \<longrightarrow> par k = j \<longrightarrow> 0 < j \<longrightarrow> ekey h (par j) \<le> ekey h k)"

definition heap_except_down :: "expirationHeap \<Rightarrow> nat \<Rightarrow> nat \<Rightarrow> bool" where
  "heap_except_down h n i \<longleftrightarrow>
     (\<forall>k<n. 0 < k \<longrightarrow> par k \<noteq> i \<longrightarrow> ekey h (par k) \<le> ekey h k) \<and>
     (\<forall>k<n. 0 < k \<longrightarrow> par k = i \<longrightarrow> 0 < i \<longrightarrow> ekey h (par i) \<le> ekey h k)"

definition heap_ok :: "expirationHeap \<Rightarrow> bool" where
  "heap_ok h \<longleftrightarrow> heap_upto h (length h)"

lemma eh_Swap_length [simp]: "length (eh_Swap h i j) = length h"
  by (simp add: eh_Swap_def)

lemma eh_Swap_nth:
  "i < length h \<Longrightarrow> j < length h \<Longrightarrow>
   eh_Swap h i j ! k = (if k = j then h ! i else if k = i then h ! j else h ! k)"
  by (cases "k < length h") (auto simp: eh_Swap_def nth_list_update)

lemma eh_Swap_mset: "i < length h \<Longrightarrow> j < length h \<Longrightarrow> mset (eh_Swap h i j) = mset h"
  unfolding eh_Swap_def by (rule mset_swap)

lemma par_less: "0 < k \<Longrightarrow> par k < k"
  by (auto simp: par_def)

lemma par_less_eq: "par k \<le> k"
  by (auto simp: par_def)

lemma par_cases: "0 < k \<Longrightarrow> par k = i \<longleftrightarrow> k = 2 * i + 1 \<or> k = 2 * i + 2"
  by (auto simp: par_def)

lemma heap_up_step:
  "heap_up h j = (if par j = j \<or> \<not> eh_Less h j (par j) then h else heap_up (eh_Swap h (par j) j) (par j))"
  by (subst heap_up.simps) (simp add: Let_def par_def)

lemma heap_up_induct [case_names step]:
  assumes "\<And>h j. (\<not> (par j = j \<or> \<not> eh_Less h j (par j)) \<Longrightarrow> P (eh_Swap h (par j) j) (par j)) \<Longrightarrow> P h j"
  shows "P h j"
proof (induction h j rule: heap_up.induct)
  case (1 h j)
  show ?case by (rule assms, rule "1") (simp_all add: par_def)
qed

subsection \<open>up\<close>

lemma heap_up_length [simp]: "length (heap_up h j) = length h"
  by (induction h j rule: heap_up_induct) (subst heap_up_step, simp)

lemma heap_up_mset: "j < length h \<Longrightarrow> mset (heap_up h j) = mset h"
proof (induction h j rule: heap_up_induct)
  case (step h j)
  have "par j < length h" using step.prems par_less_eq [of j] by linarith
  with step show ?case by (subst heap_up_step) (simp add: eh_Swap_mset)
qed

lemma heap_except_up_swap:
  assumes "heap_except_up h n j" and "n = length h" and "j < n" and "0 < j"
    and "ekey h j < ekey h (par j)"
  shows "heap_except_up (eh_Swap h (par j) j) n (par j)"
proof -
  let ?h = "eh_Swap h (par j) j"
  have pj: "par j < length h" "par j \<noteq> j"
    using par_less [OF assms(4)] assms(2,3) by simp_all
  have key: "ekey ?h k = (if k = j then ekey h (par j) else if k = par j then ekey h j else ekey h k)" for k
    using pj assms(2,3) by (simp add: eh_Swap_nth)
  have ok: "ekey h (par k) \<le> ekey h k" if "k < n" "0 < k" "k \<noteq> j" for k
    using assms(1) that unfolding heap_except_up_def by blast
  have ch: "ekey h (par j) \<le> ekey h k" if "k < n" "0 < k" "par k = j" for k
    using assms(1,4) that unfolding heap_except_up_def by blast
  show ?thesis
    unfolding heap_except_up_def
  proof (intro conjI allI impI)
    fix k assume k: "k < n" "0 < k" "k \<noteq> par j"
    show "ekey ?h (par k) \<le> ekey ?h k"
      using k ok [of k] ch [of k] assms(5) par_less [OF k(2)] pj(2) unfolding key by auto
  next
    fix k assume k: "k < n" "0 < k" "par k = par j" "0 < par j"
    have top: "ekey h (par (par j)) \<le> ekey h (par j)"
      using ok [of "par j"] k pj assms(2) by auto
    have "par (par j) \<noteq> j" "par (par j) \<noteq> par j" "k \<noteq> par j"
      using par_less [OF k(4)] par_less [OF assms(4)] par_less [OF k(2)] k(3) by linarith+
    then show "ekey ?h (par (par j)) \<le> ekey ?h k"
      using k ok [of k] top unfolding key by auto
  qed
qed

lemma heap_up_ok:
  "heap_except_up h (length h) j \<Longrightarrow> j < length h \<Longrightarrow> heap_ok (heap_up h j)"
proof (induction h j rule: heap_up_induct)
  case (step h j)
  show ?case
  proof (cases "par j = j \<or> \<not> eh_Less h j (par j)")
    case True
    have "ekey h (par k) \<le> ekey h k" if "k < length h" "0 < k" for k
      using True step.prems that par_less [OF that(2)]
      by (cases "k = j") (auto simp: heap_except_up_def eh_Less_def)
    with True show ?thesis
      by (subst heap_up_step) (simp add: heap_ok_def heap_upto_def)
  next
    case False
    then have j: "0 < j" "ekey h j < ekey h (par j)"
      using par_less_eq [of j] by (auto simp: eh_Less_def intro: gr0I)
    have "heap_except_up (eh_Swap h (par j) j) (length h) (par j)"
      using step.prems j by (intro heap_except_up_swap) auto
    then have "heap_ok (heap_up (eh_Swap h (par j) j) (par j))"
      using step.IH [OF False] step.prems par_less [OF j(1)] by simp
    with False show ?thesis by (subst heap_up_step) simp
  qed
qed

subsection \<open>down\<close>

text \<open>The child \<open>down\<close> compares with: the smaller of the two, or the only one.\<close>

definition small_child :: "expirationHeap \<Rightarrow> nat \<Rightarrow> nat \<Rightarrow> nat" where
  "small_child h i n = (if 2 * i + 2 < n \<and> eh_Less h (2 * i + 2) (2 * i + 1) then 2 * i + 2 else 2 * i + 1)"

lemma heap_down_step:
  "heap_down h i n =
     (if n \<le> 2 * i + 1 \<or> \<not> eh_Less h (small_child h i n) i then h
      else heap_down (eh_Swap h i (small_child h i n)) (small_child h i n) n)"
  by (subst heap_down.simps) (simp add: Let_def small_child_def)

lemma heap_down_induct [case_names step]:
  assumes "\<And>h i n. (\<not> (n \<le> 2 * i + 1 \<or> \<not> eh_Less h (small_child h i n) i) \<Longrightarrow>
      P (eh_Swap h i (small_child h i n)) (small_child h i n) n) \<Longrightarrow> P h i n"
  shows "P h i n"
proof (induction h i n rule: heap_down.induct)
  case (1 h i n)
  show ?case by (rule assms, rule "1") (auto simp: small_child_def)
qed

lemma small_child_bounds:
  "2 * i + 1 < n \<Longrightarrow> small_child h i n < n \<and> i < small_child h i n \<and> par (small_child h i n) = i"
  by (auto simp: small_child_def par_def)

lemma small_child_min:
  assumes "k < n" "0 < k" "par k = i"
  shows "ekey h (small_child h i n) \<le> ekey h k"
  using assms par_cases [OF assms(2), of i] by (auto simp: small_child_def eh_Less_def)

lemma heap_down_length [simp]: "length (heap_down h i n) = length h"
  by (induction h i n rule: heap_down_induct) (subst heap_down_step, simp)

lemma heap_down_mset: "n \<le> length h \<Longrightarrow> mset (heap_down h i n) = mset h"
proof (induction h i n rule: heap_down_induct)
  case (step h i n)
  then show ?case
    using small_child_bounds [of i n h] by (subst heap_down_step) (auto simp: eh_Swap_mset)
qed

lemma heap_down_outside: "n \<le> k \<Longrightarrow> n \<le> length h \<Longrightarrow> heap_down h i n ! k = h ! k"
proof (induction h i n rule: heap_down_induct)
  case (step h i n)
  then show ?case
    using small_child_bounds [of i n h] by (subst heap_down_step) (auto simp: eh_Swap_nth)
qed

lemma heap_except_down_swap:
  assumes "heap_except_down h n i" and "n \<le> length h" and "2 * i + 1 < n"
    and "ekey h (small_child h i n) < ekey h i"
  shows "heap_except_down (eh_Swap h i (small_child h i n)) n (small_child h i n)"
proof -
  let ?j = "small_child h i n"
  let ?h = "eh_Swap h i ?j"
  have j: "?j < n" "i < ?j" "par ?j = i" using small_child_bounds [OF assms(3)] by auto
  have key: "ekey ?h k = (if k = ?j then ekey h i else if k = i then ekey h ?j else ekey h k)" for k
    using j assms(2) by (simp add: eh_Swap_nth)
  have ok: "ekey h (par k) \<le> ekey h k" if "k < n" "0 < k" "par k \<noteq> i" for k
    using assms(1) that unfolding heap_except_down_def by blast
  have gp: "ekey h (par i) \<le> ekey h k" if "k < n" "0 < k" "par k = i" "0 < i" for k
    using assms(1) that unfolding heap_except_down_def by blast
  show ?thesis
    unfolding heap_except_down_def
  proof (intro conjI allI impI)
    fix k assume k: "k < n" "0 < k" "par k \<noteq> ?j"
    show "ekey ?h (par k) \<le> ekey ?h k"
      using k ok [of k] gp [of ?j] small_child_min [of k n i h] assms(4) j par_less [OF k(2)]
      unfolding key by auto
  next
    fix k assume k: "k < n" "0 < k" "par k = ?j" "0 < ?j"
    show "ekey ?h (par ?j) \<le> ekey ?h k"
      using k ok [of k] j par_less [OF k(2)] unfolding key by auto
  qed
qed

lemma heap_down_ok:
  "heap_except_down h n i \<Longrightarrow> n \<le> length h \<Longrightarrow> heap_upto (heap_down h i n) n"
proof (induction h i n rule: heap_down_induct)
  case (step h i n)
  let ?j = "small_child h i n"
  show ?case
  proof (cases "n \<le> 2 * i + 1 \<or> \<not> eh_Less h ?j i")
    case True
    have "ekey h (par k) \<le> ekey h k" if k: "k < n" "0 < k" for k
      using True step.prems k small_child_min [of k n i h] par_cases [OF k(2), of i]
      by (cases "par k = i") (auto simp: heap_except_down_def eh_Less_def)
    with True show ?thesis by (subst heap_down_step) (simp add: heap_upto_def)
  next
    case False
    then have "heap_except_down (eh_Swap h i ?j) n ?j"
      using step.prems by (intro heap_except_down_swap) (auto simp: eh_Less_def)
    then have "heap_upto (heap_down (eh_Swap h i ?j) ?j n) n"
      using step.IH [OF False] step.prems by simp
    with False show ?thesis by (subst heap_down_step) simp
  qed
qed

section \<open>Push, Pop and peek\<close>

lemma heap_ok_Nil [simp]: "heap_ok []"
  by (simp add: heap_ok_def heap_upto_def)

lemma heap_Push_mset: "mset (heap_Push x h) = add_mset x (mset h)"
  by (simp add: heap_Push_def Let_def eh_Push_def eh_Len_def heap_up_mset)

lemma heap_Push_ok:
  assumes "heap_ok h"
  shows "heap_ok (heap_Push x h)"
proof -
  have "heap_except_up (h @ [x]) (length (h @ [x])) (length h)"
    unfolding heap_except_up_def
  proof (intro conjI allI impI)
    fix k assume k: "k < length (h @ [x])" "0 < k" "k \<noteq> length h"
    then have "k < length h" "par k < length h" using par_less [of k] by auto
    with k assms show "ekey (h @ [x]) (par k) \<le> ekey (h @ [x]) k"
      by (auto simp: nth_append heap_ok_def heap_upto_def)
  next
    fix k assume "k < length (h @ [x])" "0 < k" "par k = length h"
    then show "ekey (h @ [x]) (par (length h)) \<le> ekey (h @ [x]) k"
      using par_less [of k] by simp
  qed
  then have "heap_ok (heap_up (h @ [x]) (length h))"
    by (rule heap_up_ok) simp
  then show ?thesis by (simp add: heap_Push_def Let_def eh_Push_def eh_Len_def)
qed

lemma heap_ok_root:
  assumes "heap_ok h" and "k < length h"
  shows "ekey h 0 \<le> ekey h k"
  using assms(2)
proof (induction k rule: less_induct)
  case (less k)
  show ?case
  proof (cases "k = 0")
    case False
    then have "ekey h 0 \<le> ekey h (par k)" and "ekey h (par k) \<le> ekey h k"
      using less par_less [of k] assms(1) by (auto simp: heap_ok_def heap_upto_def)
    then show ?thesis by simp
  qed simp
qed

lemma heap_Pop_Some:
  assumes "heap_Pop h = Some (x, h')"
  shows "h \<noteq> []" and "x = h ! 0" and "mset h = add_mset x (mset h')"
    and "heap_ok h \<Longrightarrow> heap_ok h'"
proof -
  let ?n = "length h - 1"
  let ?s = "eh_Swap h 0 ?n"
  let ?d = "heap_down ?s 0 ?n"
  show ne: "h \<noteq> []" using assms by (auto simp: heap_Pop_def)
  then have n: "?n < length h" "0 < length h" by auto
  have pop: "x = ?d ! ?n" "h' = take ?n ?d"
    using assms ne by (auto simp: heap_Pop_def eh_Pop_def eh_Len_def Let_def split: if_splits)
  show x: "x = h ! 0"
    using pop n by (simp add: heap_down_outside eh_Swap_nth)
  have "?d = h' @ [x]"
    using pop n take_Suc_conv_app_nth [of ?n ?d] by simp
  then have "mset ?d = add_mset x (mset h')" by simp
  moreover have "mset ?d = mset h"
    using n by (simp add: heap_down_mset eh_Swap_mset)
  ultimately show "mset h = add_mset x (mset h')" by simp
  show "heap_ok h'" if "heap_ok h"
  proof -
    have key: "ekey ?s k = (if k = ?n then ekey h 0 else if k = 0 then ekey h ?n else ekey h k)" for k
      using n by (simp add: eh_Swap_nth)
    have "heap_except_down ?s ?n 0"
      unfolding heap_except_down_def
    proof (intro conjI allI impI)
      fix k assume k: "k < ?n" "0 < k" "par k \<noteq> 0"
      then show "ekey ?s (par k) \<le> ekey ?s k"
        using that par_less [OF k(2)] unfolding key heap_ok_def heap_upto_def by auto
    qed simp
    then have "heap_upto ?d ?n" by (rule heap_down_ok) simp
    then show ?thesis
      using pop by (auto simp: heap_ok_def heap_upto_def order_le_less_trans [OF par_less_eq])
  qed
qed

lemma heap_Pop_None_iff: "heap_Pop h = None \<longleftrightarrow> h = []"
proof -
  have "heap_Pop h \<noteq> None" if "h \<noteq> []"
  proof -
    have "heap_down (eh_Swap h 0 (length h - 1)) 0 (length h - 1) \<noteq> []"
      using that by (metis eh_Swap_length heap_down_length length_0_conv)
    then show ?thesis using that by (simp add: heap_Pop_def eh_Pop_def eh_Len_def Let_def)
  qed
  then show ?thesis by (auto simp: heap_Pop_def)
qed

lemma heap_Pop_length: "heap_Pop h = Some (x, h') \<Longrightarrow> length h = Suc (length h')"
  using heap_Pop_Some(3) by (metis size_add_mset size_mset)

section \<open>The deadline queue as an interface\<close>

locale expiry_queue =
  fixes empty :: "'h"
    and push :: "expirationItem \<Rightarrow> 'h \<Rightarrow> 'h"
    and pop :: "'h \<Rightarrow> (expirationItem \<times> 'h) option"
    and peek :: "'h \<Rightarrow> expirationItem option"
    and items :: "'h \<Rightarrow> expirationItem multiset"
    and invar :: "'h \<Rightarrow> bool"
  assumes items_empty: "items empty = {#}" and invar_empty: "invar empty"
    and items_push: "invar h \<Longrightarrow> items (push x h) = add_mset x (items h)"
    and invar_push: "invar h \<Longrightarrow> invar (push x h)"
    and peek_None: "invar h \<Longrightarrow> peek h = None \<longleftrightarrow> items h = {#}"
    and peek_min: "invar h \<Longrightarrow> peek h = Some x \<Longrightarrow> y \<in># items h \<Longrightarrow> ei_ExpiresAt x \<le> ei_ExpiresAt y"
    and pop_peek: "invar h \<Longrightarrow> map_option fst (pop h) = peek h"
    and items_pop: "invar h \<Longrightarrow> pop h = Some (x, h') \<Longrightarrow> items h = add_mset x (items h')"
    and invar_pop: "invar h \<Longrightarrow> pop h = Some (x, h') \<Longrightarrow> invar h'"
begin

text \<open>When the earliest deadline lies after \<open>now\<close>, or there is none, no deadline is due.\<close>

lemma nothing_due:
  assumes "invar h" and "\<And>x. peek h = Some x \<Longrightarrow> now < ei_ExpiresAt x" and "y \<in># items h"
  shows "now < ei_ExpiresAt y"
proof (cases "peek h")
  case None
  then show ?thesis using peek_None [OF assms(1)] assms(3) by simp
next
  case (Some x)
  then show ?thesis using assms peek_min [OF assms(1) Some assms(3)] by fastforce
qed

lemma pop_of_peek:
  assumes "invar h" and "peek h = Some x"
  obtains h' where "pop h = Some (x, h')"
  using pop_peek [OF assms(1)] assms(2) by (cases "pop h") auto

end

interpretation eh: expiry_queue "[]" heap_Push heap_Pop eh_peek mset heap_ok
proof unfold_locales
  show "heap_ok h \<Longrightarrow> eh_peek h = Some x \<Longrightarrow> y \<in># mset h \<Longrightarrow> ei_ExpiresAt x \<le> ei_ExpiresAt y" for h x y
    using heap_ok_root by (auto simp: eh_peek_def in_set_conv_nth split: if_splits)
  show "map_option fst (heap_Pop h) = eh_peek h" for h
  proof (cases "heap_Pop h")
    case None
    then show ?thesis by (simp add: heap_Pop_None_iff eh_peek_def)
  next
    case (Some p)
    then show ?thesis
      using heap_Pop_Some(1,2) [of h "fst p" "snd p"] by (simp add: eh_peek_def)
  qed
  show "heap_ok h \<Longrightarrow> eh_peek h = None \<longleftrightarrow> mset h = {#}" for h
    by (simp add: eh_peek_def)
  show "heap_Pop h = Some (x, h') \<Longrightarrow> mset h = add_mset x (mset h')" for h x h'
    by (rule heap_Pop_Some(3))
  show "heap_ok h \<Longrightarrow> heap_Pop h = Some (x, h') \<Longrightarrow> heap_ok h'" for h x h'
    by (rule heap_Pop_Some(4))
qed (simp_all add: heap_Push_mset heap_Push_ok)

end
