(* ===== verification/Storage_Properties.thy ===== *)
theory Storage_Properties
  imports Memory_Queue Expiration_Heap
begin

text \<open>
  The properties of the in-memory queue (\<open>internal/queue/memory.go\<close>) and of the heap of deadlines
  (\<open>internal/core/heap.go\<close>).
\<close>

section \<open>The in-memory queue\<close>

text \<open>A queue with one task in each of ready and processing storage, for the examples.\<close>

definition sample_task :: task where
  "sample_task = \<lparr>task_ID = ''t1'', task_Payload = Some ''p'', task_Attempts = 0\<rparr>"

definition other_task :: task where
  "other_task = \<lparr>task_ID = ''t2'', task_Payload = None, task_Attempts = 3\<rparr>"

definition sample_queue :: MemoryQueue where
  "sample_queue = \<lparr>mq_ready = [other_task],
     mq_processing = [(''t1'', \<lparr>mpe_task = sample_task, mpe_leaseID = ''l1''\<rparr>)], mq_dead = []\<rparr>"

lemma sample_queue_invar: "mem_invar sample_queue"
  by (simp add: mem_invar_def sample_queue_def sample_task_def gm_ok_def)

text \<open>C27. Each operation of the in-memory queue implements the abstract queue: it returns what the
  specification returns, its new state represents the specification's new state, and it keeps the
  invariant.\<close>

theorem memory_queue_refines:
  assumes "mem_invar q"
  shows "(fst (mem_Enqueue t q), mem_abs (snd (mem_Enqueue t q))) = spec_Enqueue t (mem_abs q) \<and>
    (fst (mem_Acquire lid q), mem_abs (snd (mem_Acquire lid q))) = spec_Acquire lid (mem_abs q) \<and>
    (fst (mem_Complete tid lid q), mem_abs (snd (mem_Complete tid lid q))) = spec_Complete tid lid (mem_abs q) \<and>
    (fst (mem_Requeue tid lid q), mem_abs (snd (mem_Requeue tid lid q))) = spec_Requeue tid lid (mem_abs q) \<and>
    (fst (mem_DeadLetter tid lid reason at q), mem_abs (snd (mem_DeadLetter tid lid reason at q))) =
      spec_DeadLetter tid lid reason at (mem_abs q) \<and>
    mem_invar (snd (mem_Enqueue t q)) \<and> mem_invar (snd (mem_Acquire lid q)) \<and>
    mem_invar (snd (mem_Complete tid lid q)) \<and> mem_invar (snd (mem_Requeue tid lid q)) \<and>
    mem_invar (snd (mem_DeadLetter tid lid reason at q))"
  using mem_invar_ops [OF assms]
  by (intro conjI mem_Enqueue_refines mem_Acquire_refines mem_Complete_refines mem_Requeue_refines
      mem_DeadLetter_refines) (simp_all add: prod.collapse)

theorem memory_queue_refines_witness:
  "mem_Requeue ''t1'' ''l1'' sample_queue =
     (Inr (), \<lparr>mq_ready = [other_task, bump_attempts sample_task], mq_processing = [], mq_dead = []\<rparr>) \<and>
   spec_Requeue ''t1'' ''l1'' (mem_abs sample_queue) =
     (Inr (), mem_abs \<lparr>mq_ready = [other_task, bump_attempts sample_task], mq_processing = [], mq_dead = []\<rparr>)"
proof -
  have run: "mem_Requeue ''t1'' ''l1'' sample_queue =
     (Inr (), \<lparr>mq_ready = [other_task, bump_attempts sample_task], mq_processing = [], mq_dead = []\<rparr>)"
    by (simp add: mem_Requeue_def sample_queue_def Let_def)
  show ?thesis
    using memory_queue_refines [OF sample_queue_invar, of zero_task "''l1''" "''t1''" "[]" 0]
    unfolding run by simp
qed

text \<open>C28. Startup reconciliation of the in-memory queue, for every order of the map iteration: the tasks
  that are fenced by no active lease go back to ready storage as they were, behind the ready tasks, the
  others stay with their fence, the lease ids of the latter are returned as matched, the number of the
  former as moved, and no task is lost or duplicated.\<close>

theorem memory_recovery:
  assumes "mem_invar q" and "range_order ord"
    and "mem_RecoverOrphanedProcessing ord active q = (r, q')"
  shows "\<exists>res moved. r = Inr res \<and>
    mq_ready q' = mq_ready q @ moved \<and> rr_Moved res = length moved \<and> mset moved = orphans active (mem_abs q) \<and>
    aq_proc (mem_abs q') = aq_proc (mem_abs q) |` covered active (mem_abs q) \<and> mq_dead q' = mq_dead q \<and>
    set (gm_keys (rr_MatchedLeaseIDs res)) = matched_leases active (mem_abs q) \<and>
    task_ids (mem_abs q') = task_ids (mem_abs q) \<and> mem_invar q'"
proof -
  obtain res where res: "r = Inr res" "spec_Recover active (mem_abs q) res (mem_abs q')" "mem_invar q'"
    using mem_Recover_refines [OF assms] by blast
  with task_ids_Recover [OF res(2) mem_invar_wf [OF assms(1)]] show ?thesis
    by (auto simp: spec_Recover_def simp del: set_map)
qed

theorem memory_recovery_witness:
  "mem_RecoverOrphanedProcessing rev [] sample_queue =
     (Inr \<lparr>rr_Moved = 1, rr_MatchedLeaseIDs = []\<rparr>,
      \<lparr>mq_ready = [other_task, sample_task], mq_processing = [], mq_dead = []\<rparr>) \<and>
   task_ids (mem_abs \<lparr>mq_ready = [other_task, sample_task], mq_processing = [], mq_dead = []\<rparr>) =
     task_ids (mem_abs sample_queue)"
proof -
  have run: "mem_RecoverOrphanedProcessing rev [] sample_queue =
     (Inr \<lparr>rr_Moved = 1, rr_MatchedLeaseIDs = []\<rparr>,
      \<lparr>mq_ready = [other_task, sample_task], mq_processing = [], mq_dead = []\<rparr>)"
    by (simp add: mem_RecoverOrphanedProcessing_def sample_queue_def recover_entry_def)
  then show ?thesis using memory_recovery [OF sample_queue_invar range_order_rev run] by blast
qed

text \<open>Fencing: a completion, requeue or dead letter under a lease that does not hold the task is
  refused and changes nothing; the error says whether the task is in processing storage at all.\<close>

lemma memory_fencing:
  assumes "\<And>t. aq_proc (mem_abs q) tid \<noteq> Some (t, lid)"
  defines "err \<equiv> (if aq_proc (mem_abs q) tid = None then ErrTaskNotProcessing else ErrLeaseFenceMismatch)"
  shows "mem_Complete tid lid q = (Inl err, q) \<and> mem_Requeue tid lid q = (Inl err, q) \<and>
    mem_DeadLetter tid lid reason at q = (Inl err, q)"
  using assms(1) unfolding err_def
  by (auto simp: mem_Complete_def mem_Requeue_def mem_DeadLetter_def split: option.splits)

text \<open>Handing out all ready tasks, one lease after the other.\<close>

fun acquire_all :: "string list \<Rightarrow> MemoryQueue \<Rightarrow> task list \<times> MemoryQueue" where
  "acquire_all [] q = ([], q)"
| "acquire_all (l # ls) q =
     (case mem_Acquire l q of
        (Inl _, q') \<Rightarrow> ([], q')
      | (Inr t, q') \<Rightarrow> (case acquire_all ls q' of (ts, q'') \<Rightarrow> (t # ts, q'')))"

lemma acquire_all_ready:
  "mq_ready q = ts @ us \<Longrightarrow> length ls = length ts \<Longrightarrow>
   fst (acquire_all ls q) = ts \<and> mq_ready (snd (acquire_all ls q)) = us"
proof (induction ls arbitrary: q ts)
  case (Cons l ls)
  then obtain t ts' where ts: "ts = t # ts'" "length ls = length ts'" by (cases ts) auto
  define q' where "q' = q\<lparr>mq_ready := ts' @ us,
      mq_processing := gm_put (task_ID t) \<lparr>mpe_task = t, mpe_leaseID = l\<rparr> (mq_processing q)\<rparr>"
  have acq: "mem_Acquire l q = (Inr t, q')" and "mq_ready q' = ts' @ us"
    using Cons.prems(1) ts(1) by (simp_all add: mem_Acquire_eq q'_def)
  from Cons.IH [OF this(2) ts(2)] acq show ?case by (auto simp: ts(1) split: prod.splits)
qed simp

lemma enqueue_all_ready:
  "mq_ready (fold (\<lambda>t q. snd (mem_Enqueue t q)) ts q) = mq_ready q @ ts"
  by (induction ts arbitrary: q) (simp_all add: mem_Enqueue_def)

text \<open>First in, first out: from an empty queue, the tasks that were put in are handed out unchanged
  and in the order they came.\<close>

lemma memory_fifo:
  assumes "length ls = length ts"
  shows "fst (acquire_all ls (fold (\<lambda>t q. snd (mem_Enqueue t q)) ts NewMemoryQueue)) = ts"
  using assms acquire_all_ready [of "fold (\<lambda>t q. snd (mem_Enqueue t q)) ts NewMemoryQueue" ts "[]" ls]
    enqueue_all_ready [of ts NewMemoryQueue]
  by (simp add: NewMemoryQueue_def)

section \<open>The heap of deadlines\<close>

text \<open>Popping until the heap is empty.\<close>

function heap_drain :: "expirationHeap \<Rightarrow> expirationItem list" where
  "heap_drain h = (case heap_Pop h of None \<Rightarrow> [] | Some (x, h') \<Rightarrow> x # heap_drain h')"
  by pat_completeness auto
termination
  by (relation "measure length") (auto dest: heap_Pop_length)

declare heap_drain.simps [simp del]

lemma heap_drain_sorted:
  "heap_ok h \<Longrightarrow> mset (heap_drain h) = mset h \<and> sorted (map ei_ExpiresAt (heap_drain h))"
proof (induction h rule: heap_drain.induct)
  case (1 h)
  show ?case
  proof (cases "heap_Pop h")
    case None
    then have "heap_drain h = []" by (subst heap_drain.simps) simp
    moreover have "h = []" using None by (simp only: heap_Pop_None_iff)
    ultimately show ?thesis by simp
  next
    case (Some p)
    then obtain x h' where pop: "heap_Pop h = Some (x, h')" by (cases p) auto
    have ih: "mset (heap_drain h') = mset h'" "sorted (map ei_ExpiresAt (heap_drain h'))"
      using "1.IH" [OF pop refl] eh.invar_pop [OF "1.prems" pop] by auto
    have "eh_peek h = Some x" using eh.pop_peek [OF "1.prems"] pop by simp
    then have "ei_ExpiresAt x \<le> ei_ExpiresAt y" if "y \<in> set (heap_drain h')" for y
      using that eh.peek_min [OF "1.prems"] eh.items_pop [OF "1.prems" pop] ih(1)
      by (metis set_mset_mset set_mset_add_mset_insert insertCI)
    with ih eh.items_pop [OF "1.prems" pop] show ?thesis
      by (subst (1 2) heap_drain.simps) (simp add: pop)
  qed
qed

text \<open>C29. Pushing any deadlines onto an empty heap and popping them all yields exactly these deadlines in
  ascending order, and the peeked item is never later than any other one.\<close>

theorem heap_sorts:
  "mset (heap_drain (fold heap_Push xs [])) = mset xs \<and>
   sorted (map ei_ExpiresAt (heap_drain (fold heap_Push xs []))) \<and>
   (\<forall>x y. eh_peek (fold heap_Push xs []) = Some x \<longrightarrow> y \<in> set xs \<longrightarrow> ei_ExpiresAt x \<le> ei_ExpiresAt y)"
proof -
  have build: "heap_ok h \<Longrightarrow> heap_ok (fold heap_Push xs h) \<and> mset (fold heap_Push xs h) = mset xs + mset h" for h
    by (induction xs arbitrary: h) (simp_all add: heap_Push_ok heap_Push_mset)
  have ok: "heap_ok (fold heap_Push xs [])" and items: "mset (fold heap_Push xs []) = mset xs"
    using build [of "[]"] by simp_all
  then show ?thesis
    using heap_drain_sorted [OF ok] eh.peek_min [OF ok] by (metis set_mset_mset)
qed

theorem heap_sorts_witness:
  "eh_peek (fold heap_Push [\<lparr>ei_LeaseID = ''b'', ei_ExpiresAt = 7\<rparr>, \<lparr>ei_LeaseID = ''a'', ei_ExpiresAt = 3\<rparr>] []) =
     Some \<lparr>ei_LeaseID = ''a'', ei_ExpiresAt = 3\<rparr> \<and> (3::int) \<le> 7"
proof -
  let ?xs = "[\<lparr>ei_LeaseID = ''b'', ei_ExpiresAt = 7\<rparr>, \<lparr>ei_LeaseID = ''a'', ei_ExpiresAt = 3\<rparr>]"
  have "eh_peek (fold heap_Push ?xs []) = Some \<lparr>ei_LeaseID = ''a'', ei_ExpiresAt = 3\<rparr>"
    by code_simp
  with heap_sorts [of ?xs] show ?thesis by fastforce
qed

end
