(* ===== verification/Wal_Frames.thy ===== *)
theory Wal_Frames
  imports Queue_Backend
begin

unbundle bit_operations_syntax

text \<open>
  \<open>internal/wal/wal.go\<close>, the format of the journal: its records, the frame of one record (length,
  CRC-32 and payload), the replay of a byte stream into records, and the fold of records into open
  leases. \<open>hash/crc32\<close> and \<open>encoding/binary\<close> are modelled as computations on 32-bit words. The payload
  encoding (\<open>encoding/json\<close> on \<open>Record\<close>) is an argument, a pair of functions; the theorems that need
  it ask only that decoding gives back an encoded record whose strings are valid UTF-8, and that decoded
  strings are valid UTF-8 (\<open>codec_ok\<close>). \<open>Record_Json\<close> models that encoding and shows that it does.
\<close>

section \<open>Records\<close>

type_synonym wal_op = string

definition OpFetch :: wal_op where "OpFetch = ''fetch''"
definition OpAck :: wal_op where "OpAck = ''ack''"
definition OpExpire :: wal_op where "OpExpire = ''expire''"
definition OpDeadLetter :: wal_op where "OpDeadLetter = ''dead_letter''"
definition OpStale :: wal_op where "OpStale = ''stale''"

lemmas wal_op_defs = OpFetch_def OpAck_def OpExpire_def OpDeadLetter_def OpStale_def

record wal_record =
  wr_Op :: wal_op
  wr_LeaseID :: string
  wr_Task :: task
  wr_CreatedAt :: instant
  wr_ExpiresAt :: instant

text \<open>The zero \<open>time.Time\<close>, 1 January of year 1 UTC, in nanoseconds since the Unix epoch.\<close>

definition zero_time :: instant where
  "zero_time = - 62135596800 * 1000000000"

text \<open>A composite literal that sets \<open>Op\<close> and \<open>LeaseID\<close> only.\<close>

definition close_record :: "wal_op \<Rightarrow> string \<Rightarrow> wal_record" where
  "close_record op leaseID =
     \<lparr>wr_Op = op, wr_LeaseID = leaseID, wr_Task = zero_task,
      wr_CreatedAt = zero_time, wr_ExpiresAt = zero_time\<rparr>"

lemma close_record_sel [simp]:
  "wr_Op (close_record op l) = op" "wr_LeaseID (close_record op l) = l"
  by (simp_all add: close_record_def)

text \<open>The payload encoding: \<open>json.Marshal\<close> and \<open>json.Unmarshal\<close> on \<open>Record\<close>.\<close>

record wal_codec =
  json_Marshal :: "wal_record \<Rightarrow> go_error + bytes"
  json_Unmarshal :: "bytes \<Rightarrow> go_error + wal_record"

text \<open>The text fields of a record are valid UTF-8.\<close>

definition record_text :: "wal_record \<Rightarrow> bool" where
  "record_text r \<longleftrightarrow> utf8_valid (wr_Op r) \<and> utf8_valid (wr_LeaseID r) \<and> utf8_valid (task_ID (wr_Task r))"

lemma op_text [simp]:
  "utf8_valid OpFetch" "utf8_valid OpAck" "utf8_valid OpExpire" "utf8_valid OpDeadLetter" "utf8_valid OpStale"
  by (rule utf8_valid_ascii; simp add: wal_op_defs byte_in_def)+

lemma record_text_close: "record_text (close_record op l) \<longleftrightarrow> utf8_valid op \<and> utf8_valid l"
  by (simp add: record_text_def close_record_def zero_task_def)

text \<open>What is used of \<open>encoding/json\<close>: decoding gives back a record whose text is valid, and what it decodes
  is always valid text.\<close>

definition codec_ok :: "wal_codec \<Rightarrow> bool" where
  "codec_ok c \<longleftrightarrow>
     (\<forall>r p. record_text r \<longrightarrow> json_Marshal c r = Inr p \<longrightarrow> p \<noteq> [] \<and> json_Unmarshal c p = Inr r) \<and>
     (\<forall>p r. json_Unmarshal c p = Inr r \<longrightarrow> record_text r)"

lemma codec_ok_back: "codec_ok c \<Longrightarrow> record_text r \<Longrightarrow> json_Marshal c r = Inr p \<Longrightarrow> p \<noteq> [] \<and> json_Unmarshal c p = Inr r"
  unfolding codec_ok_def by blast

lemma codec_ok_text: "codec_ok c \<Longrightarrow> json_Unmarshal c p = Inr r \<Longrightarrow> record_text r"
  unfolding codec_ok_def by blast

section \<open>Checksums and byte order\<close>

type_synonym u32 = "32 word"

text \<open>\<open>crc32.ChecksumIEEE\<close>: the reflected CRC with polynomial 0xEDB88320, bit by bit.\<close>

definition crc32_bit :: "u32 \<Rightarrow> u32" where
  "crc32_bit crc = (if crc AND 1 = 1 then drop_bit 1 crc XOR 0xEDB88320 else drop_bit 1 crc)"

definition crc32_byte :: "char \<Rightarrow> u32 \<Rightarrow> u32" where
  "crc32_byte b crc = (crc32_bit ^^ 8) (crc XOR of_nat (of_char b))"

definition crc32_ChecksumIEEE :: "bytes \<Rightarrow> u32" where
  "crc32_ChecksumIEEE p = NOT (fold crc32_byte p (NOT 0))"

text \<open>\<open>binary.LittleEndian.PutUint32\<close> and \<open>Uint32\<close>.\<close>

definition PutUint32 :: "u32 \<Rightarrow> bytes" where
  "PutUint32 v =
     [char_of (unat v mod 256), char_of (unat (drop_bit 8 v) mod 256),
      char_of (unat (drop_bit 16 v) mod 256), char_of (unat (drop_bit 24 v) mod 256)]"

definition byte_at :: "bytes \<Rightarrow> nat \<Rightarrow> u32" where
  "byte_at b i = of_nat (of_char (b ! i))"

definition Uint32 :: "bytes \<Rightarrow> u32" where
  "Uint32 b = byte_at b 0 OR push_bit 8 (byte_at b 1) OR push_bit 16 (byte_at b 2) OR
     push_bit 24 (byte_at b 3)"

lemma PutUint32_length [simp]: "length (PutUint32 v) = 4"
  by (simp add: PutUint32_def)

lemma of_nat_mod_256: "(of_nat (unat v mod 256) :: u32) = take_bit 8 v" for v :: u32
  by (simp add: take_bit_eq_mod word_unat_eq_iff unat_of_nat unat_mod)

lemma word_of_four_bytes:
  "take_bit 8 v OR push_bit 8 (take_bit 8 (drop_bit 8 v)) OR push_bit 16 (take_bit 8 (drop_bit 16 v)) OR
     push_bit 24 (take_bit 8 (drop_bit 24 v)) = v" for v :: u32
proof (rule bit_word_eqI)
  fix n assume "n < LENGTH(32)"
  then show "bit (take_bit 8 v OR push_bit 8 (take_bit 8 (drop_bit 8 v)) OR
     push_bit 16 (take_bit 8 (drop_bit 16 v)) OR push_bit 24 (take_bit 8 (drop_bit 24 v))) n = bit v n"
    by (cases "n < 16"; cases "n < 24") (auto simp: bit_simps)
qed

lemma Uint32_PutUint32 [simp]: "Uint32 (PutUint32 v) = v"
  using word_of_four_bytes [of v]
  by (simp add: Uint32_def PutUint32_def byte_at_def of_nat_mod_256 numeral_2_eq_2 numeral_3_eq_3)

section \<open>Frames\<close>

definition headerSize :: nat where "headerSize = 8"

definition maxRecordBytes :: nat where "maxRecordBytes = 8 * 2 ^ 20"

definition encode :: "wal_codec \<Rightarrow> wal_record \<Rightarrow> go_error + bytes" where
  "encode c r =
     (case json_Marshal c r of
        Inl err \<Rightarrow> Inl (ErrWrap ''wal: encode record: '' err [])
      | Inr payload \<Rightarrow>
          if length payload > maxRecordBytes
          then Inl (ErrNew (''wal: record is '' @ show_nat (length payload) @ '' bytes, over the '' @
                 show_nat maxRecordBytes @ '' byte limit''))
          else Inr (PutUint32 (of_nat (length payload)) @
                 PutUint32 (crc32_ChecksumIEEE payload) @ payload))"

text \<open>The system calls of the package, each of which may fail; a fault function says which do. The
  reads of a replay are named by the offset of the frame they belong to.\<close>

datatype syscall =
    SysMkdirAll | SysOpenFile | SysSeekStart | SysReadHeader nat | SysReadPayload nat
  | SysTruncate | SysSeekTail | SysWrite | SysSync | SysClose
  | SysOpenTemp | SysWriteTemp nat | SysSyncTemp | SysCloseTemp | SysCloseLive | SysRename | SysReopen

type_synonym faults = "syscall \<Rightarrow> go_error option"

abbreviation no_faults :: faults where
  "no_faults \<equiv> \<lambda>_. None"

definition is_eof :: "go_error \<Rightarrow> bool" where
  "is_eof e \<longleftrightarrow> errors_is e ErrEOF \<or> errors_is e ErrUnexpectedEOF"

text \<open>The loop of \<open>replay\<close> on the bytes not yet read; \<open>good\<close> is the offset past the last intact record.\<close>

function replay_loop ::
  "wal_codec \<Rightarrow> faults \<Rightarrow> bytes \<Rightarrow> nat \<Rightarrow> wal_record list \<Rightarrow> go_error + wal_record list \<times> nat" where
  "replay_loop c flt bs good records =
     (case flt (SysReadHeader good) of
        Some e \<Rightarrow> if is_eof e then Inr (records, good) else Inl (ErrWrap ''wal: read header: '' e [])
      | None \<Rightarrow>
          if length bs < headerSize then Inr (records, good)
          else
            let len = Uint32 (take 4 bs);
                checksum = Uint32 (take 4 (drop 4 bs));
                rest = drop headerSize bs
            in if len = 0 \<or> unat len > maxRecordBytes then Inr (records, good)
               else
                 (case flt (SysReadPayload good) of
                    Some e \<Rightarrow>
                      if is_eof e then Inr (records, good) else Inl (ErrWrap ''wal: read payload: '' e [])
                  | None \<Rightarrow>
                      if length rest < unat len then Inr (records, good)
                      else if crc32_ChecksumIEEE (take (unat len) rest) \<noteq> checksum then Inr (records, good)
                      else
                        (case json_Unmarshal c (take (unat len) rest) of
                           Inl _ \<Rightarrow> Inr (records, good)
                         | Inr r \<Rightarrow>
                             replay_loop c flt (drop (unat len) rest) (good + headerSize + unat len)
                               (records @ [r]))))"
  by pat_completeness auto
termination
  by (relation "measure (\<lambda>(c, flt, bs, good, records). length bs)") (auto simp: headerSize_def)

declare replay_loop.simps [simp del]

definition replay :: "wal_codec \<Rightarrow> faults \<Rightarrow> bytes \<Rightarrow> go_error + wal_record list \<times> nat" where
  "replay c flt contents =
     (case flt SysSeekStart of
        Some e \<Rightarrow> Inl (ErrWrap ''wal: seek to start: '' e [])
      | None \<Rightarrow> replay_loop c flt contents 0 [])"

section \<open>Folding records into open leases\<close>

definition live_step :: "wal_record \<Rightarrow> (string, wal_record) gomap \<Rightarrow> (string, wal_record) gomap" where
  "live_step r live =
     (if wr_Op r = OpFetch then gm_put (wr_LeaseID r) r live
      else if wr_Op r \<in> {OpAck, OpExpire, OpDeadLetter, OpStale} then gm_del (wr_LeaseID r) live
      else live)"

definition Live :: "wal_record list \<Rightarrow> (string, wal_record) gomap" where
  "Live records = fold live_step records []"

section \<open>Properties of frames\<close>

text \<open>The frame of a payload.\<close>

definition frame_of :: "bytes \<Rightarrow> bytes" where
  "frame_of payload =
     PutUint32 (of_nat (length payload)) @ PutUint32 (crc32_ChecksumIEEE payload) @ payload"

lemma frame_of_length [simp]: "length (frame_of p) = headerSize + length p"
  by (simp add: frame_of_def headerSize_def)

lemma encode_Inr:
  "encode c r = Inr f \<longleftrightarrow>
     (\<exists>p. json_Marshal c r = Inr p \<and> length p \<le> maxRecordBytes \<and> f = frame_of p)"
  by (auto simp: encode_def frame_of_def split: sum.splits)

lemma unat_of_nat_payload: "n \<le> maxRecordBytes \<Longrightarrow> unat (of_nat n :: u32) = n"
  by (simp add: unat_of_nat maxRecordBytes_def)

text \<open>One intact frame at the front of the stream is read and appended to the records.\<close>

lemma replay_loop_frame:
  assumes "json_Unmarshal c p = Inr r" and "p \<noteq> []" and "length p \<le> maxRecordBytes"
  shows "replay_loop c no_faults (frame_of p @ bs) good records =
         replay_loop c no_faults bs (good + length (frame_of p)) (records @ [r])"
proof -
  have len: "unat (of_nat (length p) :: u32) = length p"
    using assms(3) by (rule unat_of_nat_payload)
  then have "(of_nat (length p) :: u32) \<noteq> 0"
    using assms(2) by (metis length_0_conv unat_0)
  with len assms show ?thesis
    by (subst replay_loop.simps) (simp add: frame_of_def headerSize_def Let_def add.assoc)
qed

lemma replay_loop_short: "length bs < headerSize \<Longrightarrow> replay_loop c no_faults bs good records = Inr (records, good)"
  by (subst replay_loop.simps) simp

lemma replay_loop_torn:
  assumes "k < length (frame_of p)" and "length p \<le> maxRecordBytes"
  shows "replay_loop c no_faults (take k (frame_of p)) good records = Inr (records, good)"
proof (cases "k < headerSize")
  case True
  then show ?thesis by (simp add: replay_loop_short)
next
  case False
  then have "take k (frame_of p) =
      PutUint32 (of_nat (length p)) @ PutUint32 (crc32_ChecksumIEEE p) @ take (k - 8) p"
    by (simp add: frame_of_def headerSize_def)
  moreover have "length (take (k - 8) p) < unat (of_nat (length p) :: u32)"
    using assms False by (simp add: unat_of_nat_payload headerSize_def)
  ultimately show ?thesis
    by (subst replay_loop.simps) (simp add: headerSize_def Let_def)
qed

lemma replay_loop_bad_checksum:
  assumes "length p' = length p" and "length p \<le> maxRecordBytes"
    and "crc32_ChecksumIEEE p' \<noteq> crc32_ChecksumIEEE p"
  shows "replay_loop c no_faults (take headerSize (frame_of p) @ p' @ bs) good records = Inr (records, good)"
  using assms
  by (subst replay_loop.simps) (simp add: frame_of_def headerSize_def Let_def unat_of_nat_payload)

text \<open>The bytes of a list of records.\<close>

definition frames :: "wal_codec \<Rightarrow> wal_record list \<Rightarrow> bytes" where
  "frames c rs = concat (map (\<lambda>r. projr (encode c r)) rs)"

definition encodable :: "wal_codec \<Rightarrow> wal_record \<Rightarrow> bool" where
  "encodable c r \<longleftrightarrow> record_text r \<and> (\<exists>f. encode c r = Inr f)"

lemma frames_Nil [simp]: "frames c [] = []"
  by (simp add: frames_def)

lemma frames_append: "frames c (xs @ ys) = frames c xs @ frames c ys"
  by (simp add: frames_def)

lemma frames_single: "encode c r = Inr f \<Longrightarrow> frames c [r] = f"
  by (simp add: frames_def)

lemma replay_loop_frames:
  assumes "codec_ok c" and "list_all (encodable c) rs"
  shows "replay_loop c no_faults (frames c rs @ bs) good records =
         replay_loop c no_faults bs (good + length (frames c rs)) (records @ rs)"
  using assms(2)
proof (induction rs arbitrary: good records)
  case Nil
  then show ?case by simp
next
  case (Cons r rs)
  then obtain p where p: "json_Marshal c r = Inr p" "length p \<le> maxRecordBytes" "encode c r = Inr (frame_of p)"
    and rt: "record_text r"
    by (auto simp: encodable_def encode_Inr)
  from codec_ok_back [OF assms(1) rt p(1)] have "json_Unmarshal c p = Inr r" "p \<noteq> []" by auto
  with Cons p show ?case
    by (simp add: frames_def replay_loop_frame add.assoc)
qed

section \<open>Properties of the fold\<close>

lemma gm_ok_live_step [simp]: "gm_ok m \<Longrightarrow> gm_ok (live_step r m)"
  by (simp add: live_step_def)

lemma gm_ok_live_fold: "gm_ok m \<Longrightarrow> gm_ok (fold live_step rs m)"
  by (induction rs arbitrary: m) auto

lemma gm_ok_Live [simp]: "gm_ok (Live rs)"
  by (simp add: Live_def gm_ok_live_fold)

lemma Live_Nil [simp]: "Live [] = []"
  by (simp add: Live_def)

lemma Live_snoc: "Live (rs @ [r]) = live_step r (Live rs)"
  by (simp add: Live_def)

lemma Live_get_snoc_fetch:
  "wr_Op r = OpFetch \<Longrightarrow> gm_get (Live (rs @ [r])) = (gm_get (Live rs))(wr_LeaseID r \<mapsto> r)"
  by (simp add: Live_snoc live_step_def gomap_simps)

lemma Live_get_snoc_close:
  "wr_Op r \<in> {OpAck, OpExpire, OpDeadLetter, OpStale} \<Longrightarrow>
   gm_get (Live (rs @ [r])) = (gm_get (Live rs))(wr_LeaseID r := None)"
  by (auto simp: Live_snoc live_step_def gomap_simps wal_op_defs)

lemma Live_key: "gm_get (Live rs) l = Some r \<Longrightarrow> wr_LeaseID r = l \<and> wr_Op r = OpFetch \<and> r \<in> set rs"
proof (induction rs rule: rev_induct)
  case (snoc x rs)
  then show ?case
    by (auto simp: Live_snoc live_step_def gomap_simps split: if_splits)
qed simp

end
