(* ===== verification/Wal_Log.thy ===== *)
theory Wal_Log
  imports Wal_Frames "HOL-Library.Char_ord" "HOL-Library.List_Lexorder"
begin

text \<open>
  \<open>internal/wal/wal.go\<close>, the journal as a file: opening it (replay and truncation of a torn tail),
  appending, compaction through a temporary file and a rename, closing. The disk maps paths to
  contents; a handle has a position, the append flag and whether it is open. An environment says which
  system calls fail, how many bytes a failing write has written, and where the buffered reader of a
  replay has left the file when it stopped before the end. The theory ends with the contract of a
  journal the engine relies on and its interpretation on this model.
\<close>

type_synonym disk = "string \<rightharpoonup> bytes"

record file_handle =
  fh_path :: string
  fh_pos :: nat
  fh_append :: bool
  fh_open :: bool

record io_env =
  io_fault :: faults
  io_written :: nat
  io_readahead :: nat

definition io_ok :: io_env where
  "io_ok = \<lparr>io_fault = no_faults, io_written = 0, io_readahead = 0\<rparr>"

record Log =
  log_path :: string
  log_file :: "file_handle option"
  log_sync :: bool
  log_offset :: nat
  log_recovered :: "wal_record list"

section \<open>Files\<close>

definition contents_of :: "disk \<Rightarrow> string \<Rightarrow> bytes" where
  "contents_of d path = (case d path of None \<Rightarrow> [] | Some bs \<Rightarrow> bs)"

definition write_at :: "nat \<Rightarrow> bytes \<Rightarrow> bytes \<Rightarrow> bytes" where
  "write_at pos data bs =
     take pos bs @ replicate (pos - length bs) (char_of (0::nat)) @ data @ drop (pos + length data) bs"

definition ErrInvalidFile :: go_error where
  "ErrInvalidFile = ErrNew ''invalid argument''"

definition ErrClosedFile :: go_error where
  "ErrClosedFile = ErrNew ''file already closed''"

text \<open>\<open>(*os.File).Write\<close>: on a nil or closed file it fails; when the system call fails, a part of the
  data may have reached the file.\<close>

definition file_Write ::
  "io_env \<Rightarrow> bytes \<Rightarrow> file_handle option \<Rightarrow> disk \<Rightarrow> (go_error + unit) \<times> file_handle option \<times> disk" where
  "file_Write env data file d =
     (case file of
        None \<Rightarrow> (Inl ErrInvalidFile, file, d)
      | Some h \<Rightarrow>
          if \<not> fh_open h then (Inl ErrClosedFile, file, d)
          else
            let bs = contents_of d (fh_path h);
                pos = (if fh_append h then length bs else fh_pos h);
                out = (case io_fault env SysWrite of None \<Rightarrow> data | Some _ \<Rightarrow> take (io_written env) data);
                h' = h\<lparr>fh_pos := pos + length out\<rparr>;
                d' = d(fh_path h \<mapsto> write_at pos out bs)
            in (case io_fault env SysWrite of None \<Rightarrow> Inr () | Some e \<Rightarrow> Inl e, Some h', d'))"

section \<open>Opening, appending, closing\<close>

definition OpenWith ::
  "wal_codec \<Rightarrow> io_env \<Rightarrow> string \<Rightarrow> bool \<Rightarrow> disk \<Rightarrow> (go_error + Log) \<times> disk" where
  "OpenWith c env path sync d =
     (case io_fault env SysMkdirAll of
        Some e \<Rightarrow> (Inl (ErrWrap ''wal: create directory: '' e []), d)
      | None \<Rightarrow>
     (case io_fault env SysOpenFile of
        Some e \<Rightarrow> (Inl (ErrWrap (''wal: open '' @ path @ '': '') e []), d)
      | None \<Rightarrow>
          let bs = contents_of d path;
              d1 = d(path \<mapsto> bs)
          in (case replay c (io_fault env) bs of
                Inl e \<Rightarrow> (Inl e, d1)
              | Inr (records, good) \<Rightarrow>
             (case io_fault env SysTruncate of
                Some e \<Rightarrow> (Inl (ErrWrap ''wal: truncate torn tail: '' e []), d1)
              | None \<Rightarrow>
                  let d2 = d(path \<mapsto> take good bs)
                  in (case io_fault env SysSeekTail of
                        Some e \<Rightarrow> (Inl (ErrWrap ''wal: seek to tail: '' e []), d2)
                      | None \<Rightarrow>
                          (Inr \<lparr>log_path = path,
                                log_file = Some \<lparr>fh_path = path, fh_pos = good, fh_append = False,
                                                 fh_open = True\<rparr>,
                                log_sync = sync, log_offset = good, log_recovered = records\<rparr>, d2))))))"

definition Open :: "wal_codec \<Rightarrow> io_env \<Rightarrow> string \<Rightarrow> disk \<Rightarrow> (go_error + Log) \<times> disk" where
  "Open c env path d = OpenWith c env path True d"

definition Recovered :: "Log \<Rightarrow> wal_record list" where
  "Recovered l = log_recovered l"

definition Append ::
  "wal_codec \<Rightarrow> io_env \<Rightarrow> wal_record \<Rightarrow> Log \<times> disk \<Rightarrow> (go_error + unit) \<times> Log \<times> disk" where
  "Append c env r = (\<lambda>(l, d).
     case encode c r of
       Inl e \<Rightarrow> (Inl e, l, d)
     | Inr frame \<Rightarrow>
         (case file_Write env frame (log_file l) d of
            (Inl e, file, d') \<Rightarrow> (Inl (ErrWrap ''wal: append: '' e []), l\<lparr>log_file := file\<rparr>, d')
          | (Inr _, file, d') \<Rightarrow>
              (case (if log_sync l then io_fault env SysSync else None) of
                 Some e \<Rightarrow> (Inl (ErrWrap ''wal: sync: '' e []), l\<lparr>log_file := file\<rparr>, d')
               | None \<Rightarrow>
                   (Inr (), l\<lparr>log_file := file, log_offset := log_offset l + length frame\<rparr>, d'))))"

definition Size :: "Log \<Rightarrow> nat" where
  "Size l = log_offset l"

definition Close :: "io_env \<Rightarrow> Log \<Rightarrow> (go_error + unit) \<times> Log" where
  "Close env l =
     (case log_file l of
        None \<Rightarrow> (Inr (), l)
      | Some h \<Rightarrow>
          let err = (if fh_open h then io_fault env SysClose else Some ErrClosedFile);
              l' = l\<lparr>log_file := None\<rparr>
          in (case err of
                Some e \<Rightarrow> (Inl (ErrWrap ''wal: close: '' e []), l')
              | None \<Rightarrow> (Inr (), l')))"

section \<open>Compaction\<close>

text \<open>The loop that writes the live records to the temporary file: it returns the bytes written, or
  the error that stopped it.\<close>

fun compact_write :: "wal_codec \<Rightarrow> io_env \<Rightarrow> nat \<Rightarrow> wal_record list \<Rightarrow> go_error + bytes" where
  "compact_write c env i [] = Inr []"
| "compact_write c env i (r # rs) =
     (case encode c r of
        Inl e \<Rightarrow> Inl e
      | Inr frame \<Rightarrow>
          (case io_fault env (SysWriteTemp i) of
             Some e \<Rightarrow> Inl (ErrWrap ''wal: write compacted record: '' e [])
           | None \<Rightarrow>
               (case compact_write c env (Suc i) rs of
                  Inl e \<Rightarrow> Inl e
                | Inr bs \<Rightarrow> Inr (frame @ bs))))"

text \<open>What the replay at the start of a compaction reads, and where it leaves the file.\<close>

definition compact_replay ::
  "wal_codec \<Rightarrow> io_env \<Rightarrow> Log \<Rightarrow> disk \<Rightarrow> (go_error + wal_record list) \<times> Log" where
  "compact_replay c env l d =
     (case log_file l of
        None \<Rightarrow> (Inl (ErrWrap ''wal: seek to start: '' ErrInvalidFile []), l)
      | Some h \<Rightarrow>
          if \<not> fh_open h then (Inl (ErrWrap ''wal: seek to start: '' ErrClosedFile []), l)
          else
            let bs = contents_of d (fh_path h)
            in (case replay c (io_fault env) bs of
                  Inl e \<Rightarrow> (Inl e, l\<lparr>log_file := Some (h\<lparr>fh_pos := min (length bs) (io_readahead env)\<rparr>)\<rparr>)
                | Inr (records, good) \<Rightarrow>
                    (Inr records,
                     l\<lparr>log_file := Some (h\<lparr>fh_pos := max good
                         (if good = length bs then good else min (length bs) (io_readahead env))\<rparr>)\<rparr>)))"

definition close_live :: "Log \<Rightarrow> Log" where
  "close_live l = l\<lparr>log_file := map_option (\<lambda>h. h\<lparr>fh_open := False\<rparr>) (log_file l)\<rparr>"

definition Compact ::
  "wal_codec \<Rightarrow> io_env \<Rightarrow> (string list \<Rightarrow> string list) \<Rightarrow> Log \<times> disk \<Rightarrow> (go_error + unit) \<times> Log \<times> disk" where
  "Compact c env ord = (\<lambda>(l0, d).
     case compact_replay c env l0 d of
       (Inl e, l) \<Rightarrow> (Inl e, l, d)
     | (Inr records, l) \<Rightarrow>
         let live = Live records;
             ids = sort (ord (gm_keys live));
             temporary = log_path l @ ''.compact'';
             removed = d(temporary := None)
         in (case io_fault env SysOpenTemp of
               Some e \<Rightarrow> (Inl (ErrWrap ''wal: open compaction file: '' e []), l, d)
             | None \<Rightarrow>
            (case compact_write c env 0 (map (\<lambda>id. the (gm_get live id)) ids) of
               Inl e \<Rightarrow> (Inl e, l, removed)
             | Inr bs \<Rightarrow>
            (case io_fault env SysSyncTemp of
               Some e \<Rightarrow> (Inl (ErrWrap ''wal: sync compacted journal: '' e []), l, removed)
             | None \<Rightarrow>
            (case io_fault env SysCloseTemp of
               Some e \<Rightarrow> (Inl (ErrWrap ''wal: close compacted journal: '' e []), l, removed)
             | None \<Rightarrow>
            (case io_fault env SysCloseLive of
               Some e \<Rightarrow> (Inl (ErrWrap ''wal: close journal before rename: '' e []), close_live l, removed)
             | None \<Rightarrow>
            (case io_fault env SysRename of
               Some e \<Rightarrow> (Inl (ErrWrap ''wal: replace journal: '' e []), close_live l, d(temporary \<mapsto> bs))
             | None \<Rightarrow>
                 let renamed = d(temporary := None, log_path l \<mapsto> bs)
                 in (case io_fault env SysReopen of
                       Some e \<Rightarrow> (Inl (ErrWrap ''wal: reopen compacted journal: '' e []), close_live l, renamed)
                     | None \<Rightarrow>
                         (Inr (),
                          l\<lparr>log_file := Some \<lparr>fh_path = log_path l, fh_pos = 0, fh_append = True,
                                              fh_open = True\<rparr>,
                            log_offset := length bs\<rparr>, renamed)))))))))"

section \<open>Intact contents\<close>

text \<open>A byte string is intact when a replay reads it to its last byte.\<close>

definition intact :: "wal_codec \<Rightarrow> bytes \<Rightarrow> wal_record list \<Rightarrow> bool" where
  "intact c bs rs \<longleftrightarrow> replay_loop c no_faults bs 0 [] = Inr (rs, length bs)"

text \<open>The cases of one turn of the loop without faults: it stops, or it consumes one frame.\<close>

definition next_frame :: "wal_codec \<Rightarrow> bytes \<Rightarrow> (wal_record \<times> nat) option" where
  "next_frame c bs =
     (let len = Uint32 (take 4 bs); payload = take (unat len) (drop headerSize bs)
      in if length bs < headerSize \<or> len = 0 \<or> unat len > maxRecordBytes \<or>
            length (drop headerSize bs) < unat len \<or>
            crc32_ChecksumIEEE payload \<noteq> Uint32 (take 4 (drop 4 bs)) then None
         else case json_Unmarshal c payload of
                Inl _ \<Rightarrow> None
              | Inr r \<Rightarrow> Some (r, headerSize + unat len))"

lemma replay_loop_next:
  "replay_loop c no_faults bs good records =
     (case next_frame c bs of
        None \<Rightarrow> Inr (records, good)
      | Some (r, n) \<Rightarrow> replay_loop c no_faults (drop n bs) (good + n) (records @ [r]))"
  by (subst replay_loop.simps)
    (auto simp: next_frame_def Let_def add.assoc add.commute [of headerSize] split: sum.splits)

lemma next_frame_bounds: "next_frame c bs = Some (r, n) \<Longrightarrow> 0 < n \<and> n \<le> length bs"
  by (auto simp: next_frame_def Let_def headerSize_def split: if_splits sum.splits)

lemma next_frame_prefix:
  assumes "next_frame c bs = Some (r, n)" and "take n bs' = take n bs" and "n \<le> length bs'"
  shows "next_frame c bs' = Some (r, n)"
proof -
  have n: "headerSize \<le> n" "n = headerSize + unat (Uint32 (take 4 bs))" "n \<le> length bs"
    using assms(1) next_frame_bounds [OF assms(1)]
    by (auto simp: next_frame_def Let_def split: if_splits sum.splits)
  have pre: "take k bs' = take k bs" if "k \<le> n" for k
  proof -
    have "take k (take n bs') = take k (take n bs)" by (simp only: assms(2))
    then show ?thesis using that by (simp add: min_absorb1)
  qed
  have "take 4 bs' = take 4 bs"
    using n(1) by (intro pre) (simp add: headerSize_def)
  moreover have "take 4 (drop 4 bs') = take 4 (drop 4 bs)"
    using n(1) by (simp add: take_drop pre headerSize_def)
  moreover have "take (n - headerSize) (drop headerSize bs') = take (n - headerSize) (drop headerSize bs)"
    using n(1) by (simp add: take_drop pre)
  ultimately show ?thesis
    using assms(1,3) n unfolding next_frame_def by (auto simp: Let_def split: if_splits)
qed

lemma replay_loop_induct [case_names stop frame]:
  assumes stop: "\<And>bs good records. next_frame c bs = None \<Longrightarrow> P bs good records"
    and frame: "\<And>bs good records r n. next_frame c bs = Some (r, n) \<Longrightarrow>
      P (drop n bs) (good + n) (records @ [r]) \<Longrightarrow> P bs good records"
  shows "P bs good records"
proof (induction bs arbitrary: good records rule: length_induct)
  case (1 bs)
  show ?case
  proof (cases "next_frame c bs")
    case (Some p)
    then obtain r n where p: "next_frame c bs = Some (r, n)" by (cases p) auto
    have "length (drop n bs) < length bs" using next_frame_bounds [OF p] by auto
    with "1" show ?thesis by (intro frame [OF p]) auto
  qed (rule stop)
qed

text \<open>A replay without faults always ends with records and an offset inside the file, and the bytes up
  to that offset are read again in the same way, whatever follows them.\<close>

lemma replay_loop_result:
  "\<exists>rs n. replay_loop c no_faults bs good records = Inr (records @ rs, good + n) \<and> n \<le> length bs \<and>
     (\<forall>ys good' records'. replay_loop c no_faults (take n bs @ ys) good' records' =
        replay_loop c no_faults ys (good' + n) (records' @ rs))"
proof (induction bs good records rule: replay_loop_induct [where c = c])
  case (stop bs good records)
  then show ?case by (intro exI [of _ "[]"] exI [of _ 0]) (simp add: replay_loop_next [of c bs])
next
  case (frame bs good records r n)
  then obtain rs m where ih: "replay_loop c no_faults (drop n bs) (good + n) (records @ [r]) =
      Inr ((records @ [r]) @ rs, good + n + m)" "m \<le> length (drop n bs)"
    "\<And>ys good' records'. replay_loop c no_faults (take m (drop n bs) @ ys) good' records' =
       replay_loop c no_faults ys (good' + m) (records' @ rs)" by blast
  have n: "0 < n" "n \<le> length bs" using next_frame_bounds [OF frame.hyps] by auto
  have split: "take (n + m) bs = take n bs @ take m (drop n bs)" by (rule take_add)
  have nf: "next_frame c (take (n + m) bs @ ys) = Some (r, n)" for ys
    using frame.hyps n by (rule_tac next_frame_prefix) (auto simp: take_add)
  have "replay_loop c no_faults (take (n + m) bs @ ys) good' records' =
      replay_loop c no_faults ys (good' + (n + m)) (records' @ r # rs)" for ys good' records'
    using n ih(3) [of ys "good' + n" "records' @ [r]"]
    by (subst replay_loop_next) (simp add: nf, simp add: split add.assoc)
  then show ?case
    using frame.hyps ih(1,2) n
    by (intro exI [of _ "r # rs"] exI [of _ "n + m"]) (simp add: replay_loop_next [of c bs] add.assoc)
qed

lemma replay_total: "\<exists>rs n. replay c no_faults bs = Inr (rs, n) \<and> n \<le> length bs"
  using replay_loop_result [of c bs 0 "[]"] by (auto simp: replay_def)

lemma intact_append:
  assumes "intact c bs rs"
  shows "replay_loop c no_faults (bs @ ys) 0 [] = replay_loop c no_faults ys (length bs) rs"
  using replay_loop_result [of c bs 0 "[]"] assms by (auto simp: intact_def)

lemma intact_truncate:
  assumes "replay_loop c no_faults bs 0 [] = Inr (rs, good)"
  shows "intact c (take good bs) rs"
proof -
  have "replay_loop c no_faults (take good bs @ []) 0 [] = replay_loop c no_faults [] good rs"
    "good \<le> length bs"
    using replay_loop_result [of c bs 0 "[]"] assms by (auto dest: spec [where x = "[]"])
  then show ?thesis by (simp add: intact_def replay_loop_short headerSize_def)
qed

lemma intact_Nil [simp]: "intact c [] rs \<longleftrightarrow> rs = []"
  by (auto simp: intact_def replay_loop_short headerSize_def)

lemma intact_unique: "intact c bs rs \<Longrightarrow> intact c bs rs' \<Longrightarrow> rs' = rs"
  by (simp add: intact_def)

text \<open>The text of replayed records is valid, as all decoded text is.\<close>

lemma replay_loop_text:
  "codec_ok c \<Longrightarrow> list_all record_text records \<Longrightarrow> replay_loop c no_faults bs good records = Inr (rs, n) \<Longrightarrow>
   list_all record_text rs"
proof (induction bs good records rule: replay_loop_induct [where c = c])
  case (stop bs good records)
  then show ?case by (simp add: replay_loop_next [of c bs])
next
  case (frame bs good records r m)
  then have "record_text r"
    by (auto simp: next_frame_def Let_def intro: codec_ok_text split: if_splits sum.splits)
  with frame show ?case by (simp add: replay_loop_next [of c bs])
qed

lemma intact_text: "codec_ok c \<Longrightarrow> intact c bs rs \<Longrightarrow> list_all record_text rs"
  unfolding intact_def by (rule replay_loop_text [of c "[]"]) simp_all

lemma intact_frame:
  assumes "codec_ok c" and "intact c bs rs" and "encode c r = Inr f" and "record_text r"
  shows "intact c (bs @ f) (rs @ [r])"
proof -
  have "frames c [r] = f" and "list_all (encodable c) [r]"
    using assms(3,4) by (auto simp: frames_single encodable_def)
  then have "replay_loop c no_faults f (length bs) rs = Inr (rs @ [r], length bs + length f)"
    using replay_loop_frames [OF assms(1), of "[r]" "[]" "length bs" rs]
    by (simp add: replay_loop_short headerSize_def)
  then show ?thesis by (simp add: intact_def intact_append [OF assms(2), unfolded intact_def])
qed

lemma intact_frames:
  assumes "codec_ok c" and "list_all (encodable c) rs"
  shows "intact c (frames c rs) rs"
  using replay_loop_frames [OF assms, of "[]" 0 "[]"]
  by (simp add: intact_def replay_loop_short headerSize_def)

section \<open>The log invariant\<close>

text \<open>An open handle on an intact journal, positioned at its end (or in append mode).\<close>

definition log_ok :: "wal_codec \<Rightarrow> wal_record list \<Rightarrow> Log \<times> disk \<Rightarrow> bool" where
  "log_ok c rs = (\<lambda>(l, d).
     \<exists>h bs. log_file l = Some h \<and> fh_open h \<and> fh_path h = log_path l \<and> d (log_path l) = Some bs \<and>
       (fh_append h \<or> fh_pos h = length bs) \<and> intact c bs rs)"

lemma write_at_end: "write_at (length bs) data bs = bs @ data"
  by (simp add: write_at_def)

lemma log_ok_intact: "log_ok c rs (l, d) \<Longrightarrow> intact c (contents_of d (log_path l)) rs"
  by (auto simp: log_ok_def contents_of_def)

text \<open>What a write through such a handle leaves on disk.\<close>

lemma file_Write_log_ok:
  assumes "log_ok c rs (l, d)" and "file_Write env data (log_file l) d = (res, fl, d')"
  obtains h bs out where
    "d (log_path l) = Some bs" "intact c bs rs" "d' = d(log_path l \<mapsto> bs @ out)"
    "fl = Some h" "fh_open h" "fh_path h = log_path l" "fh_append h \<or> fh_pos h = length (bs @ out)"
    "res = (case io_fault env SysWrite of None \<Rightarrow> Inr () | Some e \<Rightarrow> Inl e)"
    "out = (case io_fault env SysWrite of None \<Rightarrow> data | Some _ \<Rightarrow> take (io_written env) data)"
proof -
  from assms(1) obtain h bs where h: "log_file l = Some h" "fh_open h" "fh_path h = log_path l"
    "d (log_path l) = Some bs" "fh_append h \<or> fh_pos h = length bs" "intact c bs rs"
    by (auto simp: log_ok_def)
  have pos: "(if fh_append h then length bs else fh_pos h) = length bs" using h(5) by auto
  show thesis
    using assms(2) h that by (auto simp: file_Write_def contents_of_def Let_def pos write_at_end)
qed

lemma Append_ok:
  assumes "codec_ok c" and "log_ok c rs (l, d)" and "Append c env r (l, d) = (Inr (), l', d')" and "record_text r"
  shows "log_ok c (rs @ [r]) (l', d') \<and> log_path l' = log_path l \<and> log_sync l' = log_sync l"
proof -
  from assms(3) obtain f fl d1 where f: "encode c r = Inr f"
    and w: "file_Write env f (log_file l) d = (Inr (), fl, d1)"
    and l': "d' = d1" "log_file l' = fl" "log_path l' = log_path l" "log_sync l' = log_sync l"
    by (auto simp: Append_def split: sum.splits prod.splits option.splits if_splits)
  obtain h bs out where "intact c bs rs" "d1 = d(log_path l \<mapsto> bs @ out)" "fl = Some h" "fh_open h"
    "fh_path h = log_path l" "fh_append h \<or> fh_pos h = length (bs @ out)" "out = f"
    by (rule file_Write_log_ok [OF assms(2) w]) (auto split: option.splits)
  with intact_frame [OF assms(1) _ f assms(4)] l' show ?thesis by (auto simp: log_ok_def)
qed

text \<open>A failed append whose write moved no byte leaves the journal as it was, or, when only the sync
  failed, with the record in it.\<close>

lemma Append_failed:
  assumes "codec_ok c" and "log_ok c rs (l, d)" and "Append c env r (l, d) = (Inl e, l', d')"
    and "io_fault env SysWrite \<noteq> None \<longrightarrow> io_written env = 0" and "record_text r"
  shows "log_path l' = log_path l \<and> (log_ok c rs (l', d') \<or> log_ok c (rs @ [r]) (l', d'))"
proof (cases "encode c r")
  case (Inl e')
  with assms(2,3) show ?thesis by (auto simp: Append_def)
next
  case (Inr f)
  obtain res fl d1 where w: "file_Write env f (log_file l) d = (res, fl, d1)"
    by (cases "file_Write env f (log_file l) d") auto
  have l': "d' = d1" "log_file l' = fl" "log_path l' = log_path l"
    using assms(3) Inr w by (auto simp: Append_def split: sum.splits prod.splits option.splits if_splits)
  obtain h bs out where hb: "intact c bs rs" "d1 = d(log_path l \<mapsto> bs @ out)" "fl = Some h" "fh_open h"
    "fh_path h = log_path l" "fh_append h \<or> fh_pos h = length (bs @ out)"
    "out = (case io_fault env SysWrite of None \<Rightarrow> f | Some _ \<Rightarrow> take (io_written env) f)"
    by (rule file_Write_log_ok [OF assms(2) w])
  then have "out = [] \<or> out = f" using assms(4) by (auto split: option.splits)
  with hb l' intact_frame [OF assms(1) hb(1) Inr assms(5)] show ?thesis by (auto simp: log_ok_def)
qed

lemma OpenWith_ok:
  assumes "OpenWith c env path sync d = (Inr l, d')" and "io_fault env = no_faults"
  shows "log_ok c (Recovered l) (l, d') \<and> log_path l = path \<and> log_sync l = sync \<and>
         replay c no_faults (contents_of d path) = Inr (Recovered l, Size l) \<and>
         d' = d(path \<mapsto> take (Size l) (contents_of d path))"
proof -
  obtain rs n where r: "replay c no_faults (contents_of d path) = Inr (rs, n)" "n \<le> length (contents_of d path)"
    using replay_total by blast
  then have "intact c (take n (contents_of d path)) rs"
    by (intro intact_truncate) (simp add: replay_def)
  with r assms show ?thesis
    by (auto simp: OpenWith_def Let_def log_ok_def Recovered_def Size_def)
qed

lemma OpenWith_total:
  assumes "io_fault env = no_faults"
  shows "\<exists>l d'. OpenWith c env path sync d = (Inr l, d')"
proof -
  obtain rs n where "replay c no_faults (contents_of d path) = Inr (rs, n)"
    using replay_total by blast
  with assms show ?thesis by (simp add: OpenWith_def Let_def)
qed

section \<open>What the fold keeps\<close>

text \<open>The last record of a lease decides: a lease is open exactly when a fetch of it is followed by no
  record of that lease (of any of the five operations).\<close>

definition known_op :: "wal_op \<Rightarrow> bool" where
  "known_op op \<longleftrightarrow> op \<in> {OpFetch, OpAck, OpExpire, OpDeadLetter, OpStale}"

definition closes :: "wal_op \<Rightarrow> bool" where
  "closes op \<longleftrightarrow> op \<in> {OpAck, OpExpire, OpDeadLetter, OpStale}"

lemma live_step_get:
  "gm_get (live_step r m) l =
     (if wr_LeaseID r = l \<and> known_op (wr_Op r) then (if wr_Op r = OpFetch then Some r else None)
      else gm_get m l)"
  by (auto simp: live_step_def known_op_def gomap_simps wal_op_defs)

lemma Live_get_append:
  "list_all (\<lambda>r. \<not> (wr_LeaseID r = l \<and> known_op (wr_Op r))) ys \<Longrightarrow>
   gm_get (Live (xs @ ys)) l = gm_get (Live xs) l"
proof (induction ys rule: rev_induct)
  case (snoc y ys)
  then show ?case
    using live_step_get [of y "Live (xs @ ys)" l] by (auto simp: Live_snoc simp flip: append_assoc)
qed simp

lemma Live_open_iff:
  "gm_get (Live rs) l = Some r \<longleftrightarrow>
     (\<exists>xs ys. rs = xs @ r # ys \<and> wr_LeaseID r = l \<and> wr_Op r = OpFetch \<and>
        list_all (\<lambda>y. \<not> (wr_LeaseID y = l \<and> known_op (wr_Op y))) ys)"
    (is "_ \<longleftrightarrow> ?R rs")
proof
  assume "?R rs"
  then obtain xs ys where rs: "rs = (xs @ [r]) @ ys" and r: "wr_LeaseID r = l" "wr_Op r = OpFetch"
    and ys: "list_all (\<lambda>y. \<not> (wr_LeaseID y = l \<and> known_op (wr_Op y))) ys" by auto
  have "gm_get (Live (xs @ [r])) l = Some r"
    using r by (simp add: Live_snoc live_step_get known_op_def)
  then show "gm_get (Live rs) l = Some r"
    unfolding rs by (simp only: Live_get_append [OF ys])
next
  show "gm_get (Live rs) l = Some r \<Longrightarrow> ?R rs"
  proof (induction rs rule: rev_induct)
    case (snoc y rs)
    show ?case
    proof (cases "wr_LeaseID y = l \<and> known_op (wr_Op y)")
      case True
      with snoc.prems have "y = r" "wr_Op r = OpFetch"
        by (auto simp: Live_snoc live_step_get split: if_splits)
      with True show ?thesis by (intro exI [of _ rs] exI [of _ "[]"]) simp
    next
      case False
      with snoc.prems have "gm_get (Live rs) l = Some r" by (auto simp: Live_snoc live_step_get)
      with snoc.IH obtain xs ys where "rs = xs @ r # ys" "wr_LeaseID r = l" "wr_Op r = OpFetch"
        "list_all (\<lambda>y. \<not> (wr_LeaseID y = l \<and> known_op (wr_Op y))) ys" by blast
      with False show ?thesis by (intro exI [of _ xs] exI [of _ "ys @ [y]"]) simp
    qed
  qed simp
qed

text \<open>Rewriting the open leases one record each, in any order, folds to the same leases.\<close>

lemma Live_of_fetches:
  assumes "distinct ids" and "\<And>id. id \<in> set ids \<Longrightarrow> wr_LeaseID (f id) = id \<and> wr_Op (f id) = OpFetch"
  shows "gm_get (Live (map f ids)) = (\<lambda>l. if l \<in> set ids then Some (f l) else None)"
  using assms
proof (induction ids rule: rev_induct)
  case (snoc x ids)
  then show ?case by (auto simp: Live_get_snoc_fetch fun_eq_iff)
qed (simp add: fun_eq_iff)

section \<open>Compaction keeps the open leases\<close>

text \<open>Read errors other than an end of file make a replay fail; they never make it shorter.\<close>

definition honest_eof :: "io_env \<Rightarrow> bool" where
  "honest_eof env \<longleftrightarrow> (\<forall>s e. io_fault env s = Some e \<longrightarrow> \<not> is_eof e)"

lemma replay_loop_faults_cases:
  assumes "\<And>s e. flt s = Some e \<Longrightarrow> \<not> is_eof e"
    and "replay_loop c flt bs good records = Inr x"
  shows "next_frame c bs = None \<and> x = (records, good) \<or>
    (\<exists>r n. next_frame c bs = Some (r, n) \<and>
       replay_loop c flt (drop n bs) (good + n) (records @ [r]) = Inr x)"
  using assms(2)
  by (subst (asm) replay_loop.simps)
    (auto simp: next_frame_def Let_def add.assoc add.commute [of headerSize] dest: assms(1)
      split: option.splits if_splits sum.splits)

lemma replay_loop_faults:
  assumes "\<And>s e. flt s = Some e \<Longrightarrow> \<not> is_eof e"
  shows "replay_loop c flt bs good records = Inr x \<Longrightarrow> replay_loop c no_faults bs good records = Inr x"
proof (induction bs good records rule: replay_loop_induct [where c = c])
  case (stop bs good records)
  with replay_loop_faults_cases [OF assms stop.prems] show ?case
    by (simp add: replay_loop_next [of c bs])
next
  case (frame bs good records r n)
  with replay_loop_faults_cases [OF assms frame.prems] show ?case
    by (simp add: replay_loop_next [of c bs])
qed

lemma compact_write_frames:
  "compact_write c env i rs = Inr bs \<Longrightarrow> list_all record_text rs \<Longrightarrow> bs = frames c rs \<and> list_all (encodable c) rs"
  by (induction rs arbitrary: i bs) (auto simp: frames_def encodable_def split: sum.splits option.splits)

lemma compact_replay_ok:
  assumes "log_ok c rs (l0, d)" and "honest_eof env" and "compact_replay c env l0 d = (res, l)"
  shows "log_path l = log_path l0 \<and> (\<forall>records. res = Inr records \<longrightarrow> records = rs \<and> log_ok c rs (l, d))"
proof -
  from assms(1) obtain h bs where h: "log_file l0 = Some h" "fh_open h" "fh_path h = log_path l0"
    "d (log_path l0) = Some bs" "fh_append h \<or> fh_pos h = length bs" "intact c bs rs"
    by (auto simp: log_ok_def)
  have "x = (rs, length bs)" if "replay c (io_fault env) bs = Inr x" for x
    using that h(6) assms(2) replay_loop_faults [of "io_fault env" c bs 0 "[]" x]
    by (auto simp: replay_def intact_def honest_eof_def split: option.splits)
  with assms(3) h show ?thesis
    by (auto simp: compact_replay_def contents_of_def Let_def log_ok_def split: sum.splits)
qed

text \<open>The records a compaction writes: one fetch for each open lease, in the order of the lease ids.\<close>

definition compacted :: "wal_record list \<Rightarrow> wal_record list" where
  "compacted rs = map (\<lambda>id. the (gm_get (Live rs) id)) (sort (gm_keys (Live rs)))"

lemma compacted_order:
  assumes "range_order ord"
  shows "map (\<lambda>id. the (gm_get (Live rs) id)) (sort (ord (gm_keys (Live rs)))) = compacted rs"
proof -
  have "sort (ord (gm_keys (Live rs))) = sort (gm_keys (Live rs))"
    using assms by (intro properties_for_sort) (simp_all add: range_order_def)
  then show ?thesis by (simp only: compacted_def)
qed

lemma Live_compacted: "gm_get (Live (compacted rs)) = gm_get (Live rs)"
proof -
  let ?ids = "sort (gm_keys (Live rs))"
  have keys: "set ?ids = dom (gm_get (Live rs))" by (simp add: dom_map_of_conv_image_fst)
  have "distinct ?ids" using gm_ok_Live [of rs] by (simp add: gm_ok_def)
  then have "gm_get (Live (compacted rs)) = (\<lambda>l. if l \<in> set ?ids then Some (the (gm_get (Live rs) l)) else None)"
    unfolding compacted_def by (rule Live_of_fetches) (use keys Live_key in fastforce)
  then show ?thesis unfolding keys by (auto simp: fun_eq_iff dom_def)
qed

lemma compacted_text: "list_all record_text rs \<Longrightarrow> list_all record_text (compacted rs)"
  using Live_key [of rs] by (fastforce simp: list_all_iff compacted_def dom_map_of_conv_image_fst [symmetric])

lemma length_compacted: "length (compacted rs) = length (Live rs)"
  by (simp add: compacted_def)

lemma Compact_cases:
  assumes "codec_ok c" and "log_ok c rs (l0, d)" and "honest_eof env" and "range_order ord"
    and "Compact c env ord (l0, d) = (res, l', d')"
  shows "log_path l' = log_path l0 \<and>
    ((\<exists>e. res = Inl e) \<and> d' (log_path l0) = d (log_path l0) \<or>
     d' (log_path l0) = Some (frames c (compacted rs)) \<and> list_all (encodable c) (compacted rs) \<and>
     (res = Inr () \<longrightarrow>
        log_ok c (compacted rs) (l', d') \<and> Size l' = length (frames c (compacted rs))))"
proof -
  obtain cres l where cr: "compact_replay c env l0 d = (cres, l)" by fastforce
  note crd = compact_replay_ok [OF assms(2,3) cr]
  show ?thesis
  proof (cases cres)
    case (Inl e)
    with assms(5) cr crd show ?thesis by (auto simp: Compact_def)
  next
    case (Inr records)
    with crd have rs: "cres = Inr rs" "log_path l = log_path l0" by auto
    have inj: "log_path l0 @ ''.compact'' \<noteq> log_path l0" by simp
    have rt: "list_all record_text (compacted rs)"
      using assms(1,2) by (auto simp: log_ok_def intro: compacted_text intact_text)
    have fr: "bs = frames c (compacted rs) \<and> list_all (encodable c) (compacted rs)"
      if "compact_write c env 0 (compacted rs) = Inr bs" for bs
      using that rt by (rule compact_write_frames)
    have "intact c (frames c (compacted rs)) (compacted rs)" if "list_all (encodable c) (compacted rs)"
      using intact_frames [OF assms(1) that] .
    then show ?thesis
      using assms(5) cr rs inj fr
      by (auto simp: Compact_def Let_def compacted_order [OF assms(4)] close_live_def log_ok_def Size_def
          split: option.splits sum.splits)
  qed
qed

section \<open>The journal contract\<close>

text \<open>What the engine needs of its journal: \<open>records\<close> is what a restart would replay. A successful
  append adds the record, provided its text is valid; a failed one adds it or not, and nothing else.\<close>

locale journal_contract =
  fixes append :: "wal_record \<Rightarrow> 'j \<Rightarrow> (go_error + unit) \<times> 'j"
    and records :: "'j \<Rightarrow> wal_record list"
    and invar :: "'j \<Rightarrow> bool"
  assumes append_ok: "invar j \<Longrightarrow> record_text r \<Longrightarrow> append r j = (Inr (), j') \<Longrightarrow>
        invar j' \<and> records j' = records j @ [r]"
    and append_failed: "invar j \<Longrightarrow> record_text r \<Longrightarrow> append r j = (Inl e, j') \<Longrightarrow>
        invar j' \<and> (records j' = records j \<or> records j' = records j @ [r])"
    and records_text: "invar j \<Longrightarrow> list_all record_text (records j)"
begin

lemma append_records:
  "invar j \<Longrightarrow> record_text r \<Longrightarrow> append r j = (res, j') \<Longrightarrow>
   invar j' \<and> (records j' = records j \<or> records j' = records j @ [r])"
  using append_ok [of j r j'] append_failed [of j r _ j'] by (cases res) auto

end

text \<open>The journal of a queue: the open log, the disk, and the environments of the appends to come (none
  left means that nothing fails).\<close>

record wal_state =
  ws_log :: Log
  ws_disk :: disk
  ws_envs :: "io_env list"

definition wal_append :: "wal_codec \<Rightarrow> wal_record \<Rightarrow> wal_state \<Rightarrow> (go_error + unit) \<times> wal_state" where
  "wal_append c r ws =
     (let env = (case ws_envs ws of [] \<Rightarrow> io_ok | e # _ \<Rightarrow> e);
          (res, l', d') = Append c env r (ws_log ws, ws_disk ws)
      in (res, \<lparr>ws_log = l', ws_disk = d', ws_envs = tl (ws_envs ws)\<rparr>))"

definition wal_records :: "wal_codec \<Rightarrow> wal_state \<Rightarrow> wal_record list" where
  "wal_records c ws =
     (case replay c no_faults (contents_of (ws_disk ws) (log_path (ws_log ws))) of
        Inl _ \<Rightarrow> []
      | Inr (rs, _) \<Rightarrow> rs)"

text \<open>No environment tears a write: a failing write has moved no byte.\<close>

definition untorn :: "io_env \<Rightarrow> bool" where
  "untorn env \<longleftrightarrow> (io_fault env SysWrite \<noteq> None \<longrightarrow> io_written env = 0)"

definition wal_invar :: "wal_codec \<Rightarrow> wal_state \<Rightarrow> bool" where
  "wal_invar c ws \<longleftrightarrow> codec_ok c \<and> list_all untorn (ws_envs ws) \<and>
     (\<exists>rs. log_ok c rs (ws_log ws, ws_disk ws))"

lemma wal_records_log_ok: "log_ok c rs (ws_log ws, ws_disk ws) \<Longrightarrow> wal_records c ws = rs"
  using log_ok_intact [of c rs "ws_log ws" "ws_disk ws"]
  by (simp add: wal_records_def intact_def replay_def)

lemma untorn_io_ok: "untorn io_ok"
  by (simp add: untorn_def io_ok_def)

lemma wal_append_cases:
  assumes inv: "wal_invar c j" and rt: "record_text r" and app: "wal_append c r j = (res, j')"
  shows "wal_invar c j'"
    and "wal_records c j' = wal_records c j @ [r] \<or> res \<noteq> Inr () \<and> wal_records c j' = wal_records c j"
proof -
  define env where "env = (case ws_envs j of [] \<Rightarrow> io_ok | e # _ \<Rightarrow> e)"
  obtain rs where rs: "log_ok c rs (ws_log j, ws_disk j)" and c: "codec_ok c"
    using inv by (auto simp: wal_invar_def)
  have env: "untorn env" "list_all untorn (tl (ws_envs j))"
    using inv untorn_io_ok unfolding wal_invar_def env_def by (cases "ws_envs j"; simp)+
  have run: "Append c env r (ws_log j, ws_disk j) = (res, ws_log j', ws_disk j')"
    "ws_envs j' = tl (ws_envs j)"
    using app unfolding wal_append_def env_def [symmetric] Let_def
    by (cases "Append c env r (ws_log j, ws_disk j)"; auto)+
  have "log_ok c (rs @ [r]) (ws_log j', ws_disk j') \<or>
        res \<noteq> Inr () \<and> log_ok c rs (ws_log j', ws_disk j')"
  proof (cases res)
    case (Inl e)
    with Append_failed [OF c rs, of env r e] run env rt show ?thesis by (auto simp: untorn_def)
  next
    case (Inr u)
    with Append_ok [OF c rs, of env r] run rt show ?thesis by auto
  qed
  then obtain rs' where rs': "log_ok c rs' (ws_log j', ws_disk j')"
    and "rs' = rs @ [r] \<or> res \<noteq> Inr () \<and> rs' = rs" by blast
  then show "wal_records c j' = wal_records c j @ [r] \<or> res \<noteq> Inr () \<and> wal_records c j' = wal_records c j"
    by (simp add: wal_records_log_ok [OF rs] wal_records_log_ok [OF rs'])
  show "wal_invar c j'"
    using c env(2) run(2) rs' by (auto simp: wal_invar_def)
qed

interpretation wal: journal_contract "wal_append c" "wal_records c" "wal_invar c" for c
proof unfold_locales
  show "wal_invar c j \<Longrightarrow> record_text r \<Longrightarrow> wal_append c r j = (Inr (), j') \<Longrightarrow>
      wal_invar c j' \<and> wal_records c j' = wal_records c j @ [r]" for j r j'
    using wal_append_cases [of c j r "Inr ()" j'] by simp
  show "wal_invar c j \<Longrightarrow> record_text r \<Longrightarrow> wal_append c r j = (Inl e, j') \<Longrightarrow>
      wal_invar c j' \<and> (wal_records c j' = wal_records c j \<or> wal_records c j' = wal_records c j @ [r])"
    for j r e j'
    using wal_append_cases [of c j r "Inl e" j'] by auto
  show "wal_invar c j \<Longrightarrow> list_all record_text (wal_records c j)" for j
    using wal_records_log_ok [of c _ j] by (auto simp: wal_invar_def log_ok_def intro: intact_text)
qed

end
