(* ===== verification/Journal_Properties.thy ===== *)
theory Journal_Properties
  imports Wal_Log
begin

text \<open>
  The properties of the journal (\<open>internal/wal/wal.go\<close>). Those that need the payload encoding have it as
  the argument \<open>c\<close> with the hypothesis \<open>codec_ok c\<close>; the examples use the codec \<open>two_records\<close>, which
  knows two records.
\<close>

section \<open>An encoding for the examples\<close>

definition fetch_one :: wal_record where
  "fetch_one = \<lparr>wr_Op = OpFetch, wr_LeaseID = ''l1'',
     wr_Task = \<lparr>task_ID = ''t1'', task_Payload = Some ''p'', task_Attempts = 0\<rparr>,
     wr_CreatedAt = 0, wr_ExpiresAt = 1000\<rparr>"

definition ack_one :: wal_record where
  "ack_one = close_record OpAck ''l1''"

definition two_records :: wal_codec where
  "two_records =
     \<lparr>json_Marshal = (\<lambda>r. if r = fetch_one then Inr ''{fetch l1 t1 p 0 1000}'' else
                        if r = ack_one then Inr ''{ack}'' else Inl (ErrNew ''unsupported'')),
      json_Unmarshal = (\<lambda>p. if p = ''{fetch l1 t1 p 0 1000}'' then Inr fetch_one else
                          if p = ''{ack}'' then Inr ack_one else Inl (ErrNew ''invalid''))\<rparr>"

lemma fetch_not_ack: "fetch_one \<noteq> ack_one"
  by (simp add: fetch_one_def ack_one_def close_record_def OpFetch_def OpAck_def)

lemma example_text [simp]: "record_text fetch_one" "record_text ack_one"
proof -
  have "utf8_valid ''l1''" "utf8_valid ''t1''" by (rule utf8_valid_ascii; simp add: byte_in_def)+
  then show "record_text fetch_one" "record_text ack_one"
    by (simp_all add: ack_one_def record_text_close, simp add: record_text_def fetch_one_def)
qed

lemma two_records_ok: "codec_ok two_records"
  by (auto simp: codec_ok_def two_records_def split: if_splits)

lemma two_records_encode:
  "encode two_records fetch_one = Inr (frame_of ''{fetch l1 t1 p 0 1000}'')"
  "encode two_records ack_one = Inr (frame_of ''{ack}'')"
  using fetch_not_ack by (auto simp: encode_Inr two_records_def maxRecordBytes_def)

lemma two_records_encodable: "list_all (encodable two_records) [fetch_one, ack_one]"
  by (simp add: encodable_def two_records_encode)

section \<open>Frames\<close>

text \<open>Round trip: replaying the frames of any records reads exactly these records, to the last byte.\<close>

lemma wal_roundtrip:
  assumes "codec_ok c" and "list_all (encodable c) rs"
  shows "replay c no_faults (frames c rs) = Inr (rs, length (frames c rs))"
  using intact_frames [OF assms] by (simp add: replay_def intact_def)

text \<open>C21. A torn tail costs only the record that was being written: when a crash leaves any proper part of
  a frame behind intact records, the replay returns exactly the intact records and the offset of their
  end.\<close>

theorem wal_torn_tail:
  assumes "codec_ok c" and "list_all (encodable c) rs" and "encode c r = Inr f" and "k < length f"
  shows "replay c no_faults (frames c rs @ take k f) = Inr (rs, length (frames c rs))"
proof -
  obtain p where p: "f = frame_of p" "length p \<le> maxRecordBytes" using assms(3) by (auto simp: encode_Inr)
  have "replay_loop c no_faults (frames c rs @ take k f) 0 [] =
      replay_loop c no_faults (take k f) (length (frames c rs)) rs"
    by (rule intact_append [OF intact_frames [OF assms(1,2)]])
  with replay_loop_torn [of k p] assms(4) p show ?thesis by (simp add: replay_def)
qed

theorem wal_torn_tail_witness:
  "replay two_records no_faults (frames two_records [fetch_one] @ take 9 (frame_of ''{ack}'')) =
     Inr ([fetch_one], length (frames two_records [fetch_one]))"
  by (rule wal_torn_tail [OF two_records_ok _ two_records_encode(2)])
    (simp_all add: encodable_def two_records_encode headerSize_def)

text \<open>A checksum mismatch ends the replay: when the payload of a frame has been overwritten by one with
  another checksum, the records before it are returned and neither it nor anything after it is.\<close>

lemma wal_corrupt_frame:
  assumes "codec_ok c" and "list_all (encodable c) rs" and "json_Marshal c r = Inr p" and "length p \<le> maxRecordBytes"
    and "length p' = length p" and "crc32_ChecksumIEEE p' \<noteq> crc32_ChecksumIEEE p"
  shows "replay c no_faults (frames c rs @ take headerSize (frame_of p) @ p' @ bs) = Inr (rs, length (frames c rs))"
  unfolding replay_def using intact_append [OF intact_frames [OF assms(1,2)]] replay_loop_bad_checksum [OF assms(5,4,6)]
  by simp

text \<open>A codec with one-byte payloads, so that the checksums of the example are short computations.\<close>

definition one_byte :: wal_codec where
  "one_byte = \<lparr>json_Marshal = (\<lambda>r. if r = ack_one then Inr ''1'' else Inl (ErrNew ''unsupported'')),
     json_Unmarshal = (\<lambda>p. if p = ''1'' then Inr ack_one else Inl (ErrNew ''invalid''))\<rparr>"

lemma one_byte_ok: "codec_ok one_byte"
  by (auto simp: codec_ok_def one_byte_def split: if_splits)

text \<open>Bounds of a frame: a record is refused exactly when its payload cannot be encoded or exceeds
  8 MiB; otherwise the frame is the payload plus 8 bytes, and the 32-bit length field holds the
  payload's length without loss.\<close>

lemma wal_frame_bounds:
  "case json_Marshal c r of
     Inl err \<Rightarrow> encode c r = Inl (ErrWrap ''wal: encode record: '' err [])
   | Inr p \<Rightarrow>
       if length p > 8388608 then \<exists>err. encode c r = Inl err
       else \<exists>f. encode c r = Inr f \<and> length f = 8 + length p \<and> drop 8 f = p \<and>
         unat (Uint32 (take 4 f)) = length p \<and> Uint32 (take 4 (drop 4 f)) = crc32_ChecksumIEEE p"
proof (cases "json_Marshal c r")
  case (Inr p)
  have "unat (Uint32 (PutUint32 (of_nat (length p)))) = length p" if "length p \<le> 8388608"
    using that by (simp add: unat_of_nat_payload maxRecordBytes_def)
  then show ?thesis using Inr by (auto simp: encode_def maxRecordBytes_def)
qed (simp add: encode_def)

section \<open>The file\<close>




text \<open>An empty journal, opened.\<close>

definition empty_log :: Log where
  "empty_log = \<lparr>log_path = ''j'', log_file = Some \<lparr>fh_path = ''j'', fh_pos = 0, fh_append = False, fh_open = True\<rparr>,
     log_sync = True, log_offset = 0, log_recovered = []\<rparr>"

lemma empty_log_ok: "log_ok c [] (empty_log, [''j'' \<mapsto> []])"
  by (simp add: log_ok_def empty_log_def)


text \<open>C30. The open leases of a journal: \<open>Live\<close> keeps a record under a lease id exactly when it is a fetch
  of that lease which no later record of the lease follows, whatever other leases do in between.\<close>

theorem live_characterisation:
  "gm_get (Live rs) l = Some r \<longleftrightarrow>
     (\<exists>xs ys. rs = xs @ r # ys \<and> wr_LeaseID r = l \<and> wr_Op r = OpFetch \<and>
        list_all (\<lambda>y. \<not> (wr_LeaseID y = l \<and> known_op (wr_Op y))) ys)"
  by (rule Live_open_iff)

text \<open>C23. Compaction keeps the open leases whichever of its system calls fails: after it, the journal's
  path holds either its old bytes or one frame per open lease, and in both cases a replay folds to the
  same leases. When it reports success the log stays usable and its size is that of the compacted file.\<close>

theorem wal_compact_keeps_leases:
  assumes "codec_ok c" and "log_ok c rs (l, d)" and "honest_eof env" and "range_order ord"
    and "Compact c env ord (l, d) = (res, l', d')"
  shows "(\<exists>rs'. replay c no_faults (contents_of d' (log_path l)) = Inr (rs', length (contents_of d' (log_path l))) \<and>
       gm_get (Live rs') = gm_get (Live rs) \<and> (res = Inr () \<longrightarrow> length rs' = length (Live rs) \<and> log_ok c rs' (l', d'))) \<and>
    (res = Inr () \<longrightarrow> Size l' = length (contents_of d' (log_path l)))"
proof -
  note cs = Compact_cases [OF assms]
  have old: "replay c no_faults (contents_of d (log_path l)) = Inr (rs, length (contents_of d (log_path l)))"
    using log_ok_intact [OF assms(2)] by (simp add: replay_def intact_def)
  have new: "replay c no_faults (frames c (compacted rs)) = Inr (compacted rs, length (frames c (compacted rs)))"
    if "list_all (encodable c) (compacted rs)"
    using intact_frames [OF assms(1) that] by (simp add: replay_def intact_def)
  from cs consider (kept) err where "res = Inl err" "d' (log_path l) = d (log_path l)"
    | (rewritten) "d' (log_path l) = Some (frames c (compacted rs))" "list_all (encodable c) (compacted rs)"
        "res = Inr () \<longrightarrow> log_ok c (compacted rs) (l', d') \<and> Size l' = length (frames c (compacted rs))"
    by blast
  then show ?thesis
  proof cases
    case kept
    with old show ?thesis by (auto simp: contents_of_def)
  next
    case rewritten
    with new Live_compacted [of rs] length_compacted [of rs] show ?thesis by (auto simp: contents_of_def)
  qed
qed

text \<open>A journal with one open lease.\<close>

definition one_lease_log :: Log where
  "one_lease_log = empty_log\<lparr>log_file := Some \<lparr>fh_path = ''j'', fh_pos = length (frames two_records [fetch_one]),
     fh_append = False, fh_open = True\<rparr>\<rparr>"

lemma one_lease_log_ok: "log_ok two_records [fetch_one] (one_lease_log, [''j'' \<mapsto> frames two_records [fetch_one]])"
  using intact_frames [OF two_records_ok, of "[fetch_one]"]
  by (simp add: log_ok_def one_lease_log_def empty_log_def encodable_def two_records_encode)

theorem wal_compact_keeps_leases_witness:
  "\<exists>l' d' rs'. Compact two_records io_ok (\<lambda>ks. ks) (one_lease_log, [''j'' \<mapsto> frames two_records [fetch_one]]) = (Inr (), l', d') \<and>
     replay two_records no_faults (contents_of d' ''j'') = Inr (rs', length (contents_of d' ''j'')) \<and>
     gm_get (Live rs') ''l1'' = Some fetch_one"
proof -
  let ?ld = "(one_lease_log, [''j'' \<mapsto> frames two_records [fetch_one]])"
  have live: "Live [fetch_one] = [(''l1'', fetch_one)]"
    by (simp add: Live_def live_step_def fetch_one_def)
  have honest: "honest_eof io_ok" by (simp add: honest_eof_def io_ok_def)
  have "replay two_records no_faults (frames two_records [fetch_one]) =
      Inr ([fetch_one], length (frames two_records [fetch_one]))"
    using intact_frames [OF two_records_ok, of "[fetch_one]"]
    by (simp add: intact_def replay_def encodable_def two_records_encode)
  then have "\<exists>l' d'. Compact two_records io_ok (\<lambda>ks. ks) ?ld = (Inr (), l', d')"
    by (simp add: Compact_def compact_replay_def one_lease_log_def empty_log_def contents_of_def io_ok_def Let_def
        live two_records_encode)
  then obtain l' d' where run: "Compact two_records io_ok (\<lambda>ks. ks) ?ld = (Inr (), l', d')" by blast
  from wal_compact_keeps_leases [OF two_records_ok one_lease_log_ok honest range_order_id run]
  obtain rs' where "replay two_records no_faults (contents_of d' ''j'') = Inr (rs', length (contents_of d' ''j''))"
    "gm_get (Live rs') = gm_get (Live [fetch_one])"
    by (auto simp: one_lease_log_def empty_log_def)
  with run live show ?thesis by auto
qed

section \<open>A write that fails part way\<close>

text \<open>The loop stops at a frame whose length field asks for more bytes than follow.\<close>

lemma replay_loop_overlong:
  assumes "headerSize \<le> k" and "k \<le> length (frame_of p)" and "length p \<le> maxRecordBytes"
    and "k - headerSize + length bs < length p"
  shows "replay_loop c no_faults (take k (frame_of p) @ bs) good records = Inr (records, good)"
proof -
  have "take k (frame_of p) @ bs =
      PutUint32 (of_nat (length p)) @ PutUint32 (crc32_ChecksumIEEE p) @ take (k - 8) p @ bs"
    using assms(1) by (simp add: frame_of_def headerSize_def)
  moreover have "length (take (k - 8) p @ bs) < unat (of_nat (length p) :: u32)"
    using assms by (simp add: unat_of_nat_payload headerSize_def)
  ultimately show ?thesis by (subst replay_loop.simps) (simp add: headerSize_def Let_def)
qed


text \<open>Disk full after nine bytes of the fetch record; the acknowledgement that follows is written.\<close>

definition disk_full :: io_env where
  "disk_full = \<lparr>io_fault = (\<lambda>s. if s = SysWrite then Some (ErrNew ''no space left on device'') else None),
     io_written = 9, io_readahead = 0\<rparr>"


end
