(* ===== verification/Lease_Engine.thy ===== *)
theory Lease_Engine
  imports Memory_Queue Expiration_Heap Wal_Log
begin

text \<open>
  \<open>internal/core/engine.go\<close>: the engine that coordinates leases for one queue. The engine is a record
  with the fields of the struct \<open>Engine\<close> but its mutex: every exported method holds it from start to
  end, so a method is one step. The backend is a method table \<open>ops\<close> over a state \<open>'b\<close>; the journal is an
  append function \<open>app\<close> over a state \<open>'j\<close>, absent when the field is nil.

  What a method reads from its environment is an argument: the fresh id \<open>uuid.NewString\<close> returns, the
  reading \<open>now\<close> of \<open>time.Now\<close>, the readings \<open>wall\<close> of the clock by the backend while it dead-letters the
  task of a lease, and the orders \<open>ord 0\<close>, \<open>ord 1\<close>, \<open>ord 2\<close> of the three map iterations of \<open>restore\<close>.
\<close>

record lease =
  lease_LeaseID :: string
  lease_Task :: task
  lease_ExpiresAt :: instant
  lease_CreatedAt :: instant

record core_stats =
  cs_Ready :: nat
  cs_Processing :: nat
  cs_Dead :: nat
  cs_ActiveLeases :: nat
  cs_ExpirationHeap :: nat

record EngineConfig =
  cfg_MaxAttempts :: i64
  cfg_RequeueRetryDelay :: duration

record ('b, 'j) Engine =
  en_ready :: 'b
  en_leases :: "(string, lease) gomap"
  en_expirations :: expirationHeap
  en_config :: EngineConfig
  en_journal :: "'j option"
  en_recoveryErr :: "go_error option"

type_synonym 'j appender = "wal_record \<Rightarrow> 'j \<Rightarrow> (go_error + unit) \<times> 'j"

section \<open>Copies\<close>

definition core_cloneBytes :: "bytes option \<Rightarrow> bytes option" where
  "core_cloneBytes payload =
     (case payload of
        None \<Rightarrow> None
      | Some p \<Rightarrow> Some (go_copy (replicate (length p) (char_of (0::nat))) p))"

definition core_cloneTask :: "task \<Rightarrow> task" where
  "core_cloneTask t =
     \<lparr>task_ID = task_ID t, task_Payload = core_cloneBytes (task_Payload t),
      task_Attempts = task_Attempts t\<rparr>"

definition cloneLease :: "lease \<Rightarrow> lease" where
  "cloneLease l =
     \<lparr>lease_LeaseID = lease_LeaseID l, lease_Task = core_cloneTask (lease_Task l),
      lease_ExpiresAt = lease_ExpiresAt l, lease_CreatedAt = lease_CreatedAt l\<rparr>"

lemma core_cloneBytes_eq [simp]: "core_cloneBytes p = p"
  by (cases p) (simp_all add: core_cloneBytes_def go_copy_same_length)

lemma core_cloneTask_eq [simp]: "core_cloneTask t = t"
  by (simp add: core_cloneTask_def)

lemma cloneLease_eq [simp]: "cloneLease l = l"
  by (simp add: cloneLease_def)

section \<open>Construction and recovery\<close>

definition requeueRetryDelay :: duration where
  "requeueRetryDelay = 1000000000"

definition ensureRecovered :: "('b, 'j) Engine \<Rightarrow> go_error option" where
  "ensureRecovered e = en_recoveryErr e"

definition engine_record ::
  "'j appender \<Rightarrow> wal_record \<Rightarrow> ('b, 'j) Engine \<Rightarrow> (go_error + unit) \<times> ('b, 'j) Engine" where
  "engine_record app entry e =
     (case en_journal e of
        None \<Rightarrow> (Inr (), e)
      | Some j \<Rightarrow> (case app entry j of (res, j') \<Rightarrow> (res, e\<lparr>en_journal := Some j'\<rparr>)))"

definition install_lease :: "lease \<Rightarrow> ('b, 'j) Engine \<Rightarrow> ('b, 'j) Engine" where
  "install_lease l e =
     e\<lparr>en_leases := gm_put (lease_LeaseID l) l (en_leases e),
       en_expirations :=
         heap_Push \<lparr>ei_LeaseID = lease_LeaseID l, ei_ExpiresAt = lease_ExpiresAt l\<rparr> (en_expirations e)\<rparr>"

definition is_matched :: "recovery_result \<Rightarrow> string \<Rightarrow> bool" where
  "is_matched result leaseID \<longleftrightarrow> gm_get (rr_MatchedLeaseIDs result) leaseID \<noteq> None"

text \<open>The second loop of \<open>restore\<close> journals a stale record for each unmatched lease and stops at the
  first record that cannot be written; the third reinstates the matched leases.\<close>

fun restore_stale ::
  "'j appender \<Rightarrow> recovery_result \<Rightarrow> string list \<Rightarrow> ('b, 'j) Engine \<Rightarrow> (go_error + unit) \<times> ('b, 'j) Engine" where
  "restore_stale app result [] e = (Inr (), e)"
| "restore_stale app result (leaseID # ls) e =
     (if is_matched result leaseID then restore_stale app result ls e
      else case engine_record app (close_record OpStale leaseID) e of
             (Inl err, e') \<Rightarrow> (Inl err, e')
           | (Inr _, e') \<Rightarrow> restore_stale app result ls e')"

fun restore_leases ::
  "recovery_result \<Rightarrow> (string, wal_record) gomap \<Rightarrow> string list \<Rightarrow> ('b, 'j) Engine \<Rightarrow> ('b, 'j) Engine" where
  "restore_leases result live [] e = e"
| "restore_leases result live (leaseID # ls) e =
     (if \<not> is_matched result leaseID then restore_leases result live ls e
      else case gm_get live leaseID of
             None \<Rightarrow> restore_leases result live ls e
           | Some r \<Rightarrow>
               restore_leases result live ls
                 (install_lease
                   \<lparr>lease_LeaseID = wr_LeaseID r, lease_Task = core_cloneTask (wr_Task r),
                    lease_ExpiresAt = wr_ExpiresAt r, lease_CreatedAt = wr_CreatedAt r\<rparr> e))"

definition active_fences :: "(string, wal_record) gomap \<Rightarrow> string list \<Rightarrow> lease_fence list" where
  "active_fences live ids =
     List.map_filter
       (\<lambda>id. map_option (\<lambda>r. \<lparr>fence_TaskID = task_ID (wr_Task r), fence_LeaseID = wr_LeaseID r\<rparr>)
               (gm_get live id)) ids"

definition restore ::
  "'b backend_ops \<Rightarrow> 'j appender \<Rightarrow> (nat \<Rightarrow> string list \<Rightarrow> string list) \<Rightarrow> wal_record list \<Rightarrow>
   ('b, 'j) Engine \<Rightarrow> ('b, 'j) Engine" where
  "restore ops app ord records e =
     (let live = Live records;
          activeLeases = active_fences live (ord 0 (gm_keys live))
      in case be_RecoverOrphanedProcessing ops activeLeases (en_ready e) of
           (Inl err, b) \<Rightarrow>
             e\<lparr>en_ready := b, en_recoveryErr := Some (ErrJoin [ErrRecoveryIncomplete, err])\<rparr>
         | (Inr result, b) \<Rightarrow>
             (case restore_stale app result (ord 1 (gm_keys live)) (e\<lparr>en_ready := b\<rparr>) of
                (Inl err, e') \<Rightarrow> e'\<lparr>en_recoveryErr := Some (ErrJoin [ErrRecoveryIncomplete, err])\<rparr>
              | (Inr _, e') \<Rightarrow> restore_leases result live (ord 2 (gm_keys live)) e'))"

definition newEngine ::
  "'b backend_ops \<Rightarrow> 'j appender \<Rightarrow> (nat \<Rightarrow> string list \<Rightarrow> string list) \<Rightarrow>
   EngineConfig \<Rightarrow> 'j option \<Rightarrow> wal_record list \<Rightarrow> 'b \<Rightarrow> ('b, 'j) Engine" where
  "newEngine ops app ord config journal recovered backend =
     (let expirations = heap_Init [];
          config' = (if sint (cfg_RequeueRetryDelay config) \<le> 0
                     then config\<lparr>cfg_RequeueRetryDelay := requeueRetryDelay\<rparr> else config)
      in restore ops app ord recovered
           \<lparr>en_ready = backend, en_leases = [], en_expirations = expirations, en_config = config',
            en_journal = journal, en_recoveryErr = None\<rparr>)"

text \<open>The exported constructors. \<open>EngineConfig{}\<close> has no journal and nothing to recover.\<close>

definition NewEngineWithBackendAndConfig ::
  "'b backend_ops \<Rightarrow> 'j appender \<Rightarrow> (nat \<Rightarrow> string list \<Rightarrow> string list) \<Rightarrow>
   EngineConfig \<Rightarrow> 'j option \<Rightarrow> wal_record list \<Rightarrow> 'b \<Rightarrow> ('b, 'j) Engine" where
  "NewEngineWithBackendAndConfig ops app ord config journal recovered backend =
     newEngine ops app ord config journal recovered backend"

definition NewEngineWithBackend ::
  "'b backend_ops \<Rightarrow> 'j appender \<Rightarrow> (nat \<Rightarrow> string list \<Rightarrow> string list) \<Rightarrow> 'b \<Rightarrow> ('b, 'j) Engine" where
  "NewEngineWithBackend ops app ord backend =
     newEngine ops app ord \<lparr>cfg_MaxAttempts = 0, cfg_RequeueRetryDelay = 0\<rparr> None [] backend"

definition NewEngine ::
  "'j appender \<Rightarrow> (string list \<Rightarrow> string list) \<Rightarrow> (nat \<Rightarrow> string list \<Rightarrow> string list) \<Rightarrow> (MemoryQueue, 'j) Engine" where
  "NewEngine app mord ord = NewEngineWithBackend (memory_ops mord) app ord NewMemoryQueue"

section \<open>Enqueue, Fetch, Ack\<close>

definition engine_Enqueue ::
  "'b backend_ops \<Rightarrow> string \<Rightarrow> bytes option \<Rightarrow> ('b, 'j) Engine \<Rightarrow> (go_error + task) \<times> ('b, 'j) Engine" where
  "engine_Enqueue ops uuid payload e =
     (case ensureRecovered e of
        Some err \<Rightarrow> (Inl err, e)
      | None \<Rightarrow>
          let t = \<lparr>task_ID = uuid, task_Payload = core_cloneBytes payload, task_Attempts = 0\<rparr>
          in (case be_Enqueue ops t (en_ready e) of
                (Inl err, b) \<Rightarrow> (Inl err, e\<lparr>en_ready := b\<rparr>)
              | (Inr _, b) \<Rightarrow> (Inr (core_cloneTask t), e\<lparr>en_ready := b\<rparr>)))"

definition fetch_record :: "lease \<Rightarrow> wal_record" where
  "fetch_record l =
     \<lparr>wr_Op = OpFetch, wr_LeaseID = lease_LeaseID l, wr_Task = lease_Task l,
      wr_CreatedAt = lease_CreatedAt l, wr_ExpiresAt = lease_ExpiresAt l\<rparr>"

definition engine_Fetch ::
  "'b backend_ops \<Rightarrow> 'j appender \<Rightarrow> string \<Rightarrow> instant \<Rightarrow> duration \<Rightarrow> ('b, 'j) Engine \<Rightarrow>
   (go_error + lease) \<times> ('b, 'j) Engine" where
  "engine_Fetch ops app uuid now timeout e =
     (if sint timeout \<le> 0 then (Inl ErrInvalidTimeout, e)
      else case ensureRecovered e of
        Some err \<Rightarrow> (Inl err, e)
      | None \<Rightarrow>
          (case be_Acquire ops uuid (en_ready e) of
             (Inl err, b) \<Rightarrow>
               (Inl (if errors_is err ErrQueueEmpty then ErrQueueEmpty else err), e\<lparr>en_ready := b\<rparr>)
           | (Inr t, b) \<Rightarrow>
               let l = \<lparr>lease_LeaseID = uuid, lease_Task = t, lease_ExpiresAt = now + sint timeout,
                        lease_CreatedAt = now\<rparr>
               in (case engine_record app (fetch_record l) (e\<lparr>en_ready := b\<rparr>) of
                     (Inl err, e') \<Rightarrow>
                       (case be_Requeue ops (task_ID t) uuid (en_ready e') of
                          (Inl requeueErr, b') \<Rightarrow>
                            (Inl (ErrJoin [err, requeueErr]), e'\<lparr>en_ready := b'\<rparr>)
                        | (Inr _, b') \<Rightarrow> (Inl err, e'\<lparr>en_ready := b'\<rparr>))
                   | (Inr _, e') \<Rightarrow> (Inr (cloneLease l), install_lease l e'))))"

definition delete_lease :: "string \<Rightarrow> ('b, 'j) Engine \<Rightarrow> ('b, 'j) Engine" where
  "delete_lease leaseID e = e\<lparr>en_leases := gm_del leaseID (en_leases e)\<rparr>"

definition engine_Ack ::
  "'b backend_ops \<Rightarrow> 'j appender \<Rightarrow> string \<Rightarrow> ('b, 'j) Engine \<Rightarrow> (go_error + unit) \<times> ('b, 'j) Engine" where
  "engine_Ack ops app leaseID e =
     (case ensureRecovered e of
        Some err \<Rightarrow> (Inl err, e)
      | None \<Rightarrow>
          (case gm_get (en_leases e) leaseID of
             None \<Rightarrow> (Inl ErrLeaseNotFound, e)
           | Some l \<Rightarrow>
               (case be_Complete ops (task_ID (lease_Task l)) (lease_LeaseID l) (en_ready e) of
                  (Inl err, b) \<Rightarrow>
                    if isStaleLeaseError err
                    then (case engine_record app (close_record OpStale leaseID) (e\<lparr>en_ready := b\<rparr>) of
                            (Inl staleErr, e') \<Rightarrow> (Inl staleErr, e')
                          | (Inr _, e') \<Rightarrow> (Inl ErrLeaseNotFound, delete_lease leaseID e'))
                    else (Inl err, e\<lparr>en_ready := b\<rparr>)
                | (Inr _, b) \<Rightarrow>
                    (case engine_record app (close_record OpAck leaseID) (e\<lparr>en_ready := b\<rparr>) of
                       (Inl err, e') \<Rightarrow> (Inl err, e')
                     | (Inr _, e') \<Rightarrow> (Inr (), delete_lease leaseID e')))))"

section \<open>Expiration\<close>

text \<open>The comparison adds one to a 64-bit counter: it wraps at the largest value.\<close>

definition shouldDeadLetter :: "EngineConfig \<Rightarrow> lease \<Rightarrow> bool" where
  "shouldDeadLetter config l \<longleftrightarrow>
     0 < sint (cfg_MaxAttempts config) \<and>
     sint (cfg_MaxAttempts config) \<le> sint (task_Attempts (lease_Task l) + 1)"

definition expireLease ::
  "'b backend_ops \<Rightarrow> 'j appender \<Rightarrow> (string \<Rightarrow> instant) \<Rightarrow> lease \<Rightarrow> ('b, 'j) Engine \<Rightarrow>
   (go_error + unit) \<times> ('b, 'j) Engine" where
  "expireLease ops app wall l e =
     (let dead = shouldDeadLetter (en_config e) l;
          op = (if dead then OpDeadLetter else OpExpire);
          (res, b) =
            (if dead
             then be_DeadLetter ops (task_ID (lease_Task l)) (lease_LeaseID l) ''max attempts exceeded''
                    (wall (lease_LeaseID l)) (en_ready e)
             else be_Requeue ops (task_ID (lease_Task l)) (lease_LeaseID l) (en_ready e));
          e' = e\<lparr>en_ready := b\<rparr>
      in (case res of
            Inl err \<Rightarrow>
              if isStaleLeaseError err
              then engine_record app (close_record OpStale (lease_LeaseID l)) e'
              else (Inl err, e')
          | Inr _ \<Rightarrow> engine_record app (close_record op (lease_LeaseID l)) e'))"

lemma engine_record_frame [simp]:
  "en_ready (snd (engine_record app r e)) = en_ready e"
  "en_leases (snd (engine_record app r e)) = en_leases e"
  "en_expirations (snd (engine_record app r e)) = en_expirations e"
  "en_config (snd (engine_record app r e)) = en_config e"
  "en_recoveryErr (snd (engine_record app r e)) = en_recoveryErr e"
  by (simp_all add: engine_record_def split: option.splits prod.splits)

lemma expireLease_frame:
  assumes "expireLease ops app wall l e = (res, e')"
  shows "en_leases e' = en_leases e" and "en_expirations e' = en_expirations e"
    and "en_config e' = en_config e" and "en_recoveryErr e' = en_recoveryErr e"
proof -
  have "e' = snd (expireLease ops app wall l e)" by (simp add: assms)
  then show "en_leases e' = en_leases e" and "en_expirations e' = en_expirations e"
    and "en_config e' = en_config e" and "en_recoveryErr e' = en_recoveryErr e"
    by (auto simp: expireLease_def Let_def split: sum.splits prod.splits if_splits)
qed

text \<open>The loop of \<open>ReapExpired\<close>. Every turn pops one heap item; only the turn that returns an error
  pushes one back.\<close>

function reap_loop ::
  "'b backend_ops \<Rightarrow> 'j appender \<Rightarrow> (string \<Rightarrow> instant) \<Rightarrow> instant \<Rightarrow> nat \<Rightarrow> ('b, 'j) Engine \<Rightarrow>
   (nat \<times> go_error option) \<times> ('b, 'j) Engine" where
  "reap_loop ops app wall now requeued e =
     (case eh_peek (en_expirations e) of
        None \<Rightarrow> ((requeued, None), e)
      | Some item \<Rightarrow>
          if now < ei_ExpiresAt item then ((requeued, None), e)
          else
            (case heap_Pop (en_expirations e) of
               None \<Rightarrow> ((requeued, None), e)
             | Some (_, h) \<Rightarrow>
                 let e1 = e\<lparr>en_expirations := h\<rparr>
                 in (case gm_get (en_leases e1) (ei_LeaseID item) of
                       None \<Rightarrow> reap_loop ops app wall now requeued e1
                     | Some l \<Rightarrow>
                         if now < lease_ExpiresAt l then reap_loop ops app wall now requeued e1
                         else
                           (case expireLease ops app wall l e1 of
                              (Inl err, e2) \<Rightarrow>
                                ((requeued, Some err),
                                 e2\<lparr>en_expirations := heap_Push
                                      \<lparr>ei_LeaseID = ei_LeaseID item,
                                       ei_ExpiresAt = now + sint (cfg_RequeueRetryDelay (en_config e2))\<rparr>
                                      (en_expirations e2)\<rparr>)
                            | (Inr _, e2) \<Rightarrow>
                                reap_loop ops app wall now (requeued + 1)
                                  (delete_lease (ei_LeaseID item) e2)))))"
  by pat_completeness auto
termination
  by (relation "measure (\<lambda>(ops, app, wall, now, requeued, e). length (en_expirations e))")
    (auto dest!: heap_Pop_length expireLease_frame(2) [OF sym] simp: delete_lease_def)

declare reap_loop.simps [simp del]

definition engine_ReapExpired ::
  "'b backend_ops \<Rightarrow> 'j appender \<Rightarrow> (string \<Rightarrow> instant) \<Rightarrow> instant \<Rightarrow> ('b, 'j) Engine \<Rightarrow>
   (nat \<times> go_error option) \<times> ('b, 'j) Engine" where
  "engine_ReapExpired ops app wall now e =
     (case ensureRecovered e of
        Some err \<Rightarrow> ((0, Some err), e)
      | None \<Rightarrow> reap_loop ops app wall now 0 e)"

definition engine_Stats :: "'b backend_ops \<Rightarrow> ('b, 'j) Engine \<Rightarrow> core_stats" where
  "engine_Stats ops e =
     (let queueStats = be_Stats ops (en_ready e)
      in \<lparr>cs_Ready = qs_Ready queueStats, cs_Processing = qs_Processing queueStats,
          cs_Dead = qs_Dead queueStats, cs_ActiveLeases = length (en_leases e),
          cs_ExpirationHeap = eh_Len (en_expirations e)\<rparr>)"

end
