(* ===== verification/Engine_Invariant.thy ===== *)
theory Engine_Invariant
  imports Lease_Engine
begin

text \<open>
  The invariant of the engine and that every method keeps it. The bookkeeping part (\<open>leases_ok\<close>) holds
  over any backend; the rest, that every task in processing storage is held by a lease of the map and
  that this lease is durable in the journal, holds over a backend and a journal that keep their
  contracts (locale \<open>engine_contracts\<close>, interpreted in \<open>Engine_Runs\<close> for the in-memory queue and in
  \<open>Redis_Store\<close> for the Redis backend, each with the file journal).
\<close>

section \<open>The invariant\<close>

text \<open>Lease map and heap agree: keys are lease ids, every lease has a heap item, and no heap item of a
  lease comes due before the lease does.\<close>

definition leases_ok :: "('b, 'j) Engine \<Rightarrow> bool" where
  "leases_ok e \<longleftrightarrow>
     gm_ok (en_leases e) \<and>
     (\<forall>l le. gm_get (en_leases e) l = Some le \<longrightarrow> lease_LeaseID le = l) \<and>
     heap_ok (en_expirations e) \<and>
     dom (gm_get (en_leases e)) \<subseteq> ei_LeaseID ` set (en_expirations e) \<and>
     (\<forall>it \<in> set (en_expirations e). \<forall>le. gm_get (en_leases e) (ei_LeaseID it) = Some le \<longrightarrow>
        lease_ExpiresAt le \<le> ei_ExpiresAt it) \<and>
     0 < sint (cfg_RequeueRetryDelay (en_config e))"

text \<open>Every processing entry is fenced by a lease of the map, and that lease holds this very task.\<close>

definition covers :: "(string, lease) gomap \<Rightarrow> aqueue \<Rightarrow> bool" where
  "covers leases q \<longleftrightarrow>
     (\<forall>tid t l. aq_proc q tid = Some (t, l) \<longrightarrow>
        (\<exists>le. gm_get leases l = Some le \<and> task_ID (lease_Task le) = tid))"

text \<open>Every processing entry's lease would be replayed from the journal exactly as it is.\<close>

definition journalled :: "wal_record list \<Rightarrow> (string, lease) gomap \<Rightarrow> aqueue \<Rightarrow> bool" where
  "journalled rs leases q \<longleftrightarrow>
     (\<forall>tid t l le. aq_proc q tid = Some (t, l) \<longrightarrow> gm_get leases l = Some le \<longrightarrow>
        gm_get (Live rs) l = Some (fetch_record le) \<and> task_ID (lease_Task le) = tid)"

text \<open>The ids of all leases and of all tasks in storage are valid text, so that their records survive the
  journal's encoding.\<close>

definition texts_ok :: "(string, lease) gomap \<Rightarrow> aqueue \<Rightarrow> bool" where
  "texts_ok leases q \<longleftrightarrow>
     (\<forall>l le. gm_get leases l = Some le \<longrightarrow> utf8_valid l) \<and> (\<forall>x \<in># task_ids q. utf8_valid x)"

definition store_inv ::
  "('b \<Rightarrow> aqueue) \<Rightarrow> ('b \<Rightarrow> bool) \<Rightarrow> ('j \<Rightarrow> wal_record list) \<Rightarrow> ('j \<Rightarrow> bool) \<Rightarrow> ('b, 'j) Engine \<Rightarrow> bool" where
  "store_inv absq b_inv records j_inv e \<longleftrightarrow>
     b_inv (en_ready e) \<and> covers (en_leases e) (absq (en_ready e)) \<and>
     texts_ok (en_leases e) (absq (en_ready e)) \<and>
     (\<forall>j. en_journal e = Some j \<longrightarrow>
        j_inv j \<and> journalled (records j) (en_leases e) (absq (en_ready e)))"

definition engine_inv ::
  "('b \<Rightarrow> aqueue) \<Rightarrow> ('b \<Rightarrow> bool) \<Rightarrow> ('j \<Rightarrow> wal_record list) \<Rightarrow> ('j \<Rightarrow> bool) \<Rightarrow> ('b, 'j) Engine \<Rightarrow> bool" where
  "engine_inv absq b_inv records j_inv e \<longleftrightarrow> leases_ok e \<and> store_inv absq b_inv records j_inv e"

text \<open>No processing entry is fenced by the lease.\<close>

definition unfenced :: "string \<Rightarrow> aqueue \<Rightarrow> bool" where
  "unfenced l q \<longleftrightarrow> (\<forall>tid t l'. aq_proc q tid = Some (t, l') \<longrightarrow> l' \<noteq> l)"

section \<open>Lease map and heap\<close>

lemma leases_ok_cong:
  "leases_ok e \<Longrightarrow> en_leases e' = en_leases e \<Longrightarrow> en_expirations e' = en_expirations e \<Longrightarrow>
   en_config e' = en_config e \<Longrightarrow> leases_ok e'"
  by (simp add: leases_ok_def)

lemma leases_ok_ready [simp]: "leases_ok (e\<lparr>en_ready := b\<rparr>) = leases_ok e"
  by (simp add: leases_ok_def)

lemma leases_ok_record [simp]: "leases_ok (snd (engine_record app r e)) = leases_ok e"
  by (simp add: leases_ok_def)

lemma leases_ok_delete: "leases_ok e \<Longrightarrow> leases_ok (delete_lease l e)"
  by (auto simp: leases_ok_def delete_lease_def gomap_simps)

lemma set_heap_Push [simp]: "set (heap_Push x h) = insert x (set h)"
  by (metis heap_Push_mset set_mset_add_mset_insert set_mset_mset)

lemma set_heap_Pop: "heap_Pop h = Some (x, h') \<Longrightarrow> set h = insert x (set h')"
  by (metis heap_Pop_Some(3) set_mset_add_mset_insert set_mset_mset)

lemma leases_ok_install:
  assumes "leases_ok e" and "lease_LeaseID l \<notin> ei_LeaseID ` set (en_expirations e)"
  shows "leases_ok (install_lease l e)"
proof -
  have "ei_LeaseID it \<noteq> lease_LeaseID l" if "it \<in> set (en_expirations e)" for it
    using assms(2) that by (metis imageI)
  with assms show ?thesis by (auto simp: leases_ok_def install_lease_def gomap_simps heap_Push_ok)
qed

lemma leases_ok_deadline:
  "leases_ok e \<Longrightarrow> it \<in> set (en_expirations e) \<Longrightarrow> gm_get (en_leases e) (ei_LeaseID it) = Some le \<Longrightarrow>
   lease_ExpiresAt le \<le> ei_ExpiresAt it"
  by (auto simp: leases_ok_def)

text \<open>Dropping the popped item and the lease it names, or the item of a lease that is gone.\<close>

lemma leases_ok_pop_delete:
  assumes "leases_ok e" and "heap_Pop (en_expirations e) = Some (it, h)"
    and "en_leases e2 = en_leases e" and "en_expirations e2 = h" and "en_config e2 = en_config e"
  shows "leases_ok (delete_lease (ei_LeaseID it) e2)"
proof -
  have "heap_ok h" using assms(1,2) heap_Pop_Some(4) by (auto simp: leases_ok_def)
  with assms set_heap_Pop [OF assms(2)] show ?thesis
    by (auto simp: leases_ok_def delete_lease_def gomap_simps)
qed

lemma leases_ok_pop_absent:
  assumes "leases_ok e" and "heap_Pop (en_expirations e) = Some (it, h)"
    and "gm_get (en_leases e) (ei_LeaseID it) = None"
  shows "leases_ok (e\<lparr>en_expirations := h\<rparr>)"
proof -
  have "delete_lease (ei_LeaseID it) (e\<lparr>en_expirations := h\<rparr>) = e\<lparr>en_expirations := h\<rparr>"
    using assms(3) by (simp add: delete_lease_def gm_del_absent)
  then show ?thesis
    using leases_ok_pop_delete [OF assms(1,2), of "e\<lparr>en_expirations := h\<rparr>"] by simp
qed

text \<open>Popping the item of a lease that could not be expired and pushing the retry.\<close>

lemma leases_ok_retry:
  assumes "leases_ok e" and "heap_Pop (en_expirations e) = Some (it, h)"
    and "gm_get (en_leases e) (ei_LeaseID it) = Some le" and "lease_ExpiresAt le \<le> now"
    and "en_leases e2 = en_leases e" and "en_expirations e2 = h" and "en_config e2 = en_config e"
  shows "leases_ok (e2\<lparr>en_expirations := heap_Push
           \<lparr>ei_LeaseID = ei_LeaseID it, ei_ExpiresAt = now + sint (cfg_RequeueRetryDelay (en_config e2))\<rparr> h\<rparr>)"
proof -
  have "heap_ok h" using assms(1,2) heap_Pop_Some(4) by (auto simp: leases_ok_def)
  with assms set_heap_Pop [OF assms(2)] show ?thesis
    by (auto simp: leases_ok_def heap_Push_ok)
qed

section \<open>A rule for the reaper's loop\<close>

text \<open>The turns of the loop: the item of a lease that is gone is dropped; the item of a lease that is
  not due is dropped; a due lease is expired and deleted; a lease that cannot be expired is scheduled
  again and the loop ends.\<close>

lemma reap_loop_rule:
  assumes "reap_loop ops app wall now n e = (r, e')" and "I n e"
    and gone: "\<And>n e it h. I n e \<Longrightarrow> heap_Pop (en_expirations e) = Some (it, h) \<Longrightarrow> ei_ExpiresAt it \<le> now \<Longrightarrow>
      gm_get (en_leases e) (ei_LeaseID it) = None \<Longrightarrow> I n (e\<lparr>en_expirations := h\<rparr>)"
    and early: "\<And>n e it h le. I n e \<Longrightarrow> heap_Pop (en_expirations e) = Some (it, h) \<Longrightarrow> ei_ExpiresAt it \<le> now \<Longrightarrow>
      gm_get (en_leases e) (ei_LeaseID it) = Some le \<Longrightarrow> now < lease_ExpiresAt le \<Longrightarrow>
      I n (e\<lparr>en_expirations := h\<rparr>)"
    and expired: "\<And>n e it h le e2. I n e \<Longrightarrow> heap_Pop (en_expirations e) = Some (it, h) \<Longrightarrow> ei_ExpiresAt it \<le> now \<Longrightarrow>
      gm_get (en_leases e) (ei_LeaseID it) = Some le \<Longrightarrow> lease_ExpiresAt le \<le> now \<Longrightarrow>
      expireLease ops app wall le (e\<lparr>en_expirations := h\<rparr>) = (Inr (), e2) \<Longrightarrow>
      I (n + 1) (delete_lease (ei_LeaseID it) e2)"
    and retry: "\<And>n e it h le e2 err. I n e \<Longrightarrow> heap_Pop (en_expirations e) = Some (it, h) \<Longrightarrow> ei_ExpiresAt it \<le> now \<Longrightarrow>
      gm_get (en_leases e) (ei_LeaseID it) = Some le \<Longrightarrow> lease_ExpiresAt le \<le> now \<Longrightarrow>
      expireLease ops app wall le (e\<lparr>en_expirations := h\<rparr>) = (Inl err, e2) \<Longrightarrow>
      R n (e2\<lparr>en_expirations := heap_Push \<lparr>ei_LeaseID = ei_LeaseID it,
           ei_ExpiresAt = now + sint (cfg_RequeueRetryDelay (en_config e2))\<rparr> (en_expirations e2)\<rparr>)"
  shows "if snd r = None
    then I (fst r) e' \<and> (\<forall>it. eh_peek (en_expirations e') = Some it \<longrightarrow> now < ei_ExpiresAt it)
    else R (fst r) e'"
  using assms(1,2)
proof (induction "length (en_expirations e)" arbitrary: e n rule: less_induct)
  case less
  show ?case
  proof (cases "\<exists>it. eh_peek (en_expirations e) = Some it \<and> ei_ExpiresAt it \<le> now")
    case False
    then have "e' = e" "r = (n, None)"
      using less.prems(1) by (subst (asm) reap_loop.simps, auto split: option.splits if_splits)+
    with less.prems(2) False show ?thesis by auto
  next
    case True
    then obtain it where it: "eh_peek (en_expirations e) = Some it" "ei_ExpiresAt it \<le> now" by blast
    then obtain h where pop: "heap_Pop (en_expirations e) = Some (it, h)"
      using heap_Pop_None_iff [of "en_expirations e"] heap_Pop_Some(2) [of "en_expirations e"]
      by (cases "heap_Pop (en_expirations e)") (auto simp: eh_peek_def split: if_splits)
    have shrink: "length h < length (en_expirations e)" using heap_Pop_length [OF pop] by simp
    note unfolded = less.prems(1) [unfolded reap_loop.simps [of ops app wall now n e]]
    show ?thesis
    proof (cases "gm_get (en_leases e) (ei_LeaseID it)")
      case None
      with unfolded it pop have "reap_loop ops app wall now n (e\<lparr>en_expirations := h\<rparr>) = (r, e')" by simp
      then show ?thesis
        using less.hyps [of "e\<lparr>en_expirations := h\<rparr>"] shrink gone [OF less.prems(2) pop it(2) None] by simp
    next
      case (Some le)
      show ?thesis
      proof (cases "now < lease_ExpiresAt le")
        case True
        with unfolded it pop Some have "reap_loop ops app wall now n (e\<lparr>en_expirations := h\<rparr>) = (r, e')" by simp
        then show ?thesis
          using less.hyps [of "e\<lparr>en_expirations := h\<rparr>"] shrink
            early [OF less.prems(2) pop it(2) Some True] by simp
      next
        case False
        then have due: "lease_ExpiresAt le \<le> now" by simp
        obtain res e2 where ex: "expireLease ops app wall le (e\<lparr>en_expirations := h\<rparr>) = (res, e2)"
          by fastforce
        have e2: "en_expirations e2 = h" using expireLease_frame(2) [OF ex] by simp
        show ?thesis
        proof (cases res)
          case (Inl err)
          with unfolded it pop Some False ex retry [OF less.prems(2) pop it(2) Some due, of err e2]
          show ?thesis by auto
        next
          case (Inr u)
          with unfolded it pop Some False ex
          have "reap_loop ops app wall now (n + 1) (delete_lease (ei_LeaseID it) e2) = (r, e')" by simp
          then show ?thesis
            using less.hyps [of "delete_lease (ei_LeaseID it) e2"] shrink e2 Inr ex
              expired [OF less.prems(2) pop it(2) Some due, of e2] by (simp add: delete_lease_def)
        qed
      qed
    qed
  qed
qed

text \<open>The rule for an invariant of the engine alone.\<close>

lemma reap_loop_invar [consumes 2, case_names gone early expired retry]:
  assumes "reap_loop ops app wall now n e = (r, e')" and "I e"
    and "\<And>e it h. I e \<Longrightarrow> heap_Pop (en_expirations e) = Some (it, h) \<Longrightarrow> ei_ExpiresAt it \<le> now \<Longrightarrow>
      gm_get (en_leases e) (ei_LeaseID it) = None \<Longrightarrow> I (e\<lparr>en_expirations := h\<rparr>)"
    and "\<And>e it h le. I e \<Longrightarrow> heap_Pop (en_expirations e) = Some (it, h) \<Longrightarrow> ei_ExpiresAt it \<le> now \<Longrightarrow>
      gm_get (en_leases e) (ei_LeaseID it) = Some le \<Longrightarrow> now < lease_ExpiresAt le \<Longrightarrow>
      I (e\<lparr>en_expirations := h\<rparr>)"
    and "\<And>e it h le e2. I e \<Longrightarrow> heap_Pop (en_expirations e) = Some (it, h) \<Longrightarrow> ei_ExpiresAt it \<le> now \<Longrightarrow>
      gm_get (en_leases e) (ei_LeaseID it) = Some le \<Longrightarrow> lease_ExpiresAt le \<le> now \<Longrightarrow>
      expireLease ops app wall le (e\<lparr>en_expirations := h\<rparr>) = (Inr (), e2) \<Longrightarrow>
      I (delete_lease (ei_LeaseID it) e2)"
    and "\<And>e it h le e2 err. I e \<Longrightarrow> heap_Pop (en_expirations e) = Some (it, h) \<Longrightarrow> ei_ExpiresAt it \<le> now \<Longrightarrow>
      gm_get (en_leases e) (ei_LeaseID it) = Some le \<Longrightarrow> lease_ExpiresAt le \<le> now \<Longrightarrow>
      expireLease ops app wall le (e\<lparr>en_expirations := h\<rparr>) = (Inl err, e2) \<Longrightarrow>
      I (e2\<lparr>en_expirations := heap_Push \<lparr>ei_LeaseID = ei_LeaseID it,
           ei_ExpiresAt = now + sint (cfg_RequeueRetryDelay (en_config e2))\<rparr> (en_expirations e2)\<rparr>)"
  shows "I e'"
proof -
  have "if snd r = None then I e' \<and> (\<forall>it. eh_peek (en_expirations e') = Some it \<longrightarrow> now < ei_ExpiresAt it) else I e'"
    by (rule reap_loop_rule [where I = "\<lambda>_. I" and R = "\<lambda>_. I", OF assms(1,2)])
      (rule assms(3-6); assumption)+
  then show ?thesis by (simp split: if_splits)
qed

section \<open>Fences and leases\<close>

lemma covers_task:
  "covers leases q \<Longrightarrow> gm_get leases l = Some le \<Longrightarrow> aq_proc q tid = Some (t, l) \<Longrightarrow>
   tid = task_ID (lease_Task le)"
  by (fastforce simp: covers_def)

lemma unfenced_drop:
  assumes "covers leases q" and "gm_get leases l = Some le"
    and "aq_proc q' = (aq_proc q)(task_ID (lease_Task le) := None)"
  shows "unfenced l q'"
  using assms covers_task by (fastforce simp: unfenced_def split: if_splits)

lemma unfenced_stale:
  assumes "covers leases q" and "gm_get leases l = Some le"
    and "fence_check (task_ID (lease_Task le)) l q = Inl err"
  shows "unfenced l q"
  using assms covers_task [OF assms(1,2)] by (fastforce simp: unfenced_def fence_check_Inl)

lemma unfenced_map_le: "unfenced l q \<Longrightarrow> aq_proc q' \<subseteq>\<^sub>m aq_proc q \<Longrightarrow> unfenced l q'"
  by (fastforce simp: unfenced_def map_le_def dom_def)

lemma covers_map_le: "covers leases q \<Longrightarrow> aq_proc q' \<subseteq>\<^sub>m aq_proc q \<Longrightarrow> covers leases q'"
  unfolding covers_def map_le_def by (metis domI)

lemma journalled_map_le: "journalled rs leases q \<Longrightarrow> aq_proc q' \<subseteq>\<^sub>m aq_proc q \<Longrightarrow> journalled rs leases q'"
  unfolding journalled_def map_le_def by (metis domI)

lemma covers_delete: "covers leases q \<Longrightarrow> unfenced l q \<Longrightarrow> covers (gm_del l leases) q"
  by (fastforce simp: covers_def unfenced_def gomap_simps)

lemma journalled_delete: "journalled rs leases q \<Longrightarrow> journalled rs (gm_del l leases) q"
  by (auto simp: journalled_def gomap_simps split: if_splits)

lemma texts_ok_ids: "texts_ok leases q \<Longrightarrow> set_mset (task_ids q') \<subseteq> set_mset (task_ids q) \<Longrightarrow> texts_ok leases q'"
  by (auto simp: texts_ok_def)

lemma texts_ok_delete: "texts_ok leases q \<Longrightarrow> texts_ok (gm_del l leases) q"
  by (auto simp: texts_ok_def gomap_simps split: if_splits)

lemma texts_ok_lease: "texts_ok leases q \<Longrightarrow> gm_get leases l = Some le \<Longrightarrow> utf8_valid l"
  by (auto simp: texts_ok_def)

lemma task_ids_Complete_sub: "aq_wf q \<Longrightarrow> set_mset (task_ids (snd (spec_Complete tid lid q))) \<subseteq> set_mset (task_ids q)"
  using task_ids_fenced(3,4) [of q tid lid]
  by (cases "fst (spec_Complete tid lid q)") (auto simp: old.unit.exhaust)

text \<open>A record of a lease that fences nothing changes nothing of what the journal must know.\<close>

lemma journalled_append:
  "journalled rs leases q \<Longrightarrow> unfenced (wr_LeaseID r) q \<Longrightarrow> journalled (rs @ [r]) leases q"
  by (fastforce simp: journalled_def unfenced_def Live_snoc live_step_get)

lemma map_le_fun_upd_None: "m(k := None) \<subseteq>\<^sub>m m"
  by (simp add: map_le_def)

section \<open>Contracts\<close>

text \<open>What expiring a lease asks of the storage: a dead letter or another round in ready storage.\<close>

definition expire_spec :: "EngineConfig \<Rightarrow> (string \<Rightarrow> instant) \<Rightarrow> lease \<Rightarrow> aqueue \<Rightarrow> (go_error + unit) \<times> aqueue" where
  "expire_spec config wall le q =
     (if shouldDeadLetter config le
      then spec_DeadLetter (task_ID (lease_Task le)) (lease_LeaseID le) ''max attempts exceeded''
             (wall (lease_LeaseID le)) q
      else spec_Requeue (task_ID (lease_Task le)) (lease_LeaseID le) q)"

definition expire_op :: "EngineConfig \<Rightarrow> lease \<Rightarrow> go_error + unit \<Rightarrow> wal_op" where
  "expire_op config le r =
     (case r of Inl _ \<Rightarrow> OpStale | Inr _ \<Rightarrow> if shouldDeadLetter config le then OpDeadLetter else OpExpire)"

lemma expire_spec_cases:
  assumes "(r, q') = expire_spec config wall le q"
  shows "(\<exists>err. fence_check (task_ID (lease_Task le)) (lease_LeaseID le) q = Inl err \<and> r = Inl err \<and> q' = q) \<or>
    (\<exists>t. aq_proc q (task_ID (lease_Task le)) = Some (t, lease_LeaseID le) \<and> r = Inr () \<and>
       aq_proc q' = (aq_proc q)(task_ID (lease_Task le) := None))"
  using assms [symmetric] by (auto simp: expire_spec_def spec_fenced_cases split: if_splits)

lemma reason_text: "utf8_valid ''max attempts exceeded''"
  by (rule utf8_valid_ascii) (simp add: byte_in_def)

lemma task_ids_expire: "aq_wf q \<Longrightarrow> task_ids (snd (expire_spec config wall le q)) = task_ids q"
  by (simp add: expire_spec_def task_ids_fenced)

locale engine_contracts =
  be: reliable_backend ops abs b_inv room + jn: journal_contract app records j_inv
  for ops :: "'b backend_ops" and abs :: "'b \<Rightarrow> aqueue" and b_inv :: "'b \<Rightarrow> bool" and room :: "task \<Rightarrow> bool"
    and app :: "'j appender" and records :: "'j \<Rightarrow> wal_record list" and j_inv :: "'j \<Rightarrow> bool"
begin

abbreviation store :: "('b, 'j) Engine \<Rightarrow> bool" where
  "store \<equiv> store_inv abs b_inv records j_inv"

abbreviation inv :: "('b, 'j) Engine \<Rightarrow> bool" where
  "inv \<equiv> engine_inv abs b_inv records j_inv"

lemma store_cong:
  "store e \<Longrightarrow> en_ready e' = en_ready e \<Longrightarrow> en_leases e' = en_leases e \<Longrightarrow> en_journal e' = en_journal e \<Longrightarrow>
   store e'"
  by (simp add: store_inv_def)

lemma store_shrink:
  assumes "store e" and "b_inv b" and "aq_proc (abs b) \<subseteq>\<^sub>m aq_proc (abs (en_ready e))"
    and "texts_ok (en_leases e) (abs b)"
  shows "store (e\<lparr>en_ready := b\<rparr>)"
  using assms covers_map_le journalled_map_le by (fastforce simp: store_inv_def)

lemma record_journal:
  assumes "engine_record app r e = (res, e')" and "\<And>j. en_journal e = Some j \<Longrightarrow> j_inv j"
    and "en_journal e' = Some j'" and "record_text r"
  obtains j where "en_journal e = Some j" "j_inv j'"
    "records j' = records j @ [r] \<or> res \<noteq> Inr () \<and> records j' = records j"
proof (cases "en_journal e")
  case None
  with assms(1,3) show thesis by (simp add: engine_record_def)
next
  case (Some j)
  then have run: "app r j = (res, j')" and "j_inv j"
    using assms by (auto simp: engine_record_def split: prod.splits)
  show thesis
  proof (cases res)
    case (Inl err)
    with jn.append_failed [OF \<open>j_inv j\<close> assms(4), of err j'] run Some that show thesis by auto
  next
    case (Inr u)
    with jn.append_ok [OF \<open>j_inv j\<close> assms(4), of j'] run Some that show thesis by auto
  qed
qed

lemma store_record:
  assumes "store e" and "unfenced (wr_LeaseID r) (abs (en_ready e))"
    and "engine_record app r e = (res, e')" and "record_text r"
  shows "store e'"
proof -
  have e': "en_ready e' = en_ready e" "en_leases e' = en_leases e"
    using engine_record_frame [of app r e] assms(3) by simp_all
  have "j_inv j' \<and> journalled (records j') (en_leases e) (abs (en_ready e))" if eq: "en_journal e' = Some j'" for j'
  proof -
    obtain j where j: "en_journal e = Some j" "j_inv j'"
      "records j' = records j @ [r] \<or> res \<noteq> Inr () \<and> records j' = records j"
      by (rule record_journal [OF assms(3) _ eq assms(4)]) (use assms(1) in \<open>auto simp: store_inv_def\<close>)
    with assms(1,2) show ?thesis by (auto simp: store_inv_def journalled_append)
  qed
  with assms(1) e' show ?thesis by (simp add: store_inv_def)
qed

lemma store_delete: "store e \<Longrightarrow> unfenced l (abs (en_ready e)) \<Longrightarrow> store (delete_lease l e)"
  by (simp add: store_inv_def delete_lease_def covers_delete journalled_delete texts_ok_delete)

lemma record_ready: "engine_record app r e = (res, e') \<Longrightarrow> en_ready e' = en_ready e"
  using engine_record_frame(1) [of app r e] by simp

lemma record_leases_ok: "engine_record app r e = (res, e') \<Longrightarrow> leases_ok e \<Longrightarrow> leases_ok e'"
  using leases_ok_record [of app r e] by simp

subsection \<open>Enqueue and Ack\<close>

lemma Enqueue_inv:
  assumes "inv e" and "engine_Enqueue ops uuid p e = (res, e')" and "id_text uuid"
  shows "inv e'"
proof (cases "en_recoveryErr e")
  case None
  let ?t = "\<lparr>task_ID = uuid, task_Payload = core_cloneBytes p, task_Attempts = 0\<rparr>"
  obtain r b where eq: "be_Enqueue ops ?t (en_ready e) = (r, b)" by fastforce
  have "b_inv (en_ready e)" using assms(1) by (simp add: engine_inv_def store_inv_def)
  from be.Enqueue [OF this _ _ eq] assms(3) have b: "b_inv b" "abs b = snd (spec_Enqueue ?t (abs (en_ready e)))"
    by (auto simp: spec_Enqueue_def)
  have "texts_ok (en_leases e) (abs b)"
    using assms(1) id_text_valid [OF assms(3)] task_ids_Enqueue [of ?t "abs (en_ready e)"] b(2)
    by (auto simp: engine_inv_def store_inv_def texts_ok_def)
  moreover have "aq_proc (abs b) = aq_proc (abs (en_ready e))" using b(2) by (simp add: spec_Enqueue_def)
  ultimately have "store (e\<lparr>en_ready := b\<rparr>)"
    using assms(1) b(1) by (intro store_shrink) (auto simp: engine_inv_def)
  moreover have "e' = e\<lparr>en_ready := b\<rparr>"
    using assms(2) None eq by (auto simp: engine_Enqueue_def ensureRecovered_def Let_def split: sum.splits)
  ultimately show ?thesis using assms(1) by (simp add: engine_inv_def)
qed (use assms in \<open>simp add: engine_Enqueue_def ensureRecovered_def\<close>)

text \<open>What the backend call of an acknowledgement does to the storage.\<close>

lemma Complete_effect:
  assumes "store e" and "gm_get (en_leases e) l = Some le" and "lease_LeaseID le = l"
    and "be_Complete ops (task_ID (lease_Task le)) l (en_ready e) = (r, b)"
  shows "store (e\<lparr>en_ready := b\<rparr>)" and "unfenced l (abs b)"
    and "r = Inl err \<Longrightarrow> isStaleLeaseError err \<and> abs b = abs (en_ready e)"
    and "r = Inr () \<Longrightarrow> abs b = drop_proc (task_ID (lease_Task le)) (abs (en_ready e))"
proof -
  have b: "b_inv b" "(r, abs b) = spec_Complete (task_ID (lease_Task le)) l (abs (en_ready e))"
    and cov: "covers (en_leases e) (abs (en_ready e))"
    using assms be.Complete by (auto simp: store_inv_def)
  note cs = b(2) [symmetric, unfolded spec_Complete_cases]
  have le: "aq_proc (abs b) \<subseteq>\<^sub>m aq_proc (abs (en_ready e))"
    using cs by (auto simp: map_le_fun_upd_None)
  have "abs b = snd (spec_Complete (task_ID (lease_Task le)) l (abs (en_ready e)))" by (simp flip: b(2))
  moreover have "aq_wf (abs (en_ready e))" using assms(1) be.invar_wf by (simp add: store_inv_def)
  ultimately have "texts_ok (en_leases e) (abs b)"
    using assms(1) texts_ok_ids [OF _ task_ids_Complete_sub] by (simp add: store_inv_def)
  with le show "store (e\<lparr>en_ready := b\<rparr>)"
    using assms(1) b(1) by (intro store_shrink)
  show "unfenced l (abs b)"
    using cs unfenced_stale [OF cov assms(2)] unfenced_drop [OF cov assms(2)] by auto
  show "r = Inl err \<Longrightarrow> isStaleLeaseError err \<and> abs b = abs (en_ready e)"
    using cs fence_check_stale by auto
  show "r = Inr () \<Longrightarrow> abs b = drop_proc (task_ID (lease_Task le)) (abs (en_ready e))"
    using cs by auto
qed

lemma Ack_inv:
  assumes "inv e" and "engine_Ack ops app l e = (res, e')"
  shows "inv e'"
proof (cases "en_recoveryErr e = None \<and> (\<exists>le. gm_get (en_leases e) l = Some le)")
  case False
  then have "e' = e"
    using assms(2) by (auto simp: engine_Ack_def ensureRecovered_def split: option.splits)
  with assms(1) show ?thesis by simp
next
  case True
  then obtain le where le: "en_recoveryErr e = None" "gm_get (en_leases e) l = Some le" by blast
  have ok: "leases_ok e" "store e" using assms(1) by (auto simp: engine_inv_def)
  have id: "lease_LeaseID le = l" using ok(1) le(2) by (auto simp: leases_ok_def)
  obtain r b where c: "be_Complete ops (task_ID (lease_Task le)) l (en_ready e) = (r, b)" by fastforce
  note eff = Complete_effect [OF ok(2) le(2) id c]
  have lok: "leases_ok (e\<lparr>en_ready := b\<rparr>)" using ok(1) by simp
  have step: "inv e1 \<and> inv (delete_lease l e1)"
    if "engine_record app (close_record op l) (e\<lparr>en_ready := b\<rparr>) = (x, e1)" and op: "utf8_valid op" for op x e1
  proof -
    have "record_text (close_record op l)"
      using ok(2) le(2) op by (auto simp: store_inv_def record_text_close intro: texts_ok_lease)
    then have "store e1" using store_record [OF eff(1) _ that(1)] eff(2) by simp
    moreover have "unfenced l (abs (en_ready e1))" using record_ready [OF that(1)] eff(2) by simp
    moreover have "leases_ok e1" using record_leases_ok [OF that(1) lok] .
    ultimately show ?thesis by (simp add: engine_inv_def store_delete leases_ok_delete)
  qed
  have "inv (e\<lparr>en_ready := b\<rparr>)" using eff(1) lok by (simp add: engine_inv_def)
  with step assms(2) le id c show ?thesis
    by (auto simp: engine_Ack_def ensureRecovered_def split: sum.splits prod.splits if_splits)
qed

subsection \<open>Expiration\<close>

text \<open>Expiring a lease: one backend transition, then one record that closes the lease.\<close>

lemma expireLease_split:
  assumes "b_inv (en_ready e)" and "can_reap room wall (abs (en_ready e))" and "expireLease ops app wall le e = (res, e')"
  obtains r b where "b_inv b" "(r, abs b) = expire_spec (en_config e) wall le (abs (en_ready e))"
    "engine_record app (close_record (expire_op (en_config e) le r) (lease_LeaseID le)) (e\<lparr>en_ready := b\<rparr>) =
       (res, e')"
proof -
  let ?tid = "task_ID (lease_Task le)" and ?l = "lease_LeaseID le"
  obtain r b where rb: "(if shouldDeadLetter (en_config e) le
      then be_DeadLetter ops ?tid ?l ''max attempts exceeded'' (wall ?l) (en_ready e)
      else be_Requeue ops ?tid ?l (en_ready e)) = (r, b)" by fastforce
  have spec: "b_inv b" "(r, abs b) = expire_spec (en_config e) wall le (abs (en_ready e))"
    using rb be.DeadLetter [OF assms(1) can_reap_bump(1) [OF assms(2)] reason_text can_reap_bump(2) [OF assms(2)]]
      be.Requeue [OF assms(1) can_reap_bump(1) [OF assms(2)]]
    by (auto simp: expire_spec_def split: if_splits)
  have "isStaleLeaseError err" if "r = Inl err" for err
    using expire_spec_cases [OF spec(2)] that fence_check_stale by auto
  then have "engine_record app (close_record (expire_op (en_config e) le r) ?l) (e\<lparr>en_ready := b\<rparr>) = (res, e')"
    using assms(3) rb by (auto simp: expireLease_def expire_op_def Let_def split: sum.splits)
  with spec show thesis by (rule that)
qed

lemma expireLease_store:
  assumes "store e" and "gm_get (en_leases e) l = Some le" and "lease_LeaseID le = l"
    and "can_reap room wall (abs (en_ready e))" and "expireLease ops app wall le e = (res, e')"
  shows "store e'" and "unfenced l (abs (en_ready e'))"
    and "abs (en_ready e') = snd (expire_spec (en_config e) wall le (abs (en_ready e)))"
    and "can_reap room wall (abs (en_ready e'))"
proof -
  have bi: "b_inv (en_ready e)" and cov: "covers (en_leases e) (abs (en_ready e))"
    using assms(1) by (auto simp: store_inv_def)
  obtain r b where b: "b_inv b" "(r, abs b) = expire_spec (en_config e) wall le (abs (en_ready e))"
    and rec: "engine_record app (close_record (expire_op (en_config e) le r) (lease_LeaseID le))
      (e\<lparr>en_ready := b\<rparr>) = (res, e')"
    by (rule expireLease_split [OF bi assms(4,5)])
  note cs = expire_spec_cases [OF b(2)]
  have le: "aq_proc (abs b) \<subseteq>\<^sub>m aq_proc (abs (en_ready e))"
    using cs by (auto simp: map_le_fun_upd_None)
  moreover have "task_ids (abs b) = task_ids (abs (en_ready e))"
    using task_ids_expire [OF be.invar_wf [OF bi], of "en_config e" wall le] by (simp flip: b(2))
  then have "texts_ok (en_leases e) (abs b)" using assms(1) by (simp add: store_inv_def texts_ok_def)
  ultimately have st: "store (e\<lparr>en_ready := b\<rparr>)"
    using assms(1) b(1) by (intro store_shrink)
  have uf: "unfenced l (abs b)"
    using cs unfenced_stale [OF cov assms(2)] unfenced_drop [OF cov assms(2)] assms(3) by auto
  moreover have "record_text (close_record (expire_op (en_config e) le r) (lease_LeaseID le))"
    using assms(1-3) by (auto simp: store_inv_def record_text_close expire_op_def split: sum.splits intro: texts_ok_lease)
  ultimately show "store e'"
    using store_record [OF st _ rec] assms(3) by simp
  show "unfenced l (abs (en_ready e'))"
    and "abs (en_ready e') = snd (expire_spec (en_config e) wall le (abs (en_ready e)))"
    and "can_reap room wall (abs (en_ready e'))"
    using uf record_ready [OF rec] b(2) can_reap_map_le [OF assms(4) le] by (simp_all flip: b(2))
qed

lemma leases_ok_id: "leases_ok e \<Longrightarrow> gm_get (en_leases e) l = Some le \<Longrightarrow> lease_LeaseID le = l"
  by (auto simp: leases_ok_def)

lemma reap_loop_inv:
  assumes "reap_loop ops app wall now n e = (r, e')" and "inv e \<and> can_reap room wall (abs (en_ready e))"
  shows "inv e' \<and> can_reap room wall (abs (en_ready e'))"
  using assms
proof (induction rule: reap_loop_invar)
  case (gone e it h)
  then show ?case
    by (auto simp: engine_inv_def intro: leases_ok_pop_absent store_cong)
next
  case (early e it h le)
  then have "lease_ExpiresAt le \<le> ei_ExpiresAt it"
    by (intro leases_ok_deadline [of e]) (auto simp: engine_inv_def set_heap_Pop)
  with early show ?case by simp
next
  case (expired e it h le e2)
  let ?e1 = "e\<lparr>en_expirations := h\<rparr>"
  have lok: "leases_ok e" and "store ?e1"
    using expired(1) by (auto simp: engine_inv_def intro: store_cong)
  note ex = expireLease_store [OF this(2) _ _ _ expired(6), of "ei_LeaseID it"]
  note fr = expireLease_frame [OF expired(6)]
  have "store e2" "unfenced (ei_LeaseID it) (abs (en_ready e2))" "can_reap room wall (abs (en_ready e2))"
    using ex expired(1,4) leases_ok_id [OF lok] by auto
  then show ?case
    using leases_ok_pop_delete [OF lok expired(2), of e2] fr
    by (simp add: engine_inv_def store_delete) (simp add: delete_lease_def)
next
  case (retry e it h le e2 err)
  let ?e1 = "e\<lparr>en_expirations := h\<rparr>"
  have lok: "leases_ok e" and "store ?e1"
    using retry(1) by (auto simp: engine_inv_def intro: store_cong)
  note ex = expireLease_store [OF this(2) _ _ _ retry(6), of "ei_LeaseID it"]
  note fr = expireLease_frame [OF retry(6)]
  have "store e2" "can_reap room wall (abs (en_ready e2))" using ex retry(1,4) leases_ok_id [OF lok] by auto
  then show ?case
    using leases_ok_retry [OF lok retry(2,4,5), of e2] fr
    by (auto simp: engine_inv_def intro: store_cong)
qed

lemma ReapExpired_inv:
  assumes "inv e" and "can_reap room wall (abs (en_ready e))" and "engine_ReapExpired ops app wall now e = (r, e')"
  shows "inv e'"
  using assms reap_loop_inv by (auto simp: engine_ReapExpired_def ensureRecovered_def split: option.splits)

subsection \<open>Fetch\<close>

lemma Acquire_effect:
  assumes st: "store e" and lok: "leases_ok e" and idt: "id_text uuid"
    and fresh: "uuid \<notin> ei_LeaseID ` set (en_expirations e)"
    and acq: "be_Acquire ops uuid (en_ready e) = (Inr t, b)"
  shows "b_inv b" and "aq_proc (abs b) = (aq_proc (abs (en_ready e)))(task_ID t \<mapsto> (t, uuid))"
    and "unfenced uuid (abs (en_ready e))"
    and "set_mset (task_ids (abs b)) \<subseteq> set_mset (task_ids (abs (en_ready e)))"
    and "task_ID t \<in># task_ids (abs (en_ready e))"
    and "can_fetch room (abs (en_ready e)) \<Longrightarrow> can_bump room (task_ID t) (abs b)"
proof -
  have bi: "b_inv (en_ready e)" using st by (simp add: store_inv_def)
  from be.Acquire [OF bi idt acq] have b: "b_inv b" "(Inr t, abs b) = spec_Acquire uuid (abs (en_ready e))" by auto
  from b(1) show "b_inv b" .
  from b(2) show "aq_proc (abs b) = (aq_proc (abs (en_ready e)))(task_ID t \<mapsto> (t, uuid))"
    by (auto simp: spec_Acquire_def split: list.splits)
  have "gm_get (en_leases e) uuid = None"
    using lok fresh by (auto simp: leases_ok_def dom_def subset_iff)
  then show "unfenced uuid (abs (en_ready e))"
    using st by (fastforce simp: store_inv_def covers_def unfenced_def)
  show "set_mset (task_ids (abs b)) \<subseteq> set_mset (task_ids (abs (en_ready e)))"
    and "task_ID t \<in># task_ids (abs (en_ready e))"
    using b(2) be.invar_wf [OF bi]
    by (auto simp: spec_Acquire_def task_ids_def aq_wf_def split: list.splits)
  show "can_bump room (task_ID t) (abs b)" if "can_fetch room (abs (en_ready e))"
    using that b(2) by (auto simp: can_bump_def can_fetch_def spec_Acquire_def split: list.splits)
qed

lemma fetch_record_journal:
  assumes st: "store e" and tid: "task_ID (lease_Task l) \<in># task_ids (abs (en_ready e))"
    and uv: "utf8_valid (lease_LeaseID l)"
    and rec: "engine_record app (fetch_record l) (e\<lparr>en_ready := b\<rparr>) = (rr, e1)" and eq: "en_journal e1 = Some j'"
  shows "j_inv j' \<and> (\<exists>rs. journalled rs (en_leases e) (abs (en_ready e)) \<and>
    (records j' = rs @ [fetch_record l] \<or> rr \<noteq> Inr () \<and> records j' = rs))"
proof -
  have rt: "record_text (fetch_record l)"
    using uv tid st by (auto simp: store_inv_def record_text_def fetch_record_def texts_ok_def)
  obtain j where "en_journal e = Some j" "j_inv j'"
    "records j' = records j @ [fetch_record l] \<or> rr \<noteq> Inr () \<and> records j' = records j"
    by (rule record_journal [OF rec _ eq rt]) (use st in \<open>auto simp: store_inv_def\<close>)
  with st show ?thesis by (auto simp: store_inv_def)
qed

text \<open>The two ends of a fetch whose task was acquired: the lease is recorded and installed, or the record
  failed and the task goes back to the ready queue.\<close>

lemma fetch_installed_inv:
  assumes st: "store e" and lok: "leases_ok e" and idt: "id_text uuid"
    and fresh: "uuid \<notin> ei_LeaseID ` set (en_expirations e)"
    and acq: "be_Acquire ops uuid (en_ready e) = (Inr t, b)"
    and l: "lease_LeaseID l = uuid" "lease_Task l = t"
    and rec: "engine_record app (fetch_record l) (e\<lparr>en_ready := b\<rparr>) = (Inr (), e1)"
  shows "inv (install_lease l e1)"
proof -
  note ac = Acquire_effect [OF st lok idt fresh acq]
  have uv: "utf8_valid uuid" using idt by (rule id_text_valid)
  have tx: "texts_ok (en_leases e) (abs (en_ready e))" using st by (simp add: store_inv_def)
  have e1: "en_ready e1 = b" "en_leases e1 = en_leases e" "en_expirations e1 = en_expirations e"
    "en_config e1 = en_config e"
    using engine_record_frame [of app "fetch_record l" "e\<lparr>en_ready := b\<rparr>"] rec by simp_all
  have fr: "wr_LeaseID (fetch_record l) = uuid" "wr_Op (fetch_record l) = OpFetch" by (simp_all add: l fetch_record_def)
  have "store (install_lease l e1)"
    unfolding store_inv_def
  proof (intro conjI allI impI)
    show "b_inv (en_ready (install_lease l e1))" using ac(1) e1(1) by (simp add: install_lease_def)
    show "covers (en_leases (install_lease l e1)) (abs (en_ready (install_lease l e1)))"
      using st ac(3) by (fastforce simp: install_lease_def e1 l ac(2) covers_def store_inv_def
          unfenced_def gomap_simps)
    show "texts_ok (en_leases (install_lease l e1)) (abs (en_ready (install_lease l e1)))"
      using texts_ok_ids [OF tx ac(4)] uv by (auto simp: install_lease_def e1 l texts_ok_def gomap_simps)
    fix j' assume "en_journal (install_lease l e1) = Some j'"
    then have "en_journal e1 = Some j'" by (simp add: install_lease_def)
    from fetch_record_journal [OF st _ _ rec this] ac(5) uv
    show "j_inv j'" and "journalled (records j') (en_leases (install_lease l e1)) (abs (en_ready (install_lease l e1)))"
      using ac(3) by (auto simp: install_lease_def e1 l fr ac(2) journalled_def unfenced_def gomap_simps
          Live_get_snoc_fetch)
  qed
  moreover have "leases_ok (install_lease l e1)"
    using leases_ok_install [OF leases_ok_cong [OF lok, of e1]] fresh l(1) e1 by simp
  ultimately show ?thesis by (simp add: engine_inv_def)
qed

lemma fetch_rolled_back_inv:
  assumes st: "store e" and lok: "leases_ok e" and idt: "id_text uuid"
    and fresh: "uuid \<notin> ei_LeaseID ` set (en_expirations e)" and room: "can_fetch room (abs (en_ready e))"
    and acq: "be_Acquire ops uuid (en_ready e) = (Inr t, b)"
    and l: "lease_LeaseID l = uuid" "lease_Task l = t"
    and rec: "engine_record app (fetch_record l) (e\<lparr>en_ready := b\<rparr>) = (rr, e1)"
    and rq: "be_Requeue ops (task_ID t) uuid b = (rq, b')"
  shows "inv (e1\<lparr>en_ready := b'\<rparr>)"
proof -
  note ac = Acquire_effect [OF st lok idt fresh acq]
  have e1: "en_leases e1 = en_leases e" "en_expirations e1 = en_expirations e" "en_config e1 = en_config e"
    using engine_record_frame [of app "fetch_record l" "e\<lparr>en_ready := b\<rparr>"] rec by simp_all
  from be.Requeue [OF ac(1) _ rq] ac(6) [OF room]
  have b': "b_inv b'" "(rq, abs b') = spec_Requeue (task_ID t) uuid (abs b)" by auto
  then have "aq_proc (abs b') = (aq_proc (abs (en_ready e)))(task_ID t := None)"
    by (auto simp: spec_Requeue_def fence_check_def ac(2))
  then have le: "aq_proc (abs b') \<subseteq>\<^sub>m aq_proc (abs (en_ready e))"
    by (simp add: map_le_fun_upd_None)
  have "task_ids (abs b') = task_ids (abs b)"
    using task_ids_fenced(1) [OF be.invar_wf [OF ac(1)], of "task_ID t" uuid] by (simp flip: b'(2))
  then have tx: "texts_ok (en_leases e) (abs b')"
    using ac(4) texts_ok_ids [of "en_leases e" "abs (en_ready e)"] st by (simp add: store_inv_def)
  have "store (e1\<lparr>en_ready := b'\<rparr>)"
    unfolding store_inv_def
  proof (intro conjI allI impI)
    show "b_inv (en_ready (e1\<lparr>en_ready := b'\<rparr>))" using b'(1) by simp
    show "covers (en_leases (e1\<lparr>en_ready := b'\<rparr>)) (abs (en_ready (e1\<lparr>en_ready := b'\<rparr>)))"
      using covers_map_le [OF _ le] st e1 by (simp add: store_inv_def)
    show "texts_ok (en_leases (e1\<lparr>en_ready := b'\<rparr>)) (abs (en_ready (e1\<lparr>en_ready := b'\<rparr>)))"
      using tx e1 by simp
    fix j' assume "en_journal (e1\<lparr>en_ready := b'\<rparr>) = Some j'"
    then have "en_journal e1 = Some j'" by simp
    from fetch_record_journal [OF st _ _ rec this] ac(5) id_text_valid [OF idt] l
    show "j_inv j'"
      and "journalled (records j') (en_leases (e1\<lparr>en_ready := b'\<rparr>)) (abs (en_ready (e1\<lparr>en_ready := b'\<rparr>)))"
      using journalled_map_le [OF _ le] unfenced_map_le [OF ac(3) le] e1
      by (auto simp: journalled_append fetch_record_def)
  qed
  then show ?thesis using leases_ok_cong [OF lok, of "e1\<lparr>en_ready := b'\<rparr>"] e1 by (simp add: engine_inv_def)
qed

lemma Fetch_inv:
  assumes inv: "inv e" and run: "engine_Fetch ops app uuid now timeout e = (res, e')"
    and fresh: "uuid \<notin> ei_LeaseID ` set (en_expirations e)" and idt: "id_text uuid"
    and room: "can_fetch room (abs (en_ready e))"
  shows "inv e'"
proof (cases "sint timeout \<le> 0 \<or> en_recoveryErr e \<noteq> None")
  case True
  then have "e' = e" using run by (auto simp: engine_Fetch_def ensureRecovered_def split: if_splits)
  with inv show ?thesis by simp
next
  case False
  have lok: "leases_ok e" and st: "store e" using inv by (auto simp: engine_inv_def)
  obtain ra b where acq: "be_Acquire ops uuid (en_ready e) = (ra, b)" by fastforce
  show ?thesis
  proof (cases ra)
    case (Inl err)
    from be.Acquire [OF _ idt acq] st have "b_inv b" "(ra, abs b) = spec_Acquire uuid (abs (en_ready e))"
      by (auto simp: store_inv_def)
    with Inl have "store (e\<lparr>en_ready := b\<rparr>)"
      using st by (intro store_shrink) (auto simp: store_inv_def spec_Acquire_def split: list.splits)
    moreover have "e' = e\<lparr>en_ready := b\<rparr>"
      using run False acq Inl by (auto simp: engine_Fetch_def ensureRecovered_def)
    ultimately show ?thesis using lok by (simp add: engine_inv_def)
  next
    case (Inr t)
    define l where "l = \<lparr>lease_LeaseID = uuid, lease_Task = t, lease_ExpiresAt = now + sint timeout,
      lease_CreatedAt = now\<rparr>"
    have l: "lease_LeaseID l = uuid" "lease_Task l = t" by (simp_all add: l_def)
    obtain rr e1 where rec: "engine_record app (fetch_record l) (e\<lparr>en_ready := b\<rparr>) = (rr, e1)" by fastforce
    obtain rq b' where rq: "be_Requeue ops (task_ID t) uuid b = (rq, b')" by fastforce
    have "en_ready e1 = b" using engine_record_frame [of app "fetch_record l" "e\<lparr>en_ready := b\<rparr>"] rec by simp
    then have e': "e' = (case rr of Inl _ \<Rightarrow> e1\<lparr>en_ready := b'\<rparr> | Inr _ \<Rightarrow> install_lease l e1)"
      using run False acq Inr rec rq
      by (auto simp: engine_Fetch_def ensureRecovered_def Let_def l_def split: sum.splits)
    show ?thesis
      using fetch_rolled_back_inv [OF st lok idt fresh room acq [unfolded Inr] l rec rq]
        fetch_installed_inv [OF st lok idt fresh acq [unfolded Inr] l, of e1] rec
      by (cases rr) (simp_all add: e')
  qed
qed

end

end
