(* ===== verification/Engine_Recovery.thy ===== *)
theory Engine_Recovery
  imports Engine_Invariant
begin

text \<open>
  Startup recovery: what \<open>newEngine\<close> makes of a backend left behind by another process and of the
  records its journal replays. The results hold over every backend that keeps \<open>backend_contract\<close>, lost
  connections included, and every journal that keeps \<open>journal_contract\<close> (locale \<open>recovery_contracts\<close>).
\<close>

section \<open>Leases that survive\<close>

definition restored_lease :: "wal_record \<Rightarrow> lease" where
  "restored_lease r =
     \<lparr>lease_LeaseID = wr_LeaseID r, lease_Task = wr_Task r, lease_ExpiresAt = wr_ExpiresAt r,
      lease_CreatedAt = wr_CreatedAt r\<rparr>"

lemma restored_lease_sel [simp]:
  "lease_LeaseID (restored_lease r) = wr_LeaseID r" "lease_Task (restored_lease r) = wr_Task r"
  "lease_ExpiresAt (restored_lease r) = wr_ExpiresAt r"
  by (simp_all add: restored_lease_def)

lemma fetch_record_restored: "wr_Op r = OpFetch \<Longrightarrow> fetch_record (restored_lease r) = r"
  by (simp add: fetch_record_def restored_lease_def)

text \<open>An open lease of the journal survives when processing storage still holds its task under its id.\<close>

definition survives :: "wal_record list \<Rightarrow> aqueue \<Rightarrow> string \<Rightarrow> bool" where
  "survives rs q l \<longleftrightarrow>
     (\<exists>r t. gm_get (Live rs) l = Some r \<and> aq_proc q (task_ID (wr_Task r)) = Some (t, l))"

text \<open>The leases a restarted engine holds.\<close>

definition surviving_leases :: "wal_record list \<Rightarrow> aqueue \<Rightarrow> string \<Rightarrow> lease option" where
  "surviving_leases rs q l =
     (if survives rs q l then map_option restored_lease (gm_get (Live rs) l) else None)"

lemma active_fences_iff:
  "f \<in> set (active_fences live ids) \<longleftrightarrow>
     (\<exists>id r. id \<in> set ids \<and> gm_get live id = Some r \<and>
        f = \<lparr>fence_TaskID = task_ID (wr_Task r), fence_LeaseID = wr_LeaseID r\<rparr>)"
  by (force simp: active_fences_def List.map_filter_def)

lemma active_fences_Live:
  assumes "set ids = dom (gm_get (Live rs))"
  shows "\<lparr>fence_TaskID = tid, fence_LeaseID = l\<rparr> \<in> set (active_fences (Live rs) ids) \<longleftrightarrow>
         (\<exists>r. gm_get (Live rs) l = Some r \<and> task_ID (wr_Task r) = tid)"
  unfolding active_fences_iff assms using Live_key by (fastforce simp: dom_def)

lemma matched_leases_Live:
  assumes "set ids = dom (gm_get (Live rs))"
  shows "matched_leases (active_fences (Live rs) ids) q = {l. survives rs q l}"
  by (auto simp: matched_leases_def active_fences_Live [OF assms] survives_def)

lemma covered_Live:
  assumes "set ids = dom (gm_get (Live rs))"
  shows "covered (active_fences (Live rs) ids) q =
         {tid. \<exists>t l r. aq_proc q tid = Some (t, l) \<and> gm_get (Live rs) l = Some r \<and> task_ID (wr_Task r) = tid}"
  by (auto simp: covered_def active_fences_Live [OF assms])

lemma is_matched_iff: "is_matched result l \<longleftrightarrow> l \<in> set (gm_keys (rr_MatchedLeaseIDs result))"
  unfolding is_matched_def gm_keys_dom by auto

section \<open>Reinstating leases\<close>

lemma install_lease_frame [simp]:
  "en_ready (install_lease l e) = en_ready e" "en_journal (install_lease l e) = en_journal e"
  "en_config (install_lease l e) = en_config e" "en_recoveryErr (install_lease l e) = en_recoveryErr e"
  by (simp_all add: install_lease_def)

lemma fold_install_frame [simp]:
  "en_ready (fold install_lease ls e) = en_ready e" "en_journal (fold install_lease ls e) = en_journal e"
  "en_config (fold install_lease ls e) = en_config e"
  "en_recoveryErr (fold install_lease ls e) = en_recoveryErr e"
  by (induction ls arbitrary: e) simp_all

definition lease_item :: "lease \<Rightarrow> expirationItem" where
  "lease_item l = \<lparr>ei_LeaseID = lease_LeaseID l, ei_ExpiresAt = lease_ExpiresAt l\<rparr>"

lemma lease_item_sel [simp]:
  "ei_LeaseID (lease_item l) = lease_LeaseID l" "ei_ExpiresAt (lease_item l) = lease_ExpiresAt l"
  by (simp_all add: lease_item_def)

lemma install_lease_sel:
  "gm_get (en_leases (install_lease l e)) = (gm_get (en_leases e))(lease_LeaseID l \<mapsto> l)"
  "set (en_expirations (install_lease l e)) = insert (lease_item l) (set (en_expirations e))"
  by (simp_all add: install_lease_def gomap_simps lease_item_def)

lemma fold_install_items:
  "set (en_expirations (fold install_lease ls e)) = lease_item ` set ls \<union> set (en_expirations e)"
  by (induction ls arbitrary: e) (auto simp: install_lease_sel)

lemma map_of_rev_distinct: "distinct (map fst xs) \<Longrightarrow> map_of (rev xs) = map_of xs"
  by (subst map_of_inject_set) (simp_all flip: rev_map)

lemma fold_install_leases:
  "gm_get (en_leases (fold install_lease ls e)) =
     gm_get (en_leases e) ++ map_of (rev (map (\<lambda>l. (lease_LeaseID l, l)) ls))"
  by (induction ls arbitrary: e) (simp_all add: install_lease_sel)

lemma fold_install_ok:
  assumes "leases_ok e" and "distinct (map lease_LeaseID ls)"
    and "lease_LeaseID ` set ls \<inter> ei_LeaseID ` set (en_expirations e) = {}"
  shows "leases_ok (fold install_lease ls e)"
  using assms
proof (induction ls arbitrary: e)
  case (Cons l ls)
  then have "leases_ok (install_lease l e)" by (intro leases_ok_install) auto
  moreover have "lease_LeaseID ` set ls \<inter> ei_LeaseID ` set (en_expirations (install_lease l e)) = {}"
    using Cons.prems by (auto simp: install_lease_sel)
  ultimately show ?case using Cons by simp
qed simp

lemma restore_leases_fold:
  assumes "set ls \<subseteq> dom (gm_get (Live rs))"
  shows "restore_leases result (Live rs) ls e =
         fold install_lease
           (map (\<lambda>l. restored_lease (the (gm_get (Live rs) l))) (filter (is_matched result) ls)) e"
  using assms
  by (induction ls arbitrary: e) (auto simp: restored_lease_def split: option.splits)

lemma restore_leases_effect:
  assumes "distinct ls" and "set ls = dom (gm_get (Live rs))"
    and "leases_ok e" and "en_leases e = []" and "en_expirations e = []"
    and "\<And>l. is_matched result l \<longleftrightarrow> survives rs q l"
    and "e' = restore_leases result (Live rs) ls e"
  shows "leases_ok e'" and "gm_get (en_leases e') = surviving_leases rs q"
    and "en_ready e' = en_ready e" and "en_journal e' = en_journal e" and "en_config e' = en_config e"
    and "en_recoveryErr e' = en_recoveryErr e"
    and "set (en_expirations e') = lease_item ` ran (surviving_leases rs q)"
proof -
  let ?f = "\<lambda>l. restored_lease (the (gm_get (Live rs) l))"
  let ?ms = "filter (survives rs q) ls"
  let ?xs = "map ?f ?ms"
  have "is_matched result = survives rs q" by (rule ext) (rule assms(6))
  then have e': "e' = fold install_lease ?xs e"
    unfolding assms(7) restore_leases_fold [OF equalityD1 [OF assms(2)]] by (simp only:)
  have id: "lease_LeaseID (?f l) = l" if "l \<in> set ls" for l
    using that assms(2) Live_key by fastforce
  then have ids: "map lease_LeaseID ?xs = ?ms" by (auto intro: map_idI)
  have dist: "distinct (map lease_LeaseID ?xs)" unfolding ids using assms(1) by simp
  show "leases_ok e'"
    unfolding e' using assms(3,5) dist by (intro fold_install_ok) auto
  have ms: "set ?ms = {l. survives rs q l}"
    using assms(2) by (auto simp: survives_def)
  have pairs: "map (\<lambda>l. (lease_LeaseID l, l)) ?xs = map (\<lambda>l. (l, ?f l)) ?ms"
    using id by simp
  have "map_of (rev (map (\<lambda>l. (l, ?f l)) ?ms)) = map_of (map (\<lambda>l. (l, ?f l)) ?ms)"
    using assms(1) by (intro map_of_rev_distinct) (simp add: comp_def)
  then have get: "gm_get (en_leases e') = (Some \<circ> ?f) |` set ?ms"
    unfolding e' fold_install_leases pairs by (simp add: assms(4) map_of_map_restrict)
  also have surv: "\<dots> = surviving_leases rs q"
    unfolding ms by (auto simp: fun_eq_iff surviving_leases_def survives_def restrict_map_def)
  finally show "gm_get (en_leases e') = surviving_leases rs q" .
  have "set ?xs = ran (surviving_leases rs q)"
    unfolding surv [symmetric] by (auto simp: ran_def restrict_map_def)
  then show "set (en_expirations e') = lease_item ` ran (surviving_leases rs q)"
    unfolding e' fold_install_items using assms(5) by simp
qed (simp_all add: assms(7) restore_leases_fold [OF equalityD1 [OF assms(2)]])

lemma heap_Init_Nil: "heap_Init [] = []"
  by (simp add: heap_Init_def eh_Len_def)

section \<open>What recovery leaves in storage\<close>

text \<open>The tasks that stay in processing storage: those held by an open lease of the journal.\<close>

definition kept_tasks :: "wal_record list \<Rightarrow> aqueue \<Rightarrow> string set" where
  "kept_tasks rs q =
     {tid. \<exists>t l r. aq_proc q tid = Some (t, l) \<and> gm_get (Live rs) l = Some r \<and> task_ID (wr_Task r) = tid}"

text \<open>Storage after a completed recovery: the tasks that are not kept are back in ready storage, as they
  were, behind the ready tasks.\<close>

definition recovered_queue :: "wal_record list \<Rightarrow> aqueue \<Rightarrow> aqueue \<Rightarrow> bool" where
  "recovered_queue rs q q' \<longleftrightarrow>
     (\<exists>moved. aq_ready q' = aq_ready q @ moved \<and>
        mset moved = image_mset (\<lambda>tid. fst (the (aq_proc q tid)))
          (mset_set (dom (aq_proc q) - kept_tasks rs q))) \<and>
     aq_proc q' = aq_proc q |` kept_tasks rs q \<and> aq_dead q' = aq_dead q"

lemma spec_Recover_Live:
  assumes "set ids = dom (gm_get (Live rs))" and "spec_Recover (active_fences (Live rs) ids) q res q'"
  shows "recovered_queue rs q q'" and "is_matched res l \<longleftrightarrow> survives rs q l"
  using assms(2) covered_Live [OF assms(1), of q] matched_leases_Live [OF assms(1), of q]
  by (auto simp: spec_Recover_def recovered_queue_def kept_tasks_def orphans_def is_matched_iff)

lemma task_ids_recovered:
  assumes "recovered_queue rs q q'" and "aq_wf q"
  shows "task_ids q' = task_ids q"
proof -
  let ?active = "active_fences (Live rs) (gm_keys (Live rs))"
  have keys: "set (gm_keys (Live rs)) = dom (gm_get (Live rs))" by (rule gm_keys_dom)
  obtain moved where "aq_ready q' = aq_ready q @ moved" "mset moved = orphans ?active q"
    using assms(1) covered_Live [OF keys, of q]
    by (auto simp: recovered_queue_def kept_tasks_def orphans_def)
  then have "spec_Recover ?active q
      \<lparr>rr_Moved = length moved, rr_MatchedLeaseIDs = map (\<lambda>l. (l, ())) (filter (survives rs q) (gm_keys (Live rs)))\<rparr> q'"
    using assms(1) covered_Live [OF keys, of q] matched_leases_Live [OF keys, of q] keys
    by (auto simp: spec_Recover_def recovered_queue_def kept_tasks_def comp_def survives_def)
  then show ?thesis using assms(2) by (rule task_ids_Recover)
qed

lemma Live_get_stales:
  "gm_get (Live (rs @ map (close_record OpStale) ls)) = gm_get (Live rs) |` (- set ls)"
proof (induction ls rule: rev_induct)
  case (snoc l ls)
  have "Live (rs @ map (close_record OpStale) (ls @ [l])) =
      Live ((rs @ map (close_record OpStale) ls) @ [close_record OpStale l])" by simp
  then show ?case
    by (auto simp: Live_get_snoc_close snoc restrict_map_def fun_eq_iff simp del: append_assoc)
qed (simp add: restrict_map_def fun_eq_iff)

text \<open>Neither closing leases that do not survive nor putting orphans back changes which leases survive.\<close>

lemma surviving_leases_again:
  assumes "q' = q \<or> recovered_queue rs q q'" and "\<forall>l \<in> S. \<not> survives rs q l"
    and "gm_get (Live rs') = gm_get (Live rs) |` (- S)"
  shows "surviving_leases rs' q' = surviving_leases rs q"
proof -
  have "survives rs' q' l \<longleftrightarrow> survives rs q l" for l
  proof
    show "survives rs' q' l \<Longrightarrow> survives rs q l"
      using assms(1,3) by (auto simp: survives_def recovered_queue_def restrict_map_def split: if_splits)
    assume s: "survives rs q l"
    then have "l \<notin> S" using assms(2) by blast
    then show "survives rs' q' l"
      using s assms(1,3) by (force simp: survives_def recovered_queue_def kept_tasks_def restrict_map_def)
  qed
  then show ?thesis
    using assms(2,3) by (auto simp: fun_eq_iff surviving_leases_def restrict_map_def)
qed

lemma kept_tasks_again:
  assumes "q' = q \<or> recovered_queue rs q q'" and "\<forall>l \<in> S. \<not> survives rs q l"
    and "gm_get (Live rs') = gm_get (Live rs) |` (- S)"
  shows "kept_tasks rs' q' = kept_tasks rs q"
proof (rule set_eqI, rule iffI)
  fix tid assume "tid \<in> kept_tasks rs' q'"
  then obtain t l r where "aq_proc q' tid = Some (t, l)" "gm_get (Live rs') l = Some r" "task_ID (wr_Task r) = tid"
    by (auto simp: kept_tasks_def)
  then show "tid \<in> kept_tasks rs q"
    using assms(1,3) by (auto simp: recovered_queue_def restrict_map_def kept_tasks_def split: if_splits)
next
  fix tid assume kept: "tid \<in> kept_tasks rs q"
  then obtain t l r where p: "aq_proc q tid = Some (t, l)" "gm_get (Live rs) l = Some r" "task_ID (wr_Task r) = tid"
    by (auto simp: kept_tasks_def)
  then have "survives rs q l" by (auto simp: survives_def)
  then have "l \<notin> S" using assms(2) by blast
  moreover have "aq_proc q' tid = Some (t, l)"
    using assms(1) p(1) kept by (auto simp: recovered_queue_def)
  ultimately show "tid \<in> kept_tasks rs' q'"
    using p(2,3) assms(3) by (auto simp: kept_tasks_def)
qed

lemma recovered_queue_again:
  assumes "q' = q \<or> recovered_queue rs q q'" and "\<forall>l \<in> S. \<not> survives rs q l"
    and "gm_get (Live rs') = gm_get (Live rs) |` (- S)" and "recovered_queue rs' q' q''"
  shows "recovered_queue rs q q''"
proof (cases "q' = q")
  case True
  then show ?thesis using assms(4) kept_tasks_again [OF assms(1-3)] by (simp add: recovered_queue_def)
next
  case False
  then have r1: "recovered_queue rs q q'" using assms(1) by blast
  have none: "dom (aq_proc q) \<inter> K - K = {}" for K by blast
  from r1 assms(4) show ?thesis
    unfolding recovered_queue_def kept_tasks_again [OF assms(1-3)] by (auto simp: none)
qed

lemma survives_proc:
  assumes "recovered_queue rs q q'" and "aq_proc q' tid = Some (t, l)"
  shows "\<exists>r. gm_get (Live rs) l = Some r \<and> task_ID (wr_Task r) = tid \<and>
    surviving_leases rs q l = Some (restored_lease r)"
  using assms by (auto simp: recovered_queue_def kept_tasks_def restrict_map_def surviving_leases_def
      survives_def split: if_splits)

lemma restore_stale_frame:
  "restore_stale app result ls e = (res, e') \<Longrightarrow>
     en_ready e' = en_ready e \<and> en_leases e' = en_leases e \<and> en_expirations e' = en_expirations e \<and>
     en_config e' = en_config e \<and> en_recoveryErr e' = en_recoveryErr e \<and>
     (en_journal e = None \<longrightarrow> en_journal e' = None \<and> res = Inr ())"
proof (induction ls arbitrary: e)
  case (Cons l ls)
  obtain r1 e1 where rec: "engine_record app (close_record OpStale l) e = (r1, e1)" by fastforce
  have e1: "en_ready e1 = en_ready e" "en_leases e1 = en_leases e" "en_expirations e1 = en_expirations e"
    "en_config e1 = en_config e" "en_recoveryErr e1 = en_recoveryErr e"
    using engine_record_frame [of app "close_record OpStale l" e] rec by simp_all
  have nj: "en_journal e1 = None \<and> r1 = Inr ()" if "en_journal e = None"
    using rec that by (auto simp: engine_record_def)
  show ?case
  proof (cases "is_matched result l")
    case True
    with Cons show ?thesis by simp
  next
    case False
    show ?thesis
    proof (cases r1)
      case (Inl err)
      with Cons.prems False rec have "e' = e1" by simp
      with Inl e1 nj show ?thesis by fastforce
    next
      case (Inr u)
      with Cons.prems False rec have "restore_stale app result ls e1 = (res, e')" by simp
      from Cons.IH [OF this] e1 nj show ?thesis by simp
    qed
  qed
qed simp

text \<open>The ids of open leases are text that came out of the journal.\<close>

lemma Live_text: "list_all record_text rs \<Longrightarrow> l \<in> dom (gm_get (Live rs)) \<Longrightarrow> utf8_valid l"
  by (auto simp: list_all_iff record_text_def dest!: Live_key)

section \<open>Recovery over contracts\<close>

locale recovery_contracts =
  be: backend_contract ops abs b_inv room + jn: journal_contract app records j_inv
  for ops :: "'b backend_ops" and abs :: "'b \<Rightarrow> aqueue" and b_inv :: "'b \<Rightarrow> bool" and room :: "task \<Rightarrow> bool"
    and app :: "'j appender" and records :: "'j \<Rightarrow> wal_record list" and j_inv :: "'j \<Rightarrow> bool"
begin

lemma restore_stale_journal:
  assumes "restore_stale app result ls e = (res, e')" and "en_journal e = Some j" and "j_inv j"
    and "\<forall>l \<in> set ls. utf8_valid l"
  shows "\<exists>j' stale. en_journal e' = Some j' \<and> j_inv j' \<and>
    records j' = records j @ map (close_record OpStale) stale \<and>
    set stale \<subseteq> {l \<in> set ls. \<not> is_matched result l} \<and>
    (res = Inr () \<longrightarrow> stale = filter (\<lambda>l. \<not> is_matched result l) ls)"
  using assms
proof (induction ls arbitrary: e j)
  case Nil
  then show ?case by (auto intro: exI [of _ "[]"])
next
  case (Cons l ls)
  show ?case
  proof (cases "is_matched result l")
    case True
    then have "restore_stale app result ls e = (res, e')" using Cons.prems(1) by simp
    from Cons.IH [OF this Cons.prems(2,3)] Cons.prems(4) True show ?thesis by auto
  next
    case False
    obtain r1 j1 where j1: "app (close_record OpStale l) j = (r1, j1)" by fastforce
    have rec: "engine_record app (close_record OpStale l) e = (r1, e\<lparr>en_journal := Some j1\<rparr>)"
      using Cons.prems(2) j1 by (simp add: engine_record_def)
    have rt: "record_text (close_record OpStale l)" using Cons.prems(4) by (simp add: record_text_close)
    note ar = jn.append_records [OF Cons.prems(3) rt j1]
    show ?thesis
    proof (cases r1)
      case (Inl err)
      then have "en_journal e' = Some j1" "res = Inl err" using Cons.prems(1) False rec by auto
      moreover obtain st where "records j1 = records j @ map (close_record OpStale) st" "set st \<subseteq> {l}"
        using ar that [of "[]"] that [of "[l]"] by auto
      ultimately show ?thesis using ar False by (intro exI [of _ j1] exI [of _ st]) auto
    next
      case (Inr u)
      then have run: "restore_stale app result ls (e\<lparr>en_journal := Some j1\<rparr>) = (res, e')"
        using Cons.prems(1) False rec by simp
      obtain j' st where ih: "en_journal e' = Some j'" "j_inv j'"
        "records j' = records j1 @ map (close_record OpStale) st" "set st \<subseteq> {l \<in> set ls. \<not> is_matched result l}"
        "res = Inr () \<longrightarrow> st = filter (\<lambda>l. \<not> is_matched result l) ls"
        using Cons.IH [OF run, of j1] Cons.prems(4) ar by auto
      have "records j1 = records j @ [close_record OpStale l]"
        using jn.append_ok [OF Cons.prems(3) rt, of j1] j1 Inr by auto
      with ih False show ?thesis by (auto intro!: exI [of _ "l # st"])
    qed
  qed
qed

text \<open>The three ways a recovery ends: the backend refuses, the journal refuses, or all leases that
  survive are installed.\<close>

lemma newEngine_cases [consumes 4, case_names backend_failed journal_failed recovered]:
  fixes journal :: "'j option" and b :: 'b
  assumes "e' = newEngine ops app ord config journal rs b" and "b_inv b" and "\<And>i. range_order (ord i)"
    and "\<forall>j. journal = Some j \<longrightarrow> j_inv j \<and> records j = rs"
  obtains
    (backend_failed) err where "en_recoveryErr e' = Some (ErrJoin [ErrRecoveryIncomplete, err])"
      "b_inv (en_ready e')" "abs (en_ready e') = abs b \<or> recovered_queue rs (abs b) (abs (en_ready e'))"
      "en_journal e' = journal" "en_leases e' = []"
  | (journal_failed) err j' stale where "en_recoveryErr e' = Some (ErrJoin [ErrRecoveryIncomplete, err])"
      "b_inv (en_ready e')" "recovered_queue rs (abs b) (abs (en_ready e'))"
      "journal \<noteq> None" "en_journal e' = Some j'" "j_inv j'"
      "records j' = rs @ map (close_record OpStale) stale" "\<And>l. l \<in> set stale \<Longrightarrow> \<not> survives rs (abs b) l"
      "en_leases e' = []"
  | (recovered) "en_recoveryErr e' = None" "b_inv (en_ready e')"
      "recovered_queue rs (abs b) (abs (en_ready e'))"
      "journal = None \<Longrightarrow> en_journal e' = None"
      "\<And>j. journal = Some j \<Longrightarrow> \<exists>j' stale. en_journal e' = Some j' \<and> j_inv j' \<and>
         records j' = rs @ map (close_record OpStale) stale \<and>
         set stale = {l \<in> dom (gm_get (Live rs)). \<not> survives rs (abs b) l}"
      "leases_ok e'" "gm_get (en_leases e') = surviving_leases rs (abs b)"
      "set (en_expirations e') = lease_item ` ran (surviving_leases rs (abs b))"
proof -
  define e0 :: "('b, 'j) Engine" where "e0 = \<lparr>en_ready = b, en_leases = [], en_expirations = [],
    en_config = (if sint (cfg_RequeueRetryDelay config) \<le> 0
       then config\<lparr>cfg_RequeueRetryDelay := requeueRetryDelay\<rparr> else config),
    en_journal = journal, en_recoveryErr = None\<rparr>"
  let ?ids = "\<lambda>i. ord i (gm_keys (Live rs))"
  have ids: "set (?ids i) = dom (gm_get (Live rs))" for i
    using range_order_set [OF assms(3)] gm_keys_dom by metis
  have dist: "distinct (?ids i)" for i
    using range_order_distinct [OF assms(3)] gm_ok_Live [of rs] by (simp add: gm_ok_def)
  have e': "e' = restore ops app ord rs e0"
    unfolding assms(1) newEngine_def e0_def Let_def by (simp add: heap_Init_Nil)
  have e0: "en_ready e0 = b" "en_journal e0 = journal" "en_recoveryErr e0 = None" "en_leases e0 = []"
    "en_expirations e0 = []" "leases_ok e0"
    by (auto simp: e0_def leases_ok_def requeueRetryDelay_def)
  obtain rr b1 where rec: "be_RecoverOrphanedProcessing ops (active_fences (Live rs) (?ids 0)) b = (rr, b1)"
    by fastforce
  note bc = be.Recover [OF assms(2) rec]
  show thesis
  proof (cases rr)
    case (Inl err)
    with e' rec e0 have "e' = e0\<lparr>en_ready := b1, en_recoveryErr := Some (ErrJoin [ErrRecoveryIncomplete, err])\<rparr>"
      by (simp add: restore_def Let_def)
    with bc Inl e0 show thesis
      by (intro backend_failed [of err]) (auto intro: spec_Recover_Live(1) [OF ids])
  next
    case (Inr result)
    with bc have b1: "b_inv b1" and sr: "spec_Recover (active_fences (Live rs) (?ids 0)) (abs b) result (abs b1)"
      by auto
    note rq = spec_Recover_Live [OF ids sr]
    obtain res e1 where st: "restore_stale app result (?ids 1) (e0\<lparr>en_ready := b1\<rparr>) = (res, e1)" by fastforce
    note fr = restore_stale_frame [OF st]
    have jr: "\<exists>j' stale. en_journal e1 = Some j' \<and> j_inv j' \<and> records j' = rs @ map (close_record OpStale) stale \<and>
        set stale \<subseteq> {l \<in> dom (gm_get (Live rs)). \<not> survives rs (abs b) l} \<and>
        (res = Inr () \<longrightarrow> set stale = {l \<in> dom (gm_get (Live rs)). \<not> survives rs (abs b) l})"
      if eq: "journal = Some j" for j
    proof -
      have "set (filter (\<lambda>l. \<not> is_matched result l) (?ids 1)) =
          {l \<in> dom (gm_get (Live rs)). \<not> survives rs (abs b) l}"
        by (simp only: set_filter ids rq(2))
      moreover obtain j' stale where "en_journal e1 = Some j'" "j_inv j'"
        "records j' = rs @ map (close_record OpStale) stale"
        "set stale \<subseteq> set (filter (\<lambda>l. \<not> is_matched result l) (?ids 1))"
        "res = Inr () \<longrightarrow> stale = filter (\<lambda>l. \<not> is_matched result l) (?ids 1)"
        using restore_stale_journal [OF st, of j] assms(4) eq e0(2) jn.records_text [of j]
          Live_text [of rs] ids [of 1] by auto
      ultimately show ?thesis by (intro exI [of _ j'] exI [of _ stale]) (simp only: simp_thms, blast)
    qed
    show thesis
    proof (cases res)
      case (Inl err)
      then have jn: "journal \<noteq> None" using fr e0(2) by auto
      then obtain j' stale where j': "en_journal e1 = Some j'" "j_inv j'"
        "records j' = rs @ map (close_record OpStale) stale"
        "set stale \<subseteq> {l \<in> dom (gm_get (Live rs)). \<not> survives rs (abs b) l}" using jr by blast
      have "e' = e1\<lparr>en_recoveryErr := Some (ErrJoin [ErrRecoveryIncomplete, err])\<rparr>"
        using e' rec \<open>rr = Inr result\<close> st Inl e0(1) by (simp add: restore_def Let_def)
      with fr b1 rq(1) jn j' e0(4) show thesis by (intro journal_failed [of err j' stale]) auto
    next
      case (Inr u)
      then have e'2: "e' = restore_leases result (Live rs) (?ids 2) e1"
        using e' rec \<open>rr = Inr result\<close> st e0(1) by (simp add: restore_def Let_def)
      have "leases_ok e1" using leases_ok_cong [OF e0(6), of e1] fr by simp
      moreover have *: "en_leases e1 = []" "en_expirations e1 = []" "en_ready e1 = b1" "en_recoveryErr e1 = None"
        using fr e0 by simp_all
      ultimately have rl: "leases_ok e'" "gm_get (en_leases e') = surviving_leases rs (abs b)"
        "en_ready e' = b1" "en_journal e' = en_journal e1" "en_recoveryErr e' = None"
        "set (en_expirations e') = lease_item ` ran (surviving_leases rs (abs b))"
        using restore_leases_effect [OF dist ids _ _ _ rq(2) e'2] by simp_all
      show thesis
      proof (rule recovered)
        show "journal = None \<Longrightarrow> en_journal e' = None" using fr e0(2) rl(4) by simp
        fix j assume "journal = Some j"
        from jr [OF this] Inr rl(4) show "\<exists>j' stale. en_journal e' = Some j' \<and> j_inv j' \<and>
            records j' = rs @ map (close_record OpStale) stale \<and>
            set stale = {l \<in> dom (gm_get (Live rs)). \<not> survives rs (abs b) l}" by auto
      qed (simp_all only: rl b1 rq(1))
    qed
  qed
qed

lemma newEngine_conserves:
  assumes "e' = newEngine ops app ord config journal rs b" and "b_inv b" and "\<And>i. range_order (ord i)"
    and "\<forall>j. journal = Some j \<longrightarrow> j_inv j \<and> records j = rs"
  shows "b_inv (en_ready e')" and "task_ids (abs (en_ready e')) = task_ids (abs b)"
    and "aq_dead (abs (en_ready e')) = aq_dead (abs b)"
    and "abs (en_ready e') = abs b \<or> recovered_queue rs (abs b) (abs (en_ready e'))"
proof -
  show eff: "abs (en_ready e') = abs b \<or> recovered_queue rs (abs b) (abs (en_ready e'))"
    using assms by (cases rule: newEngine_cases) simp_all
  show "b_inv (en_ready e')"
    using assms by (cases rule: newEngine_cases) simp_all
  show "task_ids (abs (en_ready e')) = task_ids (abs b)" "aq_dead (abs (en_ready e')) = aq_dead (abs b)"
    using eff task_ids_recovered [OF _ be.invar_wf [OF assms(2)]] by (auto simp: recovered_queue_def)
qed

lemma newEngine_journal:
  assumes "e' = newEngine ops app ord config journal rs b" and "b_inv b" and "\<And>i. range_order (ord i)"
    and "\<forall>j. journal = Some j \<longrightarrow> j_inv j \<and> records j = rs" and "journal = Some j"
  obtains j' S where "en_journal e' = Some j'" "j_inv j'" "gm_get (Live (records j')) = gm_get (Live rs) |` (- S)"
    "\<forall>l \<in> S. \<not> survives rs (abs b) l"
    "en_recoveryErr e' = None \<Longrightarrow> S = {l \<in> dom (gm_get (Live rs)). \<not> survives rs (abs b) l}"
  using assms(1-4)
proof (cases rule: newEngine_cases)
  case (backend_failed err)
  with assms(4,5) show thesis by (intro that [of j "{}"]) auto
next
  case (journal_failed err j' stale)
  then show thesis by (intro that [of j' "set stale"]) (auto simp: Live_get_stales)
next
  case recovered
  from recovered(5) [OF assms(5)] obtain j' stale where "en_journal e' = Some j'" "j_inv j'"
    "records j' = rs @ map (close_record OpStale) stale"
    "set stale = {l \<in> dom (gm_get (Live rs)). \<not> survives rs (abs b) l}" by blast
  then show thesis by (intro that [of j' "set stale"]) (auto simp: Live_get_stales)
qed

lemma newEngine_leases:
  assumes "e' = newEngine ops app ord config journal rs b" and "b_inv b" and "\<And>i. range_order (ord i)"
    and "\<forall>j. journal = Some j \<longrightarrow> j_inv j \<and> records j = rs" and "en_recoveryErr e' = None"
  shows "gm_get (en_leases e') = surviving_leases rs (abs b)"
    and "recovered_queue rs (abs b) (abs (en_ready e'))"
    and "leases_ok e'" and "set (en_expirations e') = lease_item ` ran (surviving_leases rs (abs b))"
  by (rule newEngine_cases [OF assms(1-4)]; simp add: assms(5))+

lemma newEngine_inv:
  assumes "e' = newEngine ops app ord config journal rs b" and "b_inv b" and "\<And>i. range_order (ord i)"
    and "\<forall>j. journal = Some j \<longrightarrow> j_inv j \<and> records j = rs" and "en_recoveryErr e' = None"
    and "list_all record_text rs" and "\<forall>x \<in># task_ids (abs b). utf8_valid x"
  shows "engine_inv abs b_inv records j_inv e'"
proof -
  note nl = newEngine_leases [OF assms(1-5)] and nc = newEngine_conserves [OF assms(1-4)]
  have fence: "\<exists>r. gm_get (Live rs) l = Some r \<and> task_ID (wr_Task r) = tid \<and>
      gm_get (en_leases e') l = Some (restored_lease r) \<and> survives rs (abs b) l"
    if "aq_proc (abs (en_ready e')) tid = Some (t, l)" for tid t l
    using survives_proc [OF nl(2) that] nl(1) by (auto simp: surviving_leases_def split: if_splits)
  have "covers (en_leases e') (abs (en_ready e'))"
    using fence by (fastforce simp: covers_def)
  moreover have "texts_ok (en_leases e') (abs (en_ready e'))"
    unfolding texts_ok_def nc(2) nl(1) using assms(7) Live_text [OF assms(6)]
    by (auto simp: surviving_leases_def survives_def split: if_splits)
  moreover have "j_inv j' \<and> journalled (records j') (en_leases e') (abs (en_ready e'))"
    if j': "en_journal e' = Some j'" for j'
  proof -
    obtain j where "journal = Some j"
      using assms(1-4) j' assms(5) by (cases rule: newEngine_cases) auto
    from newEngine_journal [OF assms(1-4) this] j' obtain S where "j_inv j'"
      "gm_get (Live (records j')) = gm_get (Live rs) |` (- S)" "\<forall>l \<in> S. \<not> survives rs (abs b) l" by auto
    note S = this
    have "gm_get (Live (records j')) l = Some (fetch_record le) \<and> task_ID (lease_Task le) = tid"
      if p: "aq_proc (abs (en_ready e')) tid = Some (t, l)" and le: "gm_get (en_leases e') l = Some le" for tid t l le
    proof -
      obtain r where r: "gm_get (Live rs) l = Some r" "le = restored_lease r" "survives rs (abs b) l"
        "task_ID (wr_Task r) = tid"
        using fence [OF p] le by auto
      then have "l \<notin> S" using S(3) by blast
      with r S(2) Live_key [OF r(1)] show ?thesis by (simp add: fetch_record_restored)
    qed
    with S(1) show ?thesis by (auto simp: journalled_def)
  qed
  ultimately show ?thesis using nl(3) nc(1) by (simp add: engine_inv_def store_inv_def)
qed

text \<open>A recovery that failed half way can be repeated: the next one finds the same leases.\<close>

lemma newEngine_again:
  assumes "e1 = newEngine ops app ord1 config (Some j) (records j) b" and "b_inv b" and "j_inv j"
    and "\<And>i. range_order (ord1 i)" and "\<And>i. range_order (ord2 i)" and "en_journal e1 = Some j1"
    and "e2 = newEngine ops app ord2 config (Some j1) (records j1) (en_ready e1)" and "en_recoveryErr e2 = None"
  shows "gm_get (en_leases e2) = surviving_leases (records j) (abs b)"
    and "recovered_queue (records j) (abs b) (abs (en_ready e2))"
proof -
  have j: "\<forall>j'. Some j = Some j' \<longrightarrow> j_inv j' \<and> records j' = records j" using assms(3) by simp
  note nc = newEngine_conserves [OF assms(1,2,4) j]
  obtain S where S: "j_inv j1" "gm_get (Live (records j1)) = gm_get (Live (records j)) |` (- S)"
    "\<forall>l \<in> S. \<not> survives (records j) (abs b) l"
    using newEngine_journal [OF assms(1,2,4) j refl] assms(6) by auto
  have j1: "\<forall>j'. Some j1 = Some j' \<longrightarrow> j_inv j' \<and> records j' = records j1" using S(1) by simp
  note nl = newEngine_leases [OF assms(7) nc(1) assms(5) j1 assms(8)]
  show "gm_get (en_leases e2) = surviving_leases (records j) (abs b)"
    using nl(1) surviving_leases_again [OF nc(4) S(3,2)] by simp
  show "recovered_queue (records j) (abs b) (abs (en_ready e2))"
    using recovered_queue_again [OF nc(4) S(3,2) nl(2)] .
qed

end

sublocale engine_contracts \<subseteq> rc: recovery_contracts ops abs b_inv room app records j_inv
  by unfold_locales

end
