(* ===== verification/Engine_Reaping.thy ===== *)
theory Engine_Reaping
  imports Engine_Recovery
begin

text \<open>
  What a pass of the reaper (\<open>ReapExpired\<close>) does: which leases it ends, which it leaves alone, how it
  schedules the retry of a lease it could not end, and what it makes of the tasks in storage.
\<close>

section \<open>Leases and deadlines\<close>

text \<open>The state of a pass after some turns, relative to its start: the leases that are left are leases of
  the start, those that are not due are all left, every turn that ended a lease is counted, and a due
  heap item of the start is still in the heap or its lease is gone.\<close>

definition pass_state :: "instant \<Rightarrow> ('b, 'j) Engine \<Rightarrow> nat \<Rightarrow> ('b, 'j) Engine \<Rightarrow> bool" where
  "pass_state now e0 n e \<longleftrightarrow>
     leases_ok e \<and> en_config e = en_config e0 \<and> en_recoveryErr e = en_recoveryErr e0 \<and>
     gm_get (en_leases e) \<subseteq>\<^sub>m gm_get (en_leases e0) \<and>
     (\<forall>l le. gm_get (en_leases e0) l = Some le \<longrightarrow> now < lease_ExpiresAt le \<longrightarrow> gm_get (en_leases e) l = Some le) \<and>
     n + length (en_leases e) = length (en_leases e0) \<and>
     (\<forall>it \<in> set (en_expirations e0). it \<in> set (en_expirations e) \<or>
        ei_ExpiresAt it \<le> now \<and> gm_get (en_leases e) (ei_LeaseID it) = None)"

lemma map_le_get: "m \<subseteq>\<^sub>m m' \<Longrightarrow> m k = Some v \<Longrightarrow> m' k = Some v"
  by (auto simp: map_le_def dom_def)

lemma length_gm_del:
  assumes "gm_ok m" and "gm_get m k = Some v"
  shows "Suc (length (gm_del k m)) = length m"
proof -
  have "k \<in> dom (gm_get m)" "finite (dom (gm_get m))" using assms(2) by (auto simp: finite_dom_map_of)
  from card_Suc_Diff1 [OF this(2,1)] assms show ?thesis
    by (simp add: gm_length_card gomap_simps del: card_Diff_insert)
qed

lemma pass_state_gone:
  assumes "pass_state now e0 n e" and "heap_Pop (en_expirations e) = Some (it, h)" and "ei_ExpiresAt it \<le> now"
    and "gm_get (en_leases e) (ei_LeaseID it) = None"
  shows "pass_state now e0 n (e\<lparr>en_expirations := h\<rparr>)"
  using assms leases_ok_pop_absent [OF _ assms(2,4)] set_heap_Pop [OF assms(2)]
  by (auto simp: pass_state_def)

lemma pass_state_not_early:
  assumes "pass_state now e0 n e" and "heap_Pop (en_expirations e) = Some (it, h)" and "ei_ExpiresAt it \<le> now"
    and "gm_get (en_leases e) (ei_LeaseID it) = Some le"
  shows "lease_ExpiresAt le \<le> now"
  using assms leases_ok_deadline [of e it le] set_heap_Pop [OF assms(2)] by (auto simp: pass_state_def)

lemma pass_state_expired:
  assumes st: "pass_state now e0 n e" and pop: "heap_Pop (en_expirations e) = Some (it, h)"
    and due: "ei_ExpiresAt it \<le> now" and le: "gm_get (en_leases e) (ei_LeaseID it) = Some le"
    and ld: "lease_ExpiresAt le \<le> now"
    and ex: "expireLease ops app wall le (e\<lparr>en_expirations := h\<rparr>) = (Inr (), e2)"
  shows "pass_state now e0 (Suc n) (delete_lease (ei_LeaseID it) e2)"
proof -
  note fr = expireLease_frame [OF ex]
  have lok: "leases_ok e" using st by (simp add: pass_state_def)
  then have "gm_ok (en_leases e)" by (simp add: leases_ok_def)
  from length_gm_del [OF this le] have len: "Suc (length (gm_del (ei_LeaseID it) (en_leases e))) = length (en_leases e)" .
  have keep: "((gm_get (en_leases e))(ei_LeaseID it := None)) l = Some le'"
    if "gm_get (en_leases e0) l = Some le'" "now < lease_ExpiresAt le'" for l le'
  proof -
    have "gm_get (en_leases e) l = Some le'" using st that by (simp add: pass_state_def)
    moreover from this have "l \<noteq> ei_LeaseID it" using le ld that(2) by auto
    ultimately show ?thesis by simp
  qed
  have items: "it' \<in> set h \<or> ei_ExpiresAt it' \<le> now \<and> ((gm_get (en_leases e))(ei_LeaseID it := None)) (ei_LeaseID it') = None"
    if "it' \<in> set (en_expirations e0)" for it'
    using st that set_heap_Pop [OF pop] due by (auto simp: pass_state_def)
  have sub: "(gm_get (en_leases e))(ei_LeaseID it := None) \<subseteq>\<^sub>m gm_get (en_leases e0)"
    using st by (auto simp: pass_state_def map_le_def)
  have "leases_ok (delete_lease (ei_LeaseID it) e2)"
    using leases_ok_pop_delete [OF lok pop, of e2] fr by simp
  then show ?thesis
    using st fr len keep items sub unfolding pass_state_def
    by (intro conjI) (simp_all add: delete_lease_def gomap_simps)
qed

lemma reap_loop_pass:
  assumes "reap_loop ops app wall now 0 e = ((m, None), e')" and "leases_ok e"
  shows "pass_state now e m e'" and "\<forall>it \<in> set (en_expirations e'). now < ei_ExpiresAt it"
proof -
  have "if snd (m, None :: go_error option) = None
    then pass_state now e (fst (m, None :: go_error option)) e' \<and>
      (\<forall>it. eh_peek (en_expirations e') = Some it \<longrightarrow> now < ei_ExpiresAt it) else True"
    by (rule reap_loop_rule [OF assms(1)])
      (use assms(2) in \<open>auto simp: pass_state_def [of now e 0 e] intro: pass_state_gone pass_state_expired
        dest: pass_state_not_early\<close>)
  then have st: "pass_state now e m e'" and pk: "\<And>it. eh_peek (en_expirations e') = Some it \<Longrightarrow> now < ei_ExpiresAt it"
    by auto
  show "pass_state now e m e'" by (rule st)
  have "heap_ok (en_expirations e')" using st by (simp add: pass_state_def leases_ok_def)
  then show "\<forall>it \<in> set (en_expirations e'). now < ei_ExpiresAt it"
    using eh.nothing_due pk by (metis set_mset_mset)
qed

text \<open>A pass that stopped at a lease it could not end: that lease is scheduled again.\<close>

definition retry_item :: "instant \<Rightarrow> ('b, 'j) Engine \<Rightarrow> string \<Rightarrow> expirationItem" where
  "retry_item now e l = \<lparr>ei_LeaseID = l, ei_ExpiresAt = now + sint (cfg_RequeueRetryDelay (en_config e))\<rparr>"

definition pass_end :: "instant \<Rightarrow> ('b, 'j) Engine \<Rightarrow> nat \<Rightarrow> ('b, 'j) Engine \<Rightarrow> bool" where
  "pass_end now e0 n e \<longleftrightarrow>
     leases_ok e \<and> en_config e = en_config e0 \<and> en_recoveryErr e = en_recoveryErr e0 \<and>
     gm_get (en_leases e) \<subseteq>\<^sub>m gm_get (en_leases e0) \<and>
     (\<forall>l le. gm_get (en_leases e0) l = Some le \<longrightarrow> now < lease_ExpiresAt le \<longrightarrow> gm_get (en_leases e) l = Some le) \<and>
     n + length (en_leases e) = length (en_leases e0) \<and>
     (\<forall>it \<in> set (en_expirations e0). it \<in> set (en_expirations e) \<or> gm_get (en_leases e) (ei_LeaseID it) = None \<or>
        retry_item now e (ei_LeaseID it) \<in> set (en_expirations e))"

lemma pass_state_end: "pass_state now e0 n e \<Longrightarrow> pass_end now e0 n e"
  by (auto simp: pass_state_def pass_end_def)

lemma pass_state_retry:
  assumes st: "pass_state now e0 n e" and pop: "heap_Pop (en_expirations e) = Some (it, h)"
    and due: "ei_ExpiresAt it \<le> now" and le: "gm_get (en_leases e) (ei_LeaseID it) = Some le"
    and ld: "lease_ExpiresAt le \<le> now"
    and ex: "expireLease ops app wall le (e\<lparr>en_expirations := h\<rparr>) = (Inl err, e2)"
  shows "pass_end now e0 n (e2\<lparr>en_expirations := heap_Push \<lparr>ei_LeaseID = ei_LeaseID it,
           ei_ExpiresAt = now + sint (cfg_RequeueRetryDelay (en_config e2))\<rparr> (en_expirations e2)\<rparr>)"
proof -
  note fr = expireLease_frame [OF ex]
  have lok: "leases_ok e" using st by (simp add: pass_state_def)
  from leases_ok_retry [OF lok pop le ld, of e2] fr st show ?thesis
    unfolding pass_end_def pass_state_def
    by (intro conjI) (auto simp: retry_item_def set_heap_Pop [OF pop])
qed

lemma reap_loop_end:
  assumes "reap_loop ops app wall now 0 e = ((m, err), e')" and "leases_ok e"
  shows "pass_end now e m e'"
proof -
  have "if snd (m, err) = None
    then pass_state now e (fst (m, err)) e' \<and>
      (\<forall>it. eh_peek (en_expirations e') = Some it \<longrightarrow> now < ei_ExpiresAt it) else pass_end now e (fst (m, err)) e'"
    by (rule reap_loop_rule [OF assms(1)])
      (use assms(2) in \<open>auto simp: pass_state_def [of now e 0 e] intro: pass_state_gone pass_state_expired
        pass_state_retry dest: pass_state_not_early\<close>)
  then show ?thesis using pass_state_end by (auto split: if_splits)
qed

text \<open>Every lease is in the heap at its deadline, or at most the retry delay after the last pass.\<close>

definition timely :: "instant \<Rightarrow> ('b, 'j) Engine \<Rightarrow> bool" where
  "timely prev e \<longleftrightarrow>
     (\<forall>l le. gm_get (en_leases e) l = Some le \<longrightarrow>
        (\<exists>it \<in> set (en_expirations e). ei_LeaseID it = l \<and>
           ei_ExpiresAt it \<le> max (lease_ExpiresAt le) (prev + sint (cfg_RequeueRetryDelay (en_config e)))))"

lemma timely_pass_end:
  assumes "timely prev e" and "prev \<le> now" and "pass_end now e n e'"
  shows "timely now e'"
  unfolding timely_def
proof (intro allI impI)
  fix l le assume le: "gm_get (en_leases e') l = Some le"
  moreover have "gm_get (en_leases e') \<subseteq>\<^sub>m gm_get (en_leases e)" using assms(3) by (simp add: pass_end_def)
  ultimately have "gm_get (en_leases e) l = Some le" by (rule map_le_get [rotated])
  then obtain it where it: "it \<in> set (en_expirations e)" "ei_LeaseID it = l"
    "ei_ExpiresAt it \<le> max (lease_ExpiresAt le) (prev + sint (cfg_RequeueRetryDelay (en_config e)))"
    using assms(1) unfolding timely_def by blast
  have cfg: "en_config e' = en_config e" using assms(3) by (simp add: pass_end_def)
  have "it \<in> set (en_expirations e') \<or> gm_get (en_leases e') (ei_LeaseID it) = None \<or>
      retry_item now e' (ei_LeaseID it) \<in> set (en_expirations e')"
    using assms(3) it(1) unfolding pass_end_def by blast
  with it(2) le consider "it \<in> set (en_expirations e')" | "retry_item now e' l \<in> set (en_expirations e')" by auto
  then show "\<exists>it \<in> set (en_expirations e'). ei_LeaseID it = l \<and>
      ei_ExpiresAt it \<le> max (lease_ExpiresAt le) (now + sint (cfg_RequeueRetryDelay (en_config e')))"
  proof cases
    case 1
    then show ?thesis using it(2,3) assms(2) cfg by (intro bexI [of _ it]) auto
  next
    case 2
    then show ?thesis by (rule bexI [rotated]) (simp add: retry_item_def)
  qed
qed

lemma reap_loop_complete:
  assumes "reap_loop ops app wall now 0 e = ((m, None), e')" and "leases_ok e" and "timely prev e"
    and "prev + sint (cfg_RequeueRetryDelay (en_config e)) \<le> now" and "gm_get (en_leases e') l = Some le"
  shows "now < lease_ExpiresAt le"
proof (rule ccontr)
  note ps = reap_loop_pass [OF assms(1,2)]
  assume over: "\<not> now < lease_ExpiresAt le"
  have "gm_get (en_leases e') \<subseteq>\<^sub>m gm_get (en_leases e)" using ps(1) by (simp add: pass_state_def)
  then have "gm_get (en_leases e) l = Some le" using assms(5) by (rule map_le_get)
  then obtain it where it: "it \<in> set (en_expirations e)" "ei_LeaseID it = l"
    "ei_ExpiresAt it \<le> max (lease_ExpiresAt le) (prev + sint (cfg_RequeueRetryDelay (en_config e)))"
    using assms(3) unfolding timely_def by blast
  have "ei_ExpiresAt it \<le> now" using it(3) over assms(4) by simp
  then have "it \<notin> set (en_expirations e')" using ps(2) by fastforce
  then have "gm_get (en_leases e') (ei_LeaseID it) = None" using ps(1) it(1) unfolding pass_state_def by blast
  with assms(5) it(2) show False by simp
qed

section \<open>Tasks\<close>

text \<open>The storage after the given leases have been ended, one after the other.\<close>

definition expire_all :: "EngineConfig \<Rightarrow> (string \<Rightarrow> instant) \<Rightarrow> lease list \<Rightarrow> aqueue \<Rightarrow> aqueue" where
  "expire_all config wall les q = fold (\<lambda>le q. snd (expire_spec config wall le q)) les q"

lemma expire_all_snoc:
  "expire_all config wall (les @ [le]) q = snd (expire_spec config wall le (expire_all config wall les q))"
  by (simp add: expire_all_def)

lemma aq_wf_expire: "aq_wf q \<Longrightarrow> aq_wf (snd (expire_spec config wall le q))"
  by (simp add: expire_spec_def aq_wf_ops)

lemma task_ids_expire_all: "aq_wf q \<Longrightarrow> task_ids (expire_all config wall les q) = task_ids q"
  by (induction les arbitrary: q) (simp_all add: expire_all_def aq_wf_expire task_ids_expire)

text \<open>The leases a pass has ended.\<close>

definition ended :: "instant \<Rightarrow> ('b, 'j) Engine \<Rightarrow> lease list \<Rightarrow> ('b, 'j) Engine \<Rightarrow> bool" where
  "ended now e0 les e \<longleftrightarrow>
     distinct (map lease_LeaseID les) \<and>
     (\<forall>le \<in> set les. gm_get (en_leases e0) (lease_LeaseID le) = Some le \<and> lease_ExpiresAt le \<le> now) \<and>
     gm_get (en_leases e) = gm_get (en_leases e0) |` (- lease_LeaseID ` set les)"

lemma ended_snoc:
  assumes "ended now e0 les e" and "gm_get (en_leases e) l = Some le" and "lease_LeaseID le = l"
    and "lease_ExpiresAt le \<le> now" and "en_leases e2 = en_leases e"
  shows "ended now e0 (les @ [le]) (delete_lease l e2)"
proof -
  have "l \<notin> lease_LeaseID ` set les" "gm_get (en_leases e0) l = Some le"
    using assms(1,2) by (auto simp: ended_def restrict_map_def split: if_splits)
  with assms show ?thesis
    by (auto simp: ended_def delete_lease_def gomap_simps fun_eq_iff restrict_map_def)
qed

text \<open>The storage of a pass that has ended the leases \<open>les\<close> and moved the tasks of \<open>moved\<close>.\<close>

definition pass_storage ::
  "('b \<Rightarrow> aqueue) \<Rightarrow> (string \<Rightarrow> instant) \<Rightarrow> instant \<Rightarrow> ('b, 'j) Engine \<Rightarrow> lease list \<Rightarrow> lease list \<Rightarrow>
   ('b, 'j) Engine \<Rightarrow> bool" where
  "pass_storage absq wall now e0 les moved e \<longleftrightarrow>
     ended now e0 les e \<and> en_config e = en_config e0 \<and>
     absq (en_ready e) = expire_all (en_config e0) wall moved (absq (en_ready e0))"

context engine_contracts
begin

text \<open>A turn that tries to end a lease makes the transition of that lease in storage, whether or not the
  journal takes the record.\<close>

lemma reap_turn:
  assumes "inv e" and "heap_Pop (en_expirations e) = Some (it, h)"
    and "gm_get (en_leases e) (ei_LeaseID it) = Some le"
    and "can_reap room wall (abs (en_ready e))"
    and "expireLease ops app wall le (e\<lparr>en_expirations := h\<rparr>) = (res, e2)"
  shows "lease_LeaseID le = ei_LeaseID it"
    and "abs (en_ready e2) = snd (expire_spec (en_config e) wall le (abs (en_ready e)))"
    and "inv (delete_lease (ei_LeaseID it) e2)"
    and "en_leases e2 = en_leases e" and "en_config e2 = en_config e" and "can_reap room wall (abs (en_ready e2))"
proof -
  have st: "store (e\<lparr>en_expirations := h\<rparr>)" and lok: "leases_ok e"
    using assms(1) by (auto simp: engine_inv_def intro: store_cong)
  show id: "lease_LeaseID le = ei_LeaseID it" using leases_ok_id [OF lok assms(3)] .
  note ex = expireLease_store [OF st _ id _ assms(5)] and fr = expireLease_frame [OF assms(5)]
  show "abs (en_ready e2) = snd (expire_spec (en_config e) wall le (abs (en_ready e)))"
    and "can_reap room wall (abs (en_ready e2))"
    using ex(3,4) assms(3,4) by simp_all
  show "inv (delete_lease (ei_LeaseID it) e2)"
    using ex(1,2) assms(3,4) leases_ok_pop_delete [OF lok assms(2), of e2] fr
    by (simp add: engine_inv_def store_delete)
  show "en_leases e2 = en_leases e" and "en_config e2 = en_config e" using fr by simp_all
qed

lemma reap_loop_storage:
  assumes "reap_loop ops app wall now 0 e = ((m, err), e')" and "inv e"
    and "can_reap room wall (abs (en_ready e))"
  shows "\<exists>les. length les = m \<and>
    (if err = None then pass_storage abs wall now e les les e'
     else \<exists>le. gm_get (en_leases e') (lease_LeaseID le) = Some le \<and> lease_ExpiresAt le \<le> now \<and>
       pass_storage abs wall now e les (les @ [le]) e')"
proof -
  let ?I = "\<lambda>n e1. inv e1 \<and> can_reap room wall (abs (en_ready e1)) \<and> (\<exists>les. length les = n \<and> pass_storage abs wall now e les les e1)"
  let ?R = "\<lambda>n e1. \<exists>les le. length les = n \<and> gm_get (en_leases e1) (lease_LeaseID le) = Some le \<and>
    lease_ExpiresAt le \<le> now \<and> pass_storage abs wall now e les (les @ [le]) e1"
  have start: "?I 0 e" using assms(2,3) by (auto simp: pass_storage_def ended_def expire_all_def)
  have "if snd (m, err) = None
    then ?I (fst (m, err)) e' \<and> (\<forall>it. eh_peek (en_expirations e') = Some it \<longrightarrow> now < ei_ExpiresAt it)
    else ?R (fst (m, err)) e'"
  proof (rule reap_loop_rule [where I = ?I and R = ?R, OF assms(1) start])
    fix n e1 it h
    assume i: "?I n e1" and pop: "heap_Pop (en_expirations e1) = Some (it, h)"
    then obtain les where les: "length les = n" "pass_storage abs wall now e les les e1"
      and lok: "leases_ok e1" and ie: "inv e1" and cr: "can_reap room wall (abs (en_ready e1))" by (auto simp: engine_inv_def)
    show "?I n (e1\<lparr>en_expirations := h\<rparr>)" if "gm_get (en_leases e1) (ei_LeaseID it) = None"
      using i leases_ok_pop_absent [OF lok pop that]
      by (auto simp: engine_inv_def pass_storage_def ended_def intro: store_cong)
    fix le assume due: "ei_ExpiresAt it \<le> now" and le: "gm_get (en_leases e1) (ei_LeaseID it) = Some le"
    show "?I n (e1\<lparr>en_expirations := h\<rparr>)" if "now < lease_ExpiresAt le"
      using that due leases_ok_deadline [OF lok _ le] set_heap_Pop [OF pop] by auto
    fix e2 assume ld: "lease_ExpiresAt le \<le> now"
    show "?I (n + 1) (delete_lease (ei_LeaseID it) e2)"
      if ex: "expireLease ops app wall le (e1\<lparr>en_expirations := h\<rparr>) = (Inr (), e2)"
    proof -
      note t = reap_turn [OF ie pop le cr ex]
      have "pass_storage abs wall now e (les @ [le]) (les @ [le]) (delete_lease (ei_LeaseID it) e2)"
        using les(2) ended_snoc [OF _ le t(1) ld t(4), of e les] t(2,5)
        by (simp add: pass_storage_def expire_all_snoc delete_lease_def)
      with t(3,6) les(1) show ?thesis by (intro conjI exI [of _ "les @ [le]"]) (simp_all add: delete_lease_def)
    qed
    fix err
    show "?R n (e2\<lparr>en_expirations := heap_Push \<lparr>ei_LeaseID = ei_LeaseID it,
           ei_ExpiresAt = now + sint (cfg_RequeueRetryDelay (en_config e2))\<rparr> (en_expirations e2)\<rparr>)"
      if ex: "expireLease ops app wall le (e1\<lparr>en_expirations := h\<rparr>) = (Inl err, e2)"
      using reap_turn [OF ie pop le cr ex] les le ld
      by (intro exI [of _ les] exI [of _ le]) (simp add: pass_storage_def expire_all_snoc ended_def)
  qed
  then show ?thesis by (auto split: if_splits)
qed

end

end
