(* ===== verification/Engine_Methods.thy ===== *)
theory Engine_Methods
  imports Engine_Reaping
begin

text \<open>
  What \<open>Enqueue\<close>, \<open>Fetch\<close> and \<open>Ack\<close> do on every branch, in terms of the abstract queue, the lease map and
  the journal, over a reliable backend and a journal that keep their contracts.
\<close>

text \<open>The effect of one append on the journal of an engine.\<close>

definition journal_step ::
  "('j \<Rightarrow> wal_record list) \<Rightarrow> wal_record list \<Rightarrow> ('b, 'j) Engine \<Rightarrow> ('b, 'j) Engine \<Rightarrow> bool" where
  "journal_step records rs e e' \<longleftrightarrow>
     (case en_journal e of
        None \<Rightarrow> en_journal e' = None
      | Some j \<Rightarrow> \<exists>j'. en_journal e' = Some j' \<and> records j' = records j @ rs)"

lemma journal_step_ready:
  "journal_step records rs (e\<lparr>en_ready := b\<rparr>) e' = journal_step records rs e e'"
  "journal_step records rs e (delete_lease l e') = journal_step records rs e e'"
  by (simp_all add: journal_step_def delete_lease_def split: option.splits)

lemma engine_record_upd:
  assumes "engine_record app r (e\<lparr>en_ready := b\<rparr>) = (res, e1)"
  shows "en_ready e1 = b" and "e1 = e\<lparr>en_ready := en_ready e1, en_journal := en_journal e1\<rparr>"
    and "en_ready (delete_lease l e1) = b"
    and "delete_lease l e1 =
      (delete_lease l e)\<lparr>en_ready := en_ready (delete_lease l e1), en_journal := en_journal (delete_lease l e1)\<rparr>"
  using assms by (auto simp: engine_record_def delete_lease_def split: option.splits prod.splits)

text \<open>The lease a fetch builds.\<close>

definition new_lease :: "string \<Rightarrow> instant \<Rightarrow> duration \<Rightarrow> task \<Rightarrow> lease" where
  "new_lease uuid now timeout t =
     \<lparr>lease_LeaseID = uuid, lease_Task = t, lease_ExpiresAt = now + sint timeout, lease_CreatedAt = now\<rparr>"

text \<open>An engine that has not recovered refuses everything.\<close>

lemma unrecovered_refuses:
  assumes "en_recoveryErr e = Some err"
  shows "engine_Enqueue ops uuid p e = (Inl err, e)"
    and "engine_Fetch ops app uuid now timeout e = (Inl (if sint timeout \<le> 0 then ErrInvalidTimeout else err), e)"
    and "engine_Ack ops app l e = (Inl err, e)"
    and "engine_ReapExpired ops app wall now e = ((0, Some err), e)"
  using assms
  by (simp_all add: engine_Enqueue_def engine_Fetch_def engine_Ack_def engine_ReapExpired_def ensureRecovered_def)

context engine_contracts
begin

lemma record_step:
  assumes "engine_record app r e = (res, e')" and "\<forall>j. en_journal e = Some j \<longrightarrow> j_inv j" and "record_text r"
  shows "e' = e\<lparr>en_journal := en_journal e'\<rparr>"
    and "res = Inr () \<Longrightarrow> journal_step records [r] e e'"
    and "en_journal e = None \<Longrightarrow> res = Inr ()"
    and "journal_step records [] e e' \<or> journal_step records [r] e e'"
proof -
  show "e' = e\<lparr>en_journal := en_journal e'\<rparr>" and none: "en_journal e = None \<Longrightarrow> res = Inr ()"
    using assms(1) by (auto simp: engine_record_def split: option.splits prod.splits)
  have j: "app r j = (res, j') \<and> j_inv j" if "en_journal e = Some j" "en_journal e' = Some j'" for j j'
    using assms that by (auto simp: engine_record_def split: prod.splits)
  have some: "\<exists>j'. en_journal e' = Some j'" if "en_journal e = Some j" for j
    using assms(1) that by (auto simp: engine_record_def split: prod.splits)
  have nn: "en_journal e' = None" if "en_journal e = None"
    using assms(1) that by (auto simp: engine_record_def)
  show "res = Inr () \<Longrightarrow> journal_step records [r] e e'"
    using j some nn jn.append_ok [OF _ assms(3)] by (fastforce simp: journal_step_def split: option.splits)
  show "journal_step records [] e e' \<or> journal_step records [r] e e'"
    using j some nn jn.append_records [OF _ assms(3)] by (fastforce simp: journal_step_def split: option.splits)
qed

subsection \<open>Enqueue\<close>

lemma Enqueue_effect:
  assumes "inv e" and "en_recoveryErr e = None" and "engine_Enqueue ops uuid p e = (res, e')"
    and "id_text uuid"
  shows "res = Inr \<lparr>task_ID = uuid, task_Payload = p, task_Attempts = 0\<rparr>"
    and "abs (en_ready e') = (abs (en_ready e))\<lparr>aq_ready := aq_ready (abs (en_ready e)) @
           [\<lparr>task_ID = uuid, task_Payload = p, task_Attempts = 0\<rparr>]\<rparr>"
    and "e' = e\<lparr>en_ready := en_ready e'\<rparr>"
proof -
  let ?t = "\<lparr>task_ID = uuid, task_Payload = p, task_Attempts = 0\<rparr>"
  obtain r b where eq: "be_Enqueue ops ?t (en_ready e) = (r, b)" by fastforce
  have "b_inv (en_ready e)" using assms(1) by (simp add: engine_inv_def store_inv_def)
  from be.Enqueue [OF this _ _ eq] assms(4) have "r = Inr ()"
    "abs b = (abs (en_ready e))\<lparr>aq_ready := aq_ready (abs (en_ready e)) @ [?t]\<rparr>"
    by (auto simp: spec_Enqueue_def)
  with assms(2,3) eq show "res = Inr ?t"
    and "abs (en_ready e') = (abs (en_ready e))\<lparr>aq_ready := aq_ready (abs (en_ready e)) @ [?t]\<rparr>"
    and "e' = e\<lparr>en_ready := en_ready e'\<rparr>"
    by (auto simp: engine_Enqueue_def ensureRecovered_def Let_def)
qed

subsection \<open>Fetch\<close>

lemma Fetch_cases [consumes 5, case_names empty leased handed_back]:
  assumes "inv e" and "0 < sint timeout \<and> en_recoveryErr e = None"
    and "engine_Fetch ops app uuid now timeout e = (res, e')" and "id_text uuid" and "can_fetch room (abs (en_ready e))"
  obtains
    (empty) "aq_ready (abs (en_ready e)) = []" "res = Inl ErrQueueEmpty"
      "abs (en_ready e') = abs (en_ready e)" "e' = e\<lparr>en_ready := en_ready e'\<rparr>"
  | (leased) t ts where "aq_ready (abs (en_ready e)) = t # ts" "res = Inr (new_lease uuid now timeout t)"
      "abs (en_ready e') = snd (spec_Acquire uuid (abs (en_ready e)))"
      "e' = (install_lease (new_lease uuid now timeout t) e)\<lparr>en_ready := en_ready e', en_journal := en_journal e'\<rparr>"
      "journal_step records [fetch_record (new_lease uuid now timeout t)] e e'"
  | (handed_back) t ts err where "aq_ready (abs (en_ready e)) = t # ts" "res = Inl err"
      "abs (en_ready e') = (abs (en_ready e))\<lparr>aq_ready := ts @ [bump_attempts t],
         aq_proc := (aq_proc (abs (en_ready e)))(task_ID t := None)\<rparr>"
      "e' = e\<lparr>en_ready := en_ready e', en_journal := en_journal e'\<rparr>" "en_journal e \<noteq> None"
      "journal_step records [] e e' \<or> journal_step records [fetch_record (new_lease uuid now timeout t)] e e'"
proof -
  obtain ra b where acq: "be_Acquire ops uuid (en_ready e) = (ra, b)" by fastforce
  have st: "store e" and bi: "b_inv (en_ready e)" using assms(1) by (auto simp: engine_inv_def store_inv_def)
  from be.Acquire [OF bi assms(4) acq] have b: "b_inv b" "(ra, abs b) = spec_Acquire uuid (abs (en_ready e))" by auto
  have go: "\<not> sint timeout \<le> 0" "en_recoveryErr e = None" using assms(2) by auto
  show thesis
  proof (cases "aq_ready (abs (en_ready e))")
    case Nil
    with b(2) have "ra = Inl ErrQueueEmpty" "abs b = abs (en_ready e)" by (auto simp: spec_Acquire_def)
    with assms(3) go acq Nil show thesis
      by (intro empty) (auto simp: engine_Fetch_def ensureRecovered_def)
  next
    case (Cons t ts)
    with b(2) have ra: "ra = Inr t" and sb: "abs b = snd (spec_Acquire uuid (abs (en_ready e)))"
      by (auto simp: spec_Acquire_def)
    let ?l = "new_lease uuid now timeout t"
    obtain rr e1 where rec: "engine_record app (fetch_record ?l) (e\<lparr>en_ready := b\<rparr>) = (rr, e1)" by fastforce
    have e1: "e1 = e\<lparr>en_ready := b, en_journal := en_journal e1\<rparr>"
      using rec by (auto simp: engine_record_def split: option.splits prod.splits)
    have "task_ID t \<in># task_ids (abs (en_ready e))" by (simp add: task_ids_def Cons)
    then have rt: "record_text (fetch_record ?l)"
      using st id_text_valid [OF assms(4)] by (auto simp: store_inv_def texts_ok_def record_text_def fetch_record_def new_lease_def)
    have "\<forall>j. en_journal (e\<lparr>en_ready := b\<rparr>) = Some j \<longrightarrow> j_inv j" using st by (simp add: store_inv_def)
    note rs = record_step [OF rec this rt]
    have js: "journal_step records rs (e\<lparr>en_ready := b\<rparr>) e1 \<Longrightarrow> en_journal e' = en_journal e1 \<Longrightarrow>
        journal_step records rs e e'" for rs
      by (simp add: journal_step_def split: option.splits)
    show thesis
    proof (cases rr)
      case (Inr u)
      then have "res = Inr ?l" "e' = install_lease ?l e1"
        using assms(3) go acq ra rec by (auto simp: engine_Fetch_def ensureRecovered_def Let_def new_lease_def)
      moreover have "install_lease ?l e1 = (install_lease ?l e)\<lparr>en_ready := b, en_journal := en_journal e1\<rparr>"
        by (subst e1) (simp add: install_lease_def)
      ultimately show thesis
        using Cons sb Inr rs(2) js by (intro leased) auto
    next
      case (Inl err)
      obtain rq b' where rq: "be_Requeue ops (task_ID t) uuid b = (rq, b')" by fastforce
      have "can_bump room (task_ID t) (abs b)"
        using assms(5) by (simp add: can_bump_def can_fetch_def sb spec_Acquire_def Cons)
      from be.Requeue [OF b(1) this rq] have "(rq, abs b') = spec_Requeue (task_ID t) uuid (abs b)" by auto
      then have b': "abs b' = (abs (en_ready e))\<lparr>aq_ready := ts @ [bump_attempts t],
          aq_proc := (aq_proc (abs (en_ready e)))(task_ID t := None)\<rparr>"
        by (simp add: spec_Requeue_def fence_check_def sb spec_Acquire_def Cons drop_proc_def)
      have "en_ready e1 = b" by (subst e1) simp
      then have "\<exists>err. res = Inl err" "e' = e1\<lparr>en_ready := b'\<rparr>"
        using assms(3) go acq ra rec Inl rq
        by (auto simp: engine_Fetch_def ensureRecovered_def Let_def new_lease_def split: sum.splits)
      moreover have "e1\<lparr>en_ready := b'\<rparr> = e\<lparr>en_ready := b', en_journal := en_journal e1\<rparr>"
        by (subst e1) simp
      moreover have "en_journal e \<noteq> None" using rs(3) Inl by auto
      ultimately show thesis
        using Cons b' rs(4) js by (elim exE, intro handed_back) auto
    qed
  qed
qed

subsection \<open>Ack\<close>

lemma Ack_cases [consumes 3, case_names unknown acked unrecorded stale stale_unrecorded]:
  assumes "inv e" and "en_recoveryErr e = None" and "engine_Ack ops app l e = (res, e')"
  obtains
    (unknown) "gm_get (en_leases e) l = None" "res = Inl ErrLeaseNotFound" "e' = e"
  | (acked) le t where "gm_get (en_leases e) l = Some le"
      "aq_proc (abs (en_ready e)) (task_ID (lease_Task le)) = Some (t, l)" "res = Inr ()"
      "abs (en_ready e') = drop_proc (task_ID (lease_Task le)) (abs (en_ready e))"
      "e' = (delete_lease l e)\<lparr>en_ready := en_ready e', en_journal := en_journal e'\<rparr>"
      "journal_step records [close_record OpAck l] e e'"
  | (unrecorded) le t err where "gm_get (en_leases e) l = Some le"
      "aq_proc (abs (en_ready e)) (task_ID (lease_Task le)) = Some (t, l)" "res = Inl err"
      "abs (en_ready e') = drop_proc (task_ID (lease_Task le)) (abs (en_ready e))"
      "e' = e\<lparr>en_ready := en_ready e', en_journal := en_journal e'\<rparr>" "en_journal e \<noteq> None"
      "journal_step records [] e e' \<or> journal_step records [close_record OpAck l] e e'"
  | (stale) le where "gm_get (en_leases e) l = Some le"
      "\<And>t. aq_proc (abs (en_ready e)) (task_ID (lease_Task le)) \<noteq> Some (t, l)" "res = Inl ErrLeaseNotFound"
      "abs (en_ready e') = abs (en_ready e)"
      "e' = (delete_lease l e)\<lparr>en_ready := en_ready e', en_journal := en_journal e'\<rparr>"
      "journal_step records [close_record OpStale l] e e'"
  | (stale_unrecorded) le err where "gm_get (en_leases e) l = Some le"
      "\<And>t. aq_proc (abs (en_ready e)) (task_ID (lease_Task le)) \<noteq> Some (t, l)" "res = Inl err"
      "abs (en_ready e') = abs (en_ready e)"
      "e' = e\<lparr>en_ready := en_ready e', en_journal := en_journal e'\<rparr>" "en_journal e \<noteq> None"
      "journal_step records [] e e' \<or> journal_step records [close_record OpStale l] e e'"
proof (cases "gm_get (en_leases e) l")
  case None
  with assms(2,3) show thesis by (intro unknown) (auto simp: engine_Ack_def ensureRecovered_def)
next
  case (Some le)
  have ok: "leases_ok e" "store e" "b_inv (en_ready e)" using assms(1) by (auto simp: engine_inv_def store_inv_def)
  have id: "lease_LeaseID le = l" using leases_ok_id [OF ok(1) Some] .
  obtain r b where c: "be_Complete ops (task_ID (lease_Task le)) l (en_ready e) = (r, b)" by fastforce
  from be.Complete [OF ok(3) c] have sp: "spec_Complete (task_ID (lease_Task le)) l (abs (en_ready e)) = (r, abs b)" by simp
  note unf = assms(3) [unfolded engine_Ack_def ensureRecovered_def assms(2) Some option.case id c prod.case]
  have ji: "\<forall>j. en_journal (e\<lparr>en_ready := b\<rparr>) = Some j \<longrightarrow> j_inv j" using ok(2) by (simp add: store_inv_def)
  have rt: "record_text (close_record OpAck l)" "record_text (close_record OpStale l)"
    using ok(2) Some by (auto simp: store_inv_def record_text_close intro: texts_ok_lease)
  show thesis
  proof (cases r)
    case (Inr u)
    with sp obtain t where t: "aq_proc (abs (en_ready e)) (task_ID (lease_Task le)) = Some (t, l)"
      "abs b = drop_proc (task_ID (lease_Task le)) (abs (en_ready e))" by (auto simp: spec_Complete_cases)
    obtain rr e1 where rec: "engine_record app (close_record OpAck l) (e\<lparr>en_ready := b\<rparr>) = (rr, e1)" by fastforce
    note rs = record_step [OF rec ji rt(1), unfolded journal_step_ready] and up = engine_record_upd [OF rec]
    show thesis
    proof (cases rr)
      case (Inl err)
      have e': "e' = e1" "res = Inl err" using unf Inr rec Inl by auto
      have "en_journal e \<noteq> None" using rs(3) Inl by auto
      with e'(2) t(2) up(1,2) rs(4) show thesis
        by (intro unrecorded [OF Some t(1)]) (simp_all only: e'(1), simp)
    next
      case (Inr u')
      have e': "e' = delete_lease l e1" "res = Inr ()" using unf \<open>r = Inr u\<close> rec Inr by auto
      with t(2) up(3,4) rs(2) Inr show thesis
        by (intro acked [OF Some t(1)]) (simp_all only: e' journal_step_ready, simp)
    qed
  next
    case (Inl err)
    with sp have t: "fence_check (task_ID (lease_Task le)) l (abs (en_ready e)) = Inl err" "abs b = abs (en_ready e)"
      by (auto simp: spec_Complete_cases)
    then have no: "aq_proc (abs (en_ready e)) (task_ID (lease_Task le)) \<noteq> Some (t, l)" for t
      by (auto simp: fence_check_Inl)
    obtain rr e1 where rec: "engine_record app (close_record OpStale l) (e\<lparr>en_ready := b\<rparr>) = (rr, e1)" by fastforce
    note rs = record_step [OF rec ji rt(2), unfolded journal_step_ready] and up = engine_record_upd [OF rec]
      and verdict = fence_check_stale [OF t(1)]
    show thesis
    proof (cases rr)
      case (Inl err')
      have e': "e' = e1" "res = Inl err'" using unf \<open>r = Inl err\<close> rec Inl verdict by auto
      have "en_journal e \<noteq> None" using rs(3) Inl by auto
      with e'(2) t(2) up(1,2) rs(4) show thesis
        by (intro stale_unrecorded [OF Some no]) (simp_all only: e'(1), simp)
    next
      case (Inr u')
      have e': "e' = delete_lease l e1" "res = Inl ErrLeaseNotFound" using unf \<open>r = Inl err\<close> rec Inr verdict by auto
      with t(2) up(3,4) rs(2) Inr show thesis
        by (intro stale [OF Some no]) (simp_all only: e' journal_step_ready, simp)
    qed
  qed
qed

end

end
