(* ===== verification/Engine_Runs.thy ===== *)
theory Engine_Runs
  imports Engine_Methods
begin

text \<open>
  Whole lifetimes of a queue: boot, any sequence of \<open>Enqueue\<close>, \<open>Fetch\<close>, \<open>Ack\<close> and \<open>ReapExpired\<close>, and
  crashes, each at any of the boundaries between a backend transition and the journal record that follows
  it, with a restart on what storage and journal then hold.
\<close>

section \<open>Distinct tasks\<close>

definition aq_distinct :: "aqueue \<Rightarrow> bool" where
  "aq_distinct q \<longleftrightarrow> (\<forall>x. count (task_ids q) x \<le> 1)"

lemma aq_distinct_head:
  assumes "aq_wf q" and "aq_distinct q" and "aq_ready q = t # ts"
  shows "aq_proc q (task_ID t) = None"
proof (rule ccontr)
  assume "aq_proc q (task_ID t) \<noteq> None"
  then have "task_ID t \<in> dom (aq_proc q)" and "finite (dom (aq_proc q))"
    using assms(1) by (auto simp: aq_wf_def)
  then have "count (mset_set (dom (aq_proc q))) (task_ID t) = 1" by simp
  then have "2 \<le> count (task_ids q) (task_ID t)"
    using assms(3) by (simp add: task_ids_def)
  then show False using assms(2) unfolding aq_distinct_def by (metis Suc_1 not_less_eq_eq)
qed

section \<open>Crashes\<close>

text \<open>One turn of the reaper's loop that ends a lease, or drops the item of a lease that is gone.\<close>

inductive reap_turn_step ::
  "'b backend_ops \<Rightarrow> 'j appender \<Rightarrow> (string \<Rightarrow> instant) \<Rightarrow> ('b, 'j) Engine \<Rightarrow> ('b, 'j) Engine \<Rightarrow> bool"
  for ops :: "'b backend_ops" and app :: "'j appender" and wall :: "string \<Rightarrow> instant" where
  dropped: "heap_Pop (en_expirations e) = Some (it, h) \<Longrightarrow> gm_get (en_leases e) (ei_LeaseID it) = None \<Longrightarrow>
     reap_turn_step ops app wall e (e\<lparr>en_expirations := h\<rparr>)"
| ended: "heap_Pop (en_expirations e) = Some (it, h) \<Longrightarrow> gm_get (en_leases e) (ei_LeaseID it) = Some le \<Longrightarrow>
     expireLease ops app wall le (e\<lparr>en_expirations := h\<rparr>) = (Inr (), e') \<Longrightarrow>
     reap_turn_step ops app wall e (delete_lease (ei_LeaseID it) e')"

text \<open>\<open>crash_point ops absq room app e b j done\<close>: a process that runs the engine \<open>e\<close> can die with the storage \<open>b\<close> and
  the journal \<open>j\<close> on disk; \<open>done\<close> holds the task an interrupted acknowledgement has completed.\<close>

inductive crash_point ::
  "'b backend_ops \<Rightarrow> ('b \<Rightarrow> aqueue) \<Rightarrow> (task \<Rightarrow> bool) \<Rightarrow> 'j appender \<Rightarrow> ('b, 'j) Engine \<Rightarrow> 'b \<Rightarrow> 'j \<Rightarrow>
   string multiset \<Rightarrow> bool"
  for ops :: "'b backend_ops" and absq room and app :: "'j appender" where
  between: "en_journal e = Some j \<Longrightarrow> crash_point ops absq room app e (en_ready e) j {#}"
| acquired: "en_recoveryErr e = None \<Longrightarrow> en_journal e = Some j \<Longrightarrow> uuid \<notin> ei_LeaseID ` set (en_expirations e) \<Longrightarrow>
     id_text uuid \<Longrightarrow> be_Acquire ops uuid (en_ready e) = (Inr t, b) \<Longrightarrow>
     crash_point ops absq room app e b j {#}"
| fetch_recorded: "en_recoveryErr e = None \<Longrightarrow> en_journal e = Some j \<Longrightarrow> uuid \<notin> ei_LeaseID ` set (en_expirations e) \<Longrightarrow>
     id_text uuid \<Longrightarrow> be_Acquire ops uuid (en_ready e) = (Inr t, b) \<Longrightarrow>
     app (fetch_record (new_lease uuid now timeout t)) j = (r, j') \<Longrightarrow> crash_point ops absq room app e b j' {#}"
| completed: "en_recoveryErr e = None \<Longrightarrow> en_journal e = Some j \<Longrightarrow>
     gm_get (en_leases e) l = Some le \<Longrightarrow>
     be_Complete ops (task_ID (lease_Task le)) (lease_LeaseID le) (en_ready e) = (r, b) \<Longrightarrow>
     crash_point ops absq room app e b j (if r = Inr () then {#task_ID (lease_Task le)#} else {#})"
| ack_recorded: "en_recoveryErr e = None \<Longrightarrow> en_journal e = Some j \<Longrightarrow>
     gm_get (en_leases e) l = Some le \<Longrightarrow>
     be_Complete ops (task_ID (lease_Task le)) (lease_LeaseID le) (en_ready e) = (r, b) \<Longrightarrow>
     app (close_record (if r = Inr () then OpAck else OpStale) l) j = (r', j') \<Longrightarrow>
     crash_point ops absq room app e b j' (if r = Inr () then {#task_ID (lease_Task le)#} else {#})"
| reaping: "en_recoveryErr e = None \<Longrightarrow> can_reap room wall (absq (en_ready e)) \<Longrightarrow>
     (reap_turn_step ops app wall)\<^sup>*\<^sup>* e e1 \<Longrightarrow> en_journal e1 = Some j \<Longrightarrow>
     crash_point ops absq room app e (en_ready e1) j {#}"
| moved: "en_recoveryErr e = None \<Longrightarrow> can_reap room wall (absq (en_ready e)) \<Longrightarrow>
     (reap_turn_step ops app wall)\<^sup>*\<^sup>* e e1 \<Longrightarrow> en_journal e1 = Some j \<Longrightarrow>
     gm_get (en_leases e1) l = Some le \<Longrightarrow>
     (if shouldDeadLetter (en_config e1) le
      then be_DeadLetter ops (task_ID (lease_Task le)) (lease_LeaseID le) ''max attempts exceeded''
             (wall (lease_LeaseID le)) (en_ready e1)
      else be_Requeue ops (task_ID (lease_Task le)) (lease_LeaseID le) (en_ready e1)) = (r, b) \<Longrightarrow>
     crash_point ops absq room app e b j {#}"

section \<open>Runs\<close>

text \<open>\<open>engine_run \<dots> E C T e\<close>: \<open>e\<close> is the engine after a run in which the tasks \<open>E\<close> have been put into the
  queue and the tasks \<open>C\<close> have been completed; the last pass of the reaper was at \<open>T\<close>. The ids a run takes
  from \<open>uuid.NewString\<close> are valid text and new: a task id is none of \<open>E\<close>, a lease id is in no heap item. A
  run starts on storage and journal records whose ids are valid text. No attempt counter exceeds what the
  storage can count (\<open>room\<close>), and the clock shows years of four digits.\<close>

definition ack_completes :: "('b \<Rightarrow> aqueue) \<Rightarrow> string \<Rightarrow> ('b, 'j) Engine \<Rightarrow> string multiset" where
  "ack_completes absq l e =
     (case gm_get (en_leases e) l of
        None \<Rightarrow> {#}
      | Some le \<Rightarrow>
          (case aq_proc (absq (en_ready e)) (task_ID (lease_Task le)) of
             None \<Rightarrow> {#}
           | Some (t, l') \<Rightarrow> if l' = l then {#task_ID (lease_Task le)#} else {#}))"

inductive engine_run ::
  "'b backend_ops \<Rightarrow> ('b \<Rightarrow> aqueue) \<Rightarrow> ('b \<Rightarrow> bool) \<Rightarrow> (task \<Rightarrow> bool) \<Rightarrow> 'j appender \<Rightarrow> ('j \<Rightarrow> wal_record list) \<Rightarrow>
   ('j \<Rightarrow> bool) \<Rightarrow> string multiset \<Rightarrow> string multiset \<Rightarrow> instant \<Rightarrow> ('b, 'j) Engine \<Rightarrow> bool"
  for ops :: "'b backend_ops" and absq b_inv room and app :: "'j appender" and records j_inv where
  boot: "b_inv b \<Longrightarrow> aq_distinct (absq b) \<Longrightarrow> \<forall>x \<in># task_ids (absq b). utf8_valid x \<Longrightarrow> list_all record_text rs \<Longrightarrow>
     (\<And>i. range_order (ord i)) \<Longrightarrow>
     \<forall>j. journal = Some j \<longrightarrow> j_inv j \<and> records j = rs \<Longrightarrow>
     e = newEngine ops app ord config journal rs b \<Longrightarrow>
     engine_run ops absq b_inv room app records j_inv (task_ids (absq b)) {#} T e"
| enqueue: "engine_run ops absq b_inv room app records j_inv E C T e \<Longrightarrow> uuid \<notin># E \<Longrightarrow> id_text uuid \<Longrightarrow>
     engine_Enqueue ops uuid p e = (Inr t, e') \<Longrightarrow>
     engine_run ops absq b_inv room app records j_inv (add_mset uuid E) C T e'"
| fetch: "engine_run ops absq b_inv room app records j_inv E C T e \<Longrightarrow>
     uuid \<notin> ei_LeaseID ` set (en_expirations e) \<Longrightarrow> id_text uuid \<Longrightarrow> can_fetch room (absq (en_ready e)) \<Longrightarrow>
     engine_Fetch ops app uuid now timeout e = (rf, e') \<Longrightarrow>
     engine_run ops absq b_inv room app records j_inv E C T e'"
| ack: "engine_run ops absq b_inv room app records j_inv E C T e \<Longrightarrow> engine_Ack ops app l e = (ra, e') \<Longrightarrow>
     engine_run ops absq b_inv room app records j_inv E
       (C + (if en_recoveryErr e = None then ack_completes absq l e else {#})) T e'"
| reap: "engine_run ops absq b_inv room app records j_inv E C T e \<Longrightarrow> T \<le> now \<Longrightarrow>
     can_reap room wall (absq (en_ready e)) \<Longrightarrow> engine_ReapExpired ops app wall now e = (rr, e') \<Longrightarrow>
     engine_run ops absq b_inv room app records j_inv E C now e'"
| restart: "engine_run ops absq b_inv room app records j_inv E C T e \<Longrightarrow> crash_point ops absq room app e b j K \<Longrightarrow>
     j_inv j' \<Longrightarrow> records j' = records j \<Longrightarrow> (\<And>i. range_order (ord i)) \<Longrightarrow>
     e' = newEngine ops app ord config (Some j') (records j') b \<Longrightarrow>
     engine_run ops absq b_inv room app records j_inv E (C + K) T e'"

section \<open>What every run keeps\<close>

lemma restrict_map_superset: "dom m \<subseteq> A \<Longrightarrow> m |` A = m"
proof
  fix x assume "dom m \<subseteq> A"
  then have "m x = None" if "x \<notin> A" using that by (metis domIff subsetD)
  then show "(m |` A) x = m x" by (cases "x \<in> A") simp_all
qed

lemma timely_heap:
  assumes "timely prev e" and "gm_get (en_leases e') \<subseteq>\<^sub>m gm_get (en_leases e)"
    and "set (en_expirations e) \<subseteq> set (en_expirations e')" and "en_config e' = en_config e" and "prev \<le> now"
  shows "timely now e'"
  unfolding timely_def
proof (intro allI impI)
  fix l le assume "gm_get (en_leases e') l = Some le"
  with assms(2) have "gm_get (en_leases e) l = Some le" by (rule map_le_get)
  then obtain it where "it \<in> set (en_expirations e)" "ei_LeaseID it = l"
    "ei_ExpiresAt it \<le> max (lease_ExpiresAt le) (prev + sint (cfg_RequeueRetryDelay (en_config e)))"
    using assms(1) unfolding timely_def by blast
  with assms(3-5) show "\<exists>it \<in> set (en_expirations e'). ei_LeaseID it = l \<and>
      ei_ExpiresAt it \<le> max (lease_ExpiresAt le) (now + sint (cfg_RequeueRetryDelay (en_config e')))"
    by (intro bexI [of _ it]) auto
qed

lemma timely_install:
  assumes "timely prev e"
  shows "timely prev (install_lease l e)"
  using assms unfolding timely_def install_lease_sel by (auto simp: install_lease_sel intro: bexI [of _ "lease_item l"])

lemma timely_cong:
  "timely prev e \<Longrightarrow> en_leases e' = en_leases e \<Longrightarrow> en_expirations e' = en_expirations e \<Longrightarrow>
   en_config e' = en_config e \<Longrightarrow> timely prev e'"
  by (simp add: timely_def)

lemma task_ids_drop:
  assumes "aq_wf q" and "aq_proc q tid = Some (t, l)"
  shows "task_ids q = add_mset tid (task_ids (drop_proc tid q))"
  using mset_set_dom_remove [of "aq_proc q" tid] assms by (simp add: task_ids_def aq_wf_def)

lemma task_ids_back:
  assumes "aq_ready q = t # ts" and "aq_proc q (task_ID t) = None"
  shows "task_ids (q\<lparr>aq_ready := ts @ [bump_attempts t], aq_proc := (aq_proc q)(task_ID t := None)\<rparr>) = task_ids q"
  using assms by (simp add: task_ids_def fun_upd_idem)

lemma aq_distinct_sub: "task_ids q + C = E \<Longrightarrow> \<forall>x. count E x \<le> 1 \<Longrightarrow> aq_distinct q"
  unfolding aq_distinct_def by (metis count_union le_add1 order_trans)

lemma expire_spec_proc: "aq_proc (snd (expire_spec config wall le q)) \<subseteq>\<^sub>m aq_proc q"
proof -
  obtain r q' where "expire_spec config wall le q = (r, q')" by fastforce
  with expire_spec_cases [of r q' config wall le q] show ?thesis
    by (auto simp: map_le_fun_upd_None map_le_refl)
qed

text \<open>A fence nobody holds yet, and a record of it, do not touch what the journal must know.\<close>

lemma leases_ok_fresh:
  "leases_ok e \<Longrightarrow> uuid \<notin> ei_LeaseID ` set (en_expirations e) \<Longrightarrow> gm_get (en_leases e) uuid = None"
  by (auto simp: leases_ok_def dom_def subset_iff)

lemma journalled_acquire:
  assumes "leases_ok e" and "journalled rs (en_leases e) q" and "uuid \<notin> ei_LeaseID ` set (en_expirations e)"
    and "(r, q') = spec_Acquire uuid q"
  shows "journalled rs (en_leases e) q'"
  using assms(2,4) leases_ok_fresh [OF assms(1,3)]
  by (auto simp: journalled_def spec_Acquire_def split: list.splits if_splits)

lemma journalled_fresh:
  assumes "journalled rs (en_leases e) q" and "leases_ok e" and "uuid \<notin> ei_LeaseID ` set (en_expirations e)"
    and "wr_LeaseID r = uuid"
  shows "journalled (rs @ [r]) (en_leases e) q"
  using assms(1,4) leases_ok_fresh [OF assms(2,3)] by (auto simp: journalled_def Live_snoc live_step_get)

lemma journalled_more:
  assumes "journalled rs leases1 q" and "covers leases1 q" and "gm_get leases1 \<subseteq>\<^sub>m gm_get leases"
  shows "journalled rs leases q"
  unfolding journalled_def
proof (intro allI impI)
  fix tid t l le assume p: "aq_proc q tid = Some (t, l)" and le: "gm_get leases l = Some le"
  from assms(2) p obtain le1 where "gm_get leases1 l = Some le1" unfolding covers_def by blast
  moreover from this have "le1 = le" using map_le_get [OF assms(3)] le by fastforce
  ultimately show "gm_get (Live rs) l = Some (fetch_record le) \<and> task_ID (lease_Task le) = tid" using assms(1) p by (simp add: journalled_def)
qed

text \<open>The state of a run: storage and journal are well formed, every task ever put into the queue is
  either completed or in storage, once, and an engine that has recovered keeps its invariant.\<close>

definition run_state ::
  "('b \<Rightarrow> aqueue) \<Rightarrow> ('b \<Rightarrow> bool) \<Rightarrow> ('j \<Rightarrow> wal_record list) \<Rightarrow> ('j \<Rightarrow> bool) \<Rightarrow>
   string multiset \<Rightarrow> string multiset \<Rightarrow> instant \<Rightarrow> ('b, 'j) Engine \<Rightarrow> bool" where
  "run_state absq b_inv records j_inv E C T e \<longleftrightarrow>
     b_inv (en_ready e) \<and> (\<forall>j. en_journal e = Some j \<longrightarrow> j_inv j) \<and>
     task_ids (absq (en_ready e)) + C = E \<and> (\<forall>x. count E x \<le> 1) \<and> (\<forall>x \<in># E. utf8_valid x) \<and>
     (en_recoveryErr e = None \<longrightarrow> engine_inv absq b_inv records j_inv e \<and> timely T e)"

context engine_contracts
begin

abbreviation run :: "string multiset \<Rightarrow> string multiset \<Rightarrow> instant \<Rightarrow> ('b, 'j) Engine \<Rightarrow> bool" where
  "run \<equiv> run_state abs b_inv records j_inv"

lemma newEngine_timely:
  assumes "e' = newEngine ops app ord config journal rs b" and "b_inv b" and "\<And>i. range_order (ord i)"
    and "\<forall>j. journal = Some j \<longrightarrow> j_inv j \<and> records j = rs" and "en_recoveryErr e' = None"
  shows "timely T e'"
proof -
  note nl = rc.newEngine_leases [OF assms]
  have "lease_item le \<in> set (en_expirations e') \<and> lease_LeaseID le = l" if "gm_get (en_leases e') l = Some le" for l le
    using that nl leases_ok_id [OF nl(3) that] by (auto simp: ran_def)
  then show ?thesis unfolding timely_def by (fastforce intro: bexI [of _ "lease_item _"])
qed

lemma Acquire_ids:
  assumes "b_inv b0" and "aq_distinct (abs b0)" and "id_text uuid" and "be_Acquire ops uuid b0 = (r, b)"
  shows "b_inv b \<and> task_ids (abs b) = task_ids (abs b0)"
proof -
  have wf: "aq_wf (abs b0)" using assms(1) by (rule be.invar_wf)
  have "b_inv b" and ab: "abs b = snd (spec_Acquire uuid (abs b0))"
    using be.Acquire [OF assms(1,3,4)] by (auto simp: eq_commute [of "(r, abs b)"])
  moreover have "task_ids (snd (spec_Acquire uuid (abs b0))) = task_ids (abs b0)"
    by (rule task_ids_Acquire [OF wf]) (rule aq_distinct_head [OF wf assms(2)])
  ultimately show ?thesis by simp
qed

lemma Complete_ids:
  assumes "b_inv b0" and "be_Complete ops tid l b0 = (r, b)"
  shows "b_inv b \<and> task_ids (abs b) + (if r = Inr () then {#tid#} else {#}) = task_ids (abs b0)"
proof -
  have "b_inv b" and "spec_Complete tid l (abs b0) = (r, abs b)"
    using be.Complete [OF assms] by auto
  then show ?thesis
    using task_ids_drop [OF be.invar_wf [OF assms(1)], of tid] by (auto simp: spec_Complete_cases)
qed

lemma inv_parts:
  "inv e \<Longrightarrow> leases_ok e" "inv e \<Longrightarrow> b_inv (en_ready e)" "inv e \<Longrightarrow> covers (en_leases e) (abs (en_ready e))"
  by (simp_all add: engine_inv_def store_inv_def)

lemma inv_journal:
  "inv e \<Longrightarrow> en_journal e = Some j \<Longrightarrow> j_inv j"
  "inv e \<Longrightarrow> en_journal e = Some j \<Longrightarrow> journalled (records j) (en_leases e) (abs (en_ready e))"
  by (simp_all add: engine_inv_def store_inv_def)

text \<open>The turns of a pass keep the invariant, the tasks, and what is left of leases and fences.\<close>

lemma reap_turns:
  assumes "(reap_turn_step ops app wall)\<^sup>*\<^sup>* e e1" and "inv e" and "can_reap room wall (abs (en_ready e))"
  shows "inv e1 \<and> task_ids (abs (en_ready e1)) = task_ids (abs (en_ready e)) \<and>
    gm_get (en_leases e1) \<subseteq>\<^sub>m gm_get (en_leases e) \<and> aq_proc (abs (en_ready e1)) \<subseteq>\<^sub>m aq_proc (abs (en_ready e))"
  using assms
proof (induction rule: rtranclp_induct)
  case (step e1 e2)
  then have inv: "inv e1" by blast
  then have bi: "b_inv (en_ready e1)" by (auto simp: engine_inv_def store_inv_def)
  from step.hyps(2) have "inv e2 \<and> task_ids (abs (en_ready e2)) = task_ids (abs (en_ready e1)) \<and>
    gm_get (en_leases e2) \<subseteq>\<^sub>m gm_get (en_leases e1) \<and> aq_proc (abs (en_ready e2)) \<subseteq>\<^sub>m aq_proc (abs (en_ready e1))"
  proof cases
    case (dropped it h)
    then show ?thesis
      using inv leases_ok_pop_absent [OF _ dropped(2,3)] by (auto simp: engine_inv_def intro: store_cong)
  next
    case (ended it h le e3)
    have "can_reap room wall (abs (en_ready e1))" using step.IH step.prems can_reap_map_le by blast
    note t = reap_turn [OF inv ended(2,3) this ended(4)]
    have "aq_proc (abs (en_ready e3)) \<subseteq>\<^sub>m aq_proc (abs (en_ready e1))"
      unfolding t(2) by (rule expire_spec_proc)
    with t task_ids_expire [OF be.invar_wf [OF bi]] ended(1)
    show ?thesis by (simp add: delete_lease_def gomap_simps map_le_def)
  qed
  with step show ?case by (auto intro: map_le_trans)
qed (simp add: map_le_refl)

text \<open>Whatever a crash interrupts, storage and journal are well formed and no task is lost: the tasks in
  storage are those from before, less the one an acknowledgement has completed. And every lease whose
  task is still in processing storage is in the journal as it is.\<close>

text \<open>The storage at the crash points inside an operation.\<close>

lemma fetch_recorded_storage:
  assumes inv: "inv e" and dist: "aq_distinct (abs (en_ready e))" and j0: "en_journal e = Some j0"
    and fresh: "uuid \<notin> ei_LeaseID ` set (en_expirations e)" and idt: "id_text uuid"
    and acq: "be_Acquire ops uuid (en_ready e) = (Inr t, b)"
    and ap: "app (fetch_record (new_lease uuid now timeout t)) j0 = (r, j)"
  shows "b_inv b \<and> j_inv j \<and> task_ids (abs b) = task_ids (abs (en_ready e)) \<and>
    journalled (records j) (en_leases e) (abs b)"
proof -
  have st: "store e" and lok: "leases_ok e" using inv by (auto simp: engine_inv_def)
  note bi = inv_parts(2) [OF inv] and ij = inv_journal [OF inv j0]
  have rt: "record_text (fetch_record (new_lease uuid now timeout t))"
    using st Acquire_effect(5) [OF st lok idt fresh acq] id_text_valid [OF idt]
    by (auto simp: store_inv_def texts_ok_def record_text_def fetch_record_def new_lease_def)
  note ar = jn.append_records [OF ij(1) rt ap]
  have jr: "journalled (records j0) (en_leases e) (abs b)"
    using journalled_acquire [OF lok ij(2) fresh] conjunct2 [OF be.Acquire [OF bi idt acq]] by blast
  have "journalled (records j0 @ [fetch_record (new_lease uuid now timeout t)]) (en_leases e) (abs b)"
    by (rule journalled_fresh [OF jr lok fresh]) (simp add: fetch_record_def new_lease_def)
  with jr ar Acquire_ids [OF bi dist idt acq] show ?thesis by auto
qed

lemma ack_recorded_storage:
  assumes inv: "inv e" and j0: "en_journal e = Some j0" and le: "gm_get (en_leases e) l = Some le"
    and co: "be_Complete ops (task_ID (lease_Task le)) (lease_LeaseID le) (en_ready e) = (r, b)"
    and ap: "app (close_record (if r = Inr () then OpAck else OpStale) l) j0 = (r', j)"
  shows "j_inv j \<and> journalled (records j) (en_leases e) (abs b)"
proof -
  have st: "store e" and lok: "leases_ok e" using inv by (auto simp: engine_inv_def)
  have id: "lease_LeaseID le = l" using leases_ok_id [OF lok le] .
  note eff = Complete_effect [OF st le id co [unfolded id]]
  have rt: "record_text (close_record (if r = Inr () then OpAck else OpStale) l)"
    using st le by (auto simp: store_inv_def record_text_close intro: texts_ok_lease)
  note ar = jn.append_records [OF inv_journal(1) [OF inv j0] rt ap]
  have jr: "journalled (records j0) (en_leases e) (abs b)" using eff(1) j0 by (simp add: store_inv_def)
  have "journalled (records j0 @ [close_record (if r = Inr () then OpAck else OpStale) l]) (en_leases e) (abs b)"
    by (rule journalled_append [OF jr]) (simp only: close_record_sel eff(2))
  with jr ar show ?thesis by auto
qed

lemma moved_storage:
  assumes bi: "b_inv (en_ready e)" and room: "can_reap room wall (abs (en_ready e))"
    and mv: "(if shouldDeadLetter (en_config e) le
      then be_DeadLetter ops (task_ID (lease_Task le)) (lease_LeaseID le) ''max attempts exceeded''
             (wall (lease_LeaseID le)) (en_ready e)
      else be_Requeue ops (task_ID (lease_Task le)) (lease_LeaseID le) (en_ready e)) = (r, b)"
  shows "b_inv b \<and> task_ids (abs b) = task_ids (abs (en_ready e)) \<and>
    aq_proc (abs b) \<subseteq>\<^sub>m aq_proc (abs (en_ready e))"
proof -
  have "b_inv b \<and> (r, abs b) = expire_spec (en_config e) wall le (abs (en_ready e))"
    using mv be.DeadLetter [OF bi can_reap_bump(1) [OF room] reason_text can_reap_bump(2) [OF room],
        of "task_ID (lease_Task le)" "lease_LeaseID le" "lease_LeaseID le" r b]
      be.Requeue [OF bi can_reap_bump(1) [OF room], of "task_ID (lease_Task le)" "lease_LeaseID le" r b]
    by (simp add: expire_spec_def split: if_splits)
  then have b: "b_inv b" "abs b = snd (expire_spec (en_config e) wall le (abs (en_ready e)))"
    by (metis snd_conv)+
  then show ?thesis using task_ids_expire [OF be.invar_wf [OF bi]] expire_spec_proc by simp
qed

lemma crash_point_storage:
  assumes "crash_point ops abs room app e b j K" and inv: "inv e" and dist: "aq_distinct (abs (en_ready e))"
  shows "b_inv b \<and> j_inv j \<and> task_ids (abs b) + K = task_ids (abs (en_ready e)) \<and>
    journalled (records j) (en_leases e) (abs b)"
proof -
  have lok: "leases_ok e" and st: "store e" and bi: "b_inv (en_ready e)"
    using inv by (auto simp: engine_inv_def store_inv_def)
  have js: "j_inv j0 \<and> journalled (records j0) (en_leases e) (abs (en_ready e))" if "en_journal e = Some j0" for j0
    using st that by (simp add: store_inv_def)
  from assms(1) show ?thesis
  proof cases
    case between
    with js bi show ?thesis by simp
  next
    case (acquired uuid t)
    have "journalled (records j) (en_leases e) (abs b)"
      using journalled_acquire [OF lok conjunct2 [OF js [OF acquired(3)]] acquired(4)]
        conjunct2 [OF be.Acquire [OF bi acquired(5,6)]] by blast
    with js [OF acquired(3)] Acquire_ids [OF bi dist acquired(5,6)] acquired(1) show ?thesis by simp
  next
    case (fetch_recorded j0 uuid t now timeout r)
    from fetch_recorded_storage [OF inv dist fetch_recorded(3-7)] fetch_recorded(1) show ?thesis by simp
  next
    case (completed l le r)
    have id: "lease_LeaseID le = l" using leases_ok_id [OF lok completed(4)] .
    note eff = Complete_effect [OF st completed(4) id completed(5) [unfolded id]]
    have "journalled (records j) (en_leases e) (abs b)" using eff(1) completed(3) by (simp add: store_inv_def)
    with js [OF completed(3)] Complete_ids [OF bi completed(5)] completed(1) show ?thesis by simp
  next
    case (ack_recorded j0 l le r r')
    from ack_recorded_storage [OF inv ack_recorded(3-6)] Complete_ids [OF bi ack_recorded(5)] ack_recorded(1)
    show ?thesis by simp
  next
    case (reaping wall e1)
    obtain rt: "inv e1" "task_ids (abs (en_ready e1)) = task_ids (abs (en_ready e))"
      "gm_get (en_leases e1) \<subseteq>\<^sub>m gm_get (en_leases e)"
      using reap_turns [OF reaping(5) inv reaping(4)] by blast
    note ej = inv_parts [OF rt(1)] inv_journal [OF rt(1) reaping(6)]
    have "journalled (records j) (en_leases e) (abs b)"
      unfolding reaping(1) using ej(5,3) rt(3) by (rule journalled_more)
    with ej rt(2) reaping(1,2) show ?thesis by simp
  next
    case (moved wall e1 l le r)
    obtain rt: "inv e1" "task_ids (abs (en_ready e1)) = task_ids (abs (en_ready e))"
      "gm_get (en_leases e1) \<subseteq>\<^sub>m gm_get (en_leases e)" "can_reap room wall (abs (en_ready e1))"
      using reap_turns [OF moved(4) inv moved(3)] can_reap_map_le [OF moved(3)] by blast
    note ej = inv_parts [OF rt(1)] inv_journal [OF rt(1) moved(5)]
    note mv = moved_storage [OF ej(2) rt(4) moved(7)]
    have "journalled (records j) (en_leases e) (abs b)"
      using journalled_map_le [OF ej(5)] covers_map_le [OF ej(3)] mv journalled_more [OF _ _ rt(3)] by blast
    with mv rt(2) ej(4) moved(1) show ?thesis by simp
  qed
qed

text \<open>Each method, on an engine that has recovered.\<close>

lemma enqueue_state:
  assumes "run E C T e" and "uuid \<notin># E" and "id_text uuid" and "engine_Enqueue ops uuid p e = (Inr t, e')"
  shows "run (add_mset uuid E) C T e'"
proof -
  have rec: "en_recoveryErr e = None"
    using assms(4) by (auto simp: engine_Enqueue_def ensureRecovered_def split: option.splits)
  then have inv: "inv e" and ti: "timely T e" using assms(1) by (auto simp: run_state_def)
  note ef = Enqueue_effect [OF inv rec assms(4,3)]
  have "inv e'" by (rule Enqueue_inv [OF inv assms(4,3)])
  moreover have "timely T e'" using ti by (rule timely_cong) (subst ef(3), simp)+
  moreover have "task_ids (abs (en_ready e')) = add_mset uuid (task_ids (abs (en_ready e)))"
    unfolding ef(2) by (simp add: task_ids_def)
  moreover have "count E uuid = 0" using assms(2) by (simp add: not_in_iff)
  ultimately show ?thesis using assms(1) id_text_valid [OF assms(3)] by (auto simp: run_state_def engine_inv_def store_inv_def)
qed

lemma fetch_state:
  assumes "run E C T e" and "uuid \<notin> ei_LeaseID ` set (en_expirations e)" and "id_text uuid"
    and "can_fetch room (abs (en_ready e))" and "engine_Fetch ops app uuid now timeout e = (rf, e')"
  shows "run E C T e'"
proof (cases "0 < sint timeout \<and> en_recoveryErr e = None")
  case False
  then have "e' = e" using assms(5) by (auto simp: engine_Fetch_def ensureRecovered_def split: if_splits option.splits)
  with assms(1) show ?thesis by simp
next
  case True
  then have inv: "inv e" and ti: "timely T e" and wf: "aq_wf (abs (en_ready e))"
    using assms(1) be.invar_wf by (auto simp: run_state_def)
  have dist: "aq_distinct (abs (en_ready e))" using assms(1) aq_distinct_sub by (auto simp: run_state_def)
  have "inv e'" by (rule Fetch_inv [OF inv assms(5,2,3,4)])
  moreover have "task_ids (abs (en_ready e')) = task_ids (abs (en_ready e)) \<and> timely T e'"
    using inv True assms(5,3,4)
  proof (cases rule: Fetch_cases)
    case empty
    have "timely T e'" using ti by (rule timely_cong) (subst empty(4), simp)+
    with empty(3) show ?thesis by simp
  next
    case (leased t ts)
    have "timely T e'"
      using timely_install [OF ti, of "new_lease uuid now timeout t"]
      by (rule timely_cong) (subst leased(4), simp)+
    with leased(3) task_ids_Acquire [OF wf aq_distinct_head [OF wf dist]] show ?thesis by simp
  next
    case (handed_back t ts err)
    have "timely T e'" using ti by (rule timely_cong) (subst handed_back(4), simp)+
    with handed_back(3) task_ids_back [OF handed_back(1) aq_distinct_head [OF wf dist handed_back(1)]]
    show ?thesis by simp
  qed
  ultimately show ?thesis using assms(1) by (auto simp: run_state_def engine_inv_def store_inv_def)
qed

lemma ack_state:
  assumes "run E C T e" and "engine_Ack ops app l e = (ra, e')"
  shows "run E (C + (if en_recoveryErr e = None then ack_completes abs l e else {#})) T e'"
proof (cases "en_recoveryErr e")
  case (Some err)
  with assms unrecovered_refuses(3) [OF Some, of ops app l] show ?thesis by simp
next
  case None
  then have inv: "inv e" and ti: "timely T e" and wf: "aq_wf (abs (en_ready e))"
    using assms(1) be.invar_wf by (auto simp: run_state_def)
  have "inv e'" by (rule Ack_inv [OF inv assms(2)])
  moreover have kept: "timely T (e\<lparr>en_ready := b, en_journal := j\<rparr>)" for b j
    using ti by (rule timely_cong) simp_all
  moreover have gone: "timely T ((delete_lease l e)\<lparr>en_ready := b, en_journal := j\<rparr>)" for b j
    using ti by (rule timely_heap) (simp_all add: delete_lease_def gomap_simps map_le_def)
  moreover have "task_ids (abs (en_ready e')) + ack_completes abs l e = task_ids (abs (en_ready e)) \<and> timely T e'"
    using inv None assms(2)
  proof (cases rule: Ack_cases)
    case unknown
    with ti show ?thesis by (simp add: ack_completes_def)
  next
    case (acked le t)
    have "timely T e'" by (subst acked(5)) (rule gone)
    with acked(1-4) task_ids_drop [OF wf acked(2)] show ?thesis by (simp add: ack_completes_def)
  next
    case (unrecorded le t err)
    have "timely T e'" by (subst unrecorded(5)) (rule kept)
    with unrecorded(1-4) task_ids_drop [OF wf unrecorded(2)] show ?thesis by (simp add: ack_completes_def)
  next
    case (stale le)
    have "timely T e'" by (subst stale(5)) (rule gone)
    with stale(1-4) show ?thesis by (auto simp: ack_completes_def split: option.splits)
  next
    case (stale_unrecorded le err)
    have "timely T e'" by (subst stale_unrecorded(5)) (rule kept)
    with stale_unrecorded(1-4) show ?thesis by (auto simp: ack_completes_def split: option.splits)
  qed
  ultimately show ?thesis
    using assms(1) None by (auto simp: run_state_def engine_inv_def store_inv_def ac_simps)
qed

lemma reap_state:
  assumes "run E C T e" and "T \<le> now" and "can_reap room wall (abs (en_ready e))" and "engine_ReapExpired ops app wall now e = (rr, e')"
  shows "run E C now e'"
proof (cases "en_recoveryErr e")
  case (Some err)
  with assms unrecovered_refuses(4) [OF Some, of ops app wall now] show ?thesis by (simp add: run_state_def)
next
  case None
  then have inv: "inv e" and ti: "timely T e" and wf: "aq_wf (abs (en_ready e))"
    using assms(1) be.invar_wf by (auto simp: run_state_def)
  obtain m err where loop: "reap_loop ops app wall now 0 e = ((m, err), e')"
    using assms(4) None by (cases rr) (auto simp: engine_ReapExpired_def ensureRecovered_def)
  have "inv e'" by (rule ReapExpired_inv [OF inv assms(3,4)])
  moreover have "timely now e'"
    using timely_pass_end [OF ti assms(2) reap_loop_end [OF loop]] inv by (simp add: engine_inv_def)
  moreover have "task_ids (abs (en_ready e')) = task_ids (abs (en_ready e))"
    using reap_loop_storage [OF loop inv assms(3)] task_ids_expire_all [OF wf]
    by (auto simp: pass_storage_def split: if_splits)
  ultimately show ?thesis using assms(1) by (auto simp: run_state_def engine_inv_def store_inv_def)
qed

lemma boot_state:
  assumes "e = newEngine ops app ord config journal rs b" and "b_inv b" and "\<And>i. range_order (ord i)"
    and "\<forall>j. journal = Some j \<longrightarrow> j_inv j \<and> records j = rs"
    and "task_ids (abs b) + C = E" and "\<forall>x. count E x \<le> 1" and "\<forall>x \<in># E. utf8_valid x" and "list_all record_text rs"
  shows "run E C T e"
proof -
  note nc = rc.newEngine_conserves [OF assms(1-4)]
  have "j_inv j" if "en_journal e = Some j" for j
  proof (cases journal)
    case None
    with assms(1-4) have "en_journal e = None" by (cases rule: rc.newEngine_cases) auto
    with that show ?thesis by simp
  next
    case (Some j0)
    from rc.newEngine_journal [OF assms(1-4) Some] that show ?thesis by auto
  qed
  moreover have "\<forall>x \<in># task_ids (abs b). utf8_valid x" using assms(5,7) by auto
  ultimately show ?thesis
    using nc assms(5-7) rc.newEngine_inv [OF assms(1-4) _ assms(8)] newEngine_timely [OF assms(1-4)]
    by (simp add: run_state_def)
qed

lemma engine_run_state: "engine_run ops abs b_inv room app records j_inv E C T e \<Longrightarrow> run E C T e"
proof (induction rule: engine_run.induct)
  case (boot b ord journal rs e config T)
  then show ?case by (intro boot_state) (auto simp: aq_distinct_def)
next
  case (restart E C T e b j K j' ord e' config)
  have "b_inv b \<and> j_inv j \<and> task_ids (abs b) + K = task_ids (abs (en_ready e))"
  proof (cases "en_recoveryErr e")
    case None
    with restart.IH crash_point_storage [OF restart.hyps(2)] aq_distinct_sub show ?thesis
      by (auto simp: run_state_def)
  next
    case (Some err)
    with restart.hyps(2) restart.IH show ?thesis by (cases rule: crash_point.cases) (auto simp: run_state_def)
  qed
  with restart jn.records_text [OF restart.hyps(3)] show ?case
    by (intro boot_state) (auto simp: run_state_def ac_simps)
qed (rule enqueue_state fetch_state ack_state reap_state; assumption)+

text \<open>After a restart, every lease whose task a crash left in processing storage is back, with its deadline.\<close>

lemma restart_keeps_lease:
  assumes "crash_point ops abs room app e b j K" and "inv e" and "aq_distinct (abs (en_ready e))"
    and "j_inv j'" and "records j' = records j" and "\<And>i. range_order (ord i)"
    and "e' = newEngine ops app ord config (Some j') (records j') b" and "en_recoveryErr e' = None"
    and "gm_get (en_leases e) l = Some le" and "aq_proc (abs b) tid = Some (t, l)"
  shows "gm_get (en_leases e') l = Some le"
proof -
  have cs: "b_inv b" "journalled (records j) (en_leases e) (abs b)"
    using crash_point_storage [OF assms(1-3)] by blast+
  have "\<forall>j0. Some j' = Some j0 \<longrightarrow> j_inv j0 \<and> records j0 = records j'" using assms(4) by simp
  note nl = rc.newEngine_leases [OF assms(7) cs(1) assms(6) this assms(8)]
  have "gm_get (Live (records j')) l = Some (fetch_record le)" "task_ID (lease_Task le) = tid"
    using cs(2) assms(5,9,10) by (auto simp: journalled_def)
  moreover have "restored_lease (fetch_record le) = le"
    using leases_ok_id [OF inv_parts(1) [OF assms(2)] assms(9)] by (simp add: restored_lease_def fetch_record_def)
  ultimately show ?thesis
    unfolding nl(1) using assms(10) by (simp add: surviving_leases_def survives_def fetch_record_def)
qed

text \<open>A restart between two methods finds the engine as it was: storage is unchanged, and the leases that
  hold a task are back.\<close>

lemma restart_idle:
  assumes "inv e" and "en_journal e = Some j" and "j_inv j'" and "records j' = records j"
    and "\<And>i. range_order (ord i)" and "e' = newEngine ops app ord config (Some j') (records j') (en_ready e)"
    and "en_recoveryErr e' = None"
  shows "abs (en_ready e') = abs (en_ready e)"
proof -
  have "\<forall>j0. Some j' = Some j0 \<longrightarrow> j_inv j0 \<and> records j0 = records j'" using assms(3) by simp
  note nl = rc.newEngine_leases [OF assms(6) inv_parts(2) [OF assms(1)] assms(5) this assms(7)]
  have "tid \<in> kept_tasks (records j') (abs (en_ready e))" if p: "aq_proc (abs (en_ready e)) tid = Some (t, l)" for tid t l
  proof -
    obtain le where "gm_get (en_leases e) l = Some le"
      using inv_parts(3) [OF assms(1)] p unfolding covers_def by blast
    with inv_journal(2) [OF assms(1,2)] p assms(4) show ?thesis
      by (auto simp: journalled_def kept_tasks_def fetch_record_def)
  qed
  then have "dom (aq_proc (abs (en_ready e))) \<subseteq> kept_tasks (records j') (abs (en_ready e))" by fast
  then show ?thesis
    using nl(2) by (auto simp: recovered_queue_def restrict_map_superset Diff_eq_empty_iff [THEN iffD2] intro!: aqueue.equality)
qed

end

section \<open>The in-memory queue and the file journal\<close>

interpretation mw: engine_contracts "memory_ops ord" mem_abs "mem_inv ord" any_task "wal_append c" "wal_records c" "wal_invar c"
  for ord c
  by unfold_locales

end
