(* ===== verification/Engine_Properties.thy ===== *)
theory Engine_Properties
  imports Engine_Runs
begin

text \<open>
  The properties of the lease engine (\<open>internal/core/engine.go\<close>), over any storage and journal that keep
  their contracts (\<open>engine_contracts\<close>, or \<open>recovery_contracts\<close> where storage may lose its connection).
  The examples run the engine on the in-memory queue, without a journal or with one in a file.
\<close>

section \<open>An engine for the examples\<close>

definition example_config :: EngineConfig where
  "example_config = \<lparr>cfg_MaxAttempts = 3, cfg_RequeueRetryDelay = 0\<rparr>"

abbreviation any_order :: "nat \<Rightarrow> string list \<Rightarrow> string list" where
  "any_order \<equiv> \<lambda>_ ks. ks"

abbreviation m_ops :: "MemoryQueue backend_ops" where
  "m_ops \<equiv> memory_ops (\<lambda>ks. ks)"

text \<open>The payload encoding of the examples: no record can be encoded, so that every append fails.\<close>

definition no_codec :: wal_codec where
  "no_codec = \<lparr>json_Marshal = (\<lambda>_. Inl (ErrNew ''unsupported'')), json_Unmarshal = (\<lambda>_. Inl (ErrNew ''invalid''))\<rparr>"

abbreviation w_app :: "wal_state appender" where
  "w_app \<equiv> wal_append no_codec"

lemma example_ids: "id_text ''t1''" "id_text ''l1''"
  by (simp_all add: id_text_def utf8_valid_ascii byte_in_def)

lemma any_room: "can_fetch any_task q" "can_reap any_task (\<lambda>_. 0) q"
  by (simp_all add: can_fetch_def can_reap_def can_bump_def clock_text_def)

definition booted :: "(MemoryQueue, wal_state) Engine" where
  "booted = newEngine m_ops w_app any_order example_config None [] NewMemoryQueue"

lemma booted_eq:
  "booted = \<lparr>en_ready = NewMemoryQueue, en_leases = [], en_expirations = [],
     en_config = \<lparr>cfg_MaxAttempts = 3, cfg_RequeueRetryDelay = 1000000000\<rparr>, en_journal = None, en_recoveryErr = None\<rparr>"
  by (simp add: booted_def newEngine_def restore_def active_fences_def heap_Init_Nil example_config_def
      requeueRetryDelay_def mem_RecoverOrphanedProcessing_def NewMemoryQueue_def Let_def List.map_filter_def)

definition enqueued :: "(MemoryQueue, wal_state) Engine" where
  "enqueued = snd (engine_Enqueue m_ops ''t1'' (Some ''p'') booted)"

definition fetched :: "(MemoryQueue, wal_state) Engine" where
  "fetched = snd (engine_Fetch m_ops w_app ''l1'' 100 50 enqueued)"

definition example_task :: task where
  "example_task = \<lparr>task_ID = ''t1'', task_Payload = Some ''p'', task_Attempts = 0\<rparr>"

definition example_lease :: lease where
  "example_lease = \<lparr>lease_LeaseID = ''l1'', lease_Task = example_task, lease_ExpiresAt = 150, lease_CreatedAt = 100\<rparr>"

lemma example_lease_sel:
  "lease_LeaseID example_lease = ''l1''" "lease_Task example_lease = example_task"
  "lease_ExpiresAt example_lease = 150" "task_ID example_task = ''t1''" "task_Attempts example_task = 0"
  by (simp_all add: example_lease_def example_task_def)

lemma enqueue_run:
  "engine_Enqueue m_ops ''t1'' (Some ''p'') booted = (Inr example_task, enqueued)"
  "enqueued = booted\<lparr>en_ready := \<lparr>mq_ready = [example_task], mq_processing = [], mq_dead = []\<rparr>\<rparr>"
  by (simp_all add: enqueued_def engine_Enqueue_def ensureRecovered_def booted_eq mem_Enqueue_def Let_def
      NewMemoryQueue_def example_task_def)

lemma fetch_run:
  "engine_Fetch m_ops w_app ''l1'' 100 50 enqueued = (Inr example_lease, fetched)"
  "fetched = booted\<lparr>en_ready := \<lparr>mq_ready = [],
       mq_processing = [(''t1'', \<lparr>mpe_task = example_task, mpe_leaseID = ''l1''\<rparr>)], mq_dead = []\<rparr>,
     en_leases := [(''l1'', example_lease)],
     en_expirations := [\<lparr>ei_LeaseID = ''l1'', ei_ExpiresAt = 150\<rparr>]\<rparr>"
proof -
  have "heap_Push \<lparr>ei_LeaseID = ''l1'', ei_ExpiresAt = 150\<rparr> [] = [\<lparr>ei_LeaseID = ''l1'', ei_ExpiresAt = 150\<rparr>]"
    by code_simp
  then show "engine_Fetch m_ops w_app ''l1'' 100 50 enqueued = (Inr example_lease, fetched)"
    and "fetched = booted\<lparr>en_ready := \<lparr>mq_ready = [],
       mq_processing = [(''t1'', \<lparr>mpe_task = example_task, mpe_leaseID = ''l1''\<rparr>)], mq_dead = []\<rparr>,
     en_leases := [(''l1'', example_lease)],
     en_expirations := [\<lparr>ei_LeaseID = ''l1'', ei_ExpiresAt = 150\<rparr>]\<rparr>"
    by (simp_all add: fetched_def engine_Fetch_def ensureRecovered_def enqueue_run(2) booted_eq mem_Acquire_eq Let_def
        engine_record_def install_lease_def example_lease_def example_task_def)
qed

abbreviation example_run :: "string multiset \<Rightarrow> string multiset \<Rightarrow> instant \<Rightarrow> (MemoryQueue, wal_state) Engine \<Rightarrow> bool" where
  "example_run \<equiv> engine_run m_ops mem_abs (mem_inv (\<lambda>ks. ks)) any_task w_app (wal_records no_codec) (wal_invar no_codec)"

lemma example_contracts:
  "engine_contracts m_ops mem_abs (mem_inv (\<lambda>ks. ks)) any_task w_app (wal_records no_codec) (wal_invar no_codec)"
  by (rule mw.engine_contracts_axioms)

lemma example_runs:
  "example_run {#} {#} 0 booted" "example_run {#''t1''#} {#} 0 enqueued" "example_run {#''t1''#} {#} 0 fetched"
proof -
  have "example_run (task_ids (mem_abs NewMemoryQueue)) {#} 0 booted"
    by (rule engine_run.boot [where ord = any_order and journal = None and rs = "[]" and config = example_config])
      (simp_all add: mem_inv_def range_order_id aq_distinct_def task_ids_def aq_empty_def booted_def)
  then show boot: "example_run {#} {#} 0 booted" by (simp add: task_ids_def aq_empty_def)
  show enq: "example_run {#''t1''#} {#} 0 enqueued"
    using engine_run.enqueue [OF boot _ example_ids(1) enqueue_run(1)] by simp
  show "example_run {#''t1''#} {#} 0 fetched"
    using engine_run.fetch [OF enq _ example_ids(2) any_room(1) fetch_run(1)] by (simp add: enqueue_run(2) booted_eq)
qed

section \<open>Whole runs\<close>

text \<open>C1. No task is lost and none is duplicated: in every run of boots, enqueues, fetches,
  acknowledgements, passes of the reaper and restarts after a crash at any boundary between storage and
  journal, the tasks in storage and the completed tasks together are exactly the tasks that were put into
  the queue, each of them once.\<close>

theorem run_conserves_tasks:
  assumes "engine_contracts ops absq b_inv room app records j_inv"
    and "engine_run ops absq b_inv room app records j_inv E C T e"
  shows "task_ids (absq (en_ready e)) + C = E \<and> (\<forall>x. count E x \<le> 1)"
  using engine_contracts.engine_run_state [OF assms] by (simp add: run_state_def)

theorem run_conserves_tasks_witness:
  "example_run {#''t1''#} {#} 0 fetched \<and> task_ids (mem_abs (en_ready fetched)) + {#} = {#''t1''#}"
  using run_conserves_tasks [OF example_contracts example_runs(3)] example_runs(3) by blast

text \<open>C4. The engine's invariant holds after every run once recovery has succeeded: lease map and heap
  agree, every task in processing storage is fenced by a lease of the map that holds this very task, and
  that lease would be replayed from the journal as it is.\<close>

theorem run_keeps_invariant:
  assumes "engine_contracts ops absq b_inv room app records j_inv"
    and "engine_run ops absq b_inv room app records j_inv E C T e" and "en_recoveryErr e = None"
  shows "leases_ok e \<and> covers (en_leases e) (absq (en_ready e)) \<and>
    (\<forall>j. en_journal e = Some j \<longrightarrow> journalled (records j) (en_leases e) (absq (en_ready e)))"
  using engine_contracts.engine_run_state [OF assms(1,2)] assms(3)
  by (simp add: run_state_def engine_inv_def store_inv_def)

theorem run_keeps_invariant_witness:
  "en_recoveryErr fetched = None \<and> leases_ok fetched \<and> covers (en_leases fetched) (mem_abs (en_ready fetched))"
proof -
  have "en_recoveryErr fetched = None" by (simp add: fetch_run(2) booted_eq)
  with run_keeps_invariant [OF example_contracts example_runs(3) this] show ?thesis by blast
qed

text \<open>C11. Expiry is not missed: in every run, a pass of the reaper that reports no error and comes at
  least the retry delay after the previous one leaves no lease whose deadline has passed.\<close>

theorem reap_leaves_nothing_overdue:
  assumes "engine_contracts ops absq b_inv room app records j_inv"
    and "engine_run ops absq b_inv room app records j_inv E C T e" and "en_recoveryErr e = None"
    and "T + sint (cfg_RequeueRetryDelay (en_config e)) \<le> now"
    and "engine_ReapExpired ops app wall now e = ((n, None), e')"
    and "gm_get (en_leases e') l = Some le"
  shows "now < lease_ExpiresAt le"
proof -
  have "leases_ok e" "timely T e"
    using engine_contracts.engine_run_state [OF assms(1,2)] assms(3) by (simp_all add: run_state_def engine_inv_def)
  moreover have "reap_loop ops app wall now 0 e = ((n, None), e')"
    using assms(3,5) by (simp add: engine_ReapExpired_def ensureRecovered_def)
  ultimately show ?thesis using reap_loop_complete assms(4,6) by blast
qed

text \<open>The example engine holds one lease, due at 150; the pass puts its task back with one more attempt.\<close>

definition reaped :: "(MemoryQueue, wal_state) Engine" where
  "reaped = booted\<lparr>en_ready := \<lparr>mq_ready = [bump_attempts example_task], mq_processing = [], mq_dead = []\<rparr>\<rparr>"

lemma reap_run: "engine_ReapExpired m_ops w_app (\<lambda>_. 0) 1000000000 fetched = ((1, None), reaped)"
proof -
  have pop: "heap_Pop [\<lparr>ei_LeaseID = ''l1'', ei_ExpiresAt = 150\<rparr>] = Some (\<lparr>ei_LeaseID = ''l1'', ei_ExpiresAt = 150\<rparr>, [])"
    by code_simp
  have live: "\<not> shouldDeadLetter \<lparr>cfg_MaxAttempts = 3, cfg_RequeueRetryDelay = 1000000000\<rparr> example_lease"
    by (simp add: shouldDeadLetter_def example_lease_def example_task_def)
  have ex: "expireLease m_ops w_app (\<lambda>_. 0) example_lease (fetched\<lparr>en_expirations := []\<rparr>) =
      (Inr (), reaped\<lparr>en_leases := [(''l1'', example_lease)]\<rparr>)"
    using live by (simp add: expireLease_def fetch_run(2) booted_eq reaped_def mem_Requeue_def engine_record_def
        example_lease_def example_task_def Let_def)
  have "reap_loop m_ops w_app (\<lambda>_. 0) 1000000000 1 reaped = ((1, None), reaped)"
    by (subst reap_loop.simps) (simp add: reaped_def booted_eq eh_peek_def)
  moreover have "delete_lease ''l1'' (reaped\<lparr>en_leases := [(''l1'', example_lease)]\<rparr>) = reaped"
    by (simp add: delete_lease_def reaped_def booted_eq)
  moreover have "lease_ExpiresAt example_lease = 150" by (simp add: example_lease_def)
  ultimately have "reap_loop m_ops w_app (\<lambda>_. 0) 1000000000 0 fetched = ((1, None), reaped)"
    using pop ex by (subst reap_loop.simps) (simp add: fetch_run(2) eh_peek_def)
  then show ?thesis
    by (simp add: engine_ReapExpired_def ensureRecovered_def fetch_run(2) booted_eq)
qed

text \<open>The same engine when the worker asked for a lease of two seconds: the pass keeps it.\<close>

definition long_fetched :: "(MemoryQueue, wal_state) Engine" where
  "long_fetched = snd (engine_Fetch m_ops w_app ''l1'' 100 2000000000 enqueued)"

lemma long_lease_run:
  "engine_Fetch m_ops w_app ''l1'' 100 2000000000 enqueued =
     (Inr (example_lease\<lparr>lease_ExpiresAt := 2000000100\<rparr>), long_fetched)"
  "long_fetched = fetched\<lparr>en_leases := [(''l1'', example_lease\<lparr>lease_ExpiresAt := 2000000100\<rparr>)],
     en_expirations := [\<lparr>ei_LeaseID = ''l1'', ei_ExpiresAt = 2000000100\<rparr>]\<rparr>"
proof -
  have "heap_Push \<lparr>ei_LeaseID = ''l1'', ei_ExpiresAt = 2000000100\<rparr> [] = [\<lparr>ei_LeaseID = ''l1'', ei_ExpiresAt = 2000000100\<rparr>]"
    by code_simp
  then show "engine_Fetch m_ops w_app ''l1'' 100 2000000000 enqueued =
     (Inr (example_lease\<lparr>lease_ExpiresAt := 2000000100\<rparr>), long_fetched)"
    and "long_fetched = fetched\<lparr>en_leases := [(''l1'', example_lease\<lparr>lease_ExpiresAt := 2000000100\<rparr>)],
     en_expirations := [\<lparr>ei_LeaseID = ''l1'', ei_ExpiresAt = 2000000100\<rparr>]\<rparr>"
    by (simp_all add: long_fetched_def fetch_run(2) engine_Fetch_def ensureRecovered_def enqueue_run(2) booted_eq mem_Acquire_eq Let_def
        engine_record_def install_lease_def example_lease_def example_task_def)
qed

theorem reap_leaves_nothing_overdue_witness:
  "engine_ReapExpired m_ops w_app (\<lambda>_. 0) 1000000000 long_fetched = ((0, None), long_fetched) \<and>
   1000000000 < lease_ExpiresAt (example_lease\<lparr>lease_ExpiresAt := 2000000100\<rparr>)"
proof -
  have run: "example_run {#''t1''#} {#} 0 long_fetched"
    using engine_run.fetch [OF example_runs(2) _ example_ids(2) any_room(1) long_lease_run(1)] by (simp add: enqueue_run(2) booted_eq)
  have cfg: "en_recoveryErr long_fetched = None" "0 + sint (cfg_RequeueRetryDelay (en_config long_fetched)) \<le> 1000000000"
    by (simp_all add: long_lease_run(2) fetch_run(2) booted_eq)
  have pass: "engine_ReapExpired m_ops w_app (\<lambda>_. 0) 1000000000 long_fetched = ((0, None), long_fetched)"
    using cfg(1) by (simp add: engine_ReapExpired_def ensureRecovered_def, subst reap_loop.simps)
      (simp add: long_lease_run(2) eh_peek_def)
  have "gm_get (en_leases long_fetched) ''l1'' = Some (example_lease\<lparr>lease_ExpiresAt := 2000000100\<rparr>)"
    by (simp add: long_lease_run(2))
  from reap_leaves_nothing_overdue [OF example_contracts run cfg pass this] pass show ?thesis by blast
qed

section \<open>Single methods\<close>

lemma example_inv:
  "engine_inv mem_abs (mem_inv (\<lambda>ks. ks)) (wal_records no_codec) (wal_invar no_codec) enqueued"
  "engine_inv mem_abs (mem_inv (\<lambda>ks. ks)) (wal_records no_codec) (wal_invar no_codec) fetched"
  "en_recoveryErr enqueued = None" "en_recoveryErr fetched = None"
proof -
  show rec: "en_recoveryErr enqueued = None" "en_recoveryErr fetched = None"
    by (simp_all add: enqueue_run(2) fetch_run(2) booted_eq)
  show "engine_inv mem_abs (mem_inv (\<lambda>ks. ks)) (wal_records no_codec) (wal_invar no_codec) enqueued"
    and "engine_inv mem_abs (mem_inv (\<lambda>ks. ks)) (wal_records no_codec) (wal_invar no_codec) fetched"
    using engine_contracts.engine_run_state [OF example_contracts example_runs(2)]
      engine_contracts.engine_run_state [OF example_contracts example_runs(3)] rec
    by (simp_all add: run_state_def)
qed

text \<open>C13. Fetch, on every branch: a timeout that is not positive is refused; an engine that has not
  recovered refuses; an empty queue says so; otherwise the oldest ready task moves to processing storage
  under the new lease, whose deadline is the timeout from now, and the lease is installed and journalled;
  or the journal fails, and then the task goes back to the end of ready storage with one more attempt and
  no lease exists. The fresh lease id is valid text, and storage can count the attempts of the ready tasks up by
  one, as the in-memory queue always can.\<close>

theorem fetch_effect:
  assumes "engine_contracts ops absq b_inv room app records j_inv" and "engine_inv absq b_inv records j_inv e"
    and "engine_Fetch ops app uuid now timeout e = (res, e')" and "id_text uuid"
    and "can_fetch room (absq (en_ready e))"
  shows "if sint timeout \<le> 0 then res = Inl ErrInvalidTimeout \<and> e' = e
    else case en_recoveryErr e of
      Some err \<Rightarrow> res = Inl err \<and> e' = e
    | None \<Rightarrow>
        (case aq_ready (absq (en_ready e)) of
           [] \<Rightarrow> res = Inl ErrQueueEmpty \<and> absq (en_ready e') = absq (en_ready e) \<and> en_leases e' = en_leases e
         | t # ts \<Rightarrow>
             res = Inr (new_lease uuid now timeout t) \<and>
             absq (en_ready e') = snd (spec_Acquire uuid (absq (en_ready e))) \<and>
             gm_get (en_leases e') = (gm_get (en_leases e))(uuid \<mapsto> new_lease uuid now timeout t) \<and>
             journal_step records [fetch_record (new_lease uuid now timeout t)] e e' \<or>
             (\<exists>err. res = Inl err) \<and> en_journal e \<noteq> None \<and> en_leases e' = en_leases e \<and>
             aq_ready (absq (en_ready e')) = ts @ [bump_attempts t] \<and>
             aq_proc (absq (en_ready e')) = (aq_proc (absq (en_ready e)))(task_ID t := None))"
proof (cases "0 < sint timeout \<and> en_recoveryErr e = None")
  case False
  with assms(3) show ?thesis by (auto simp: engine_Fetch_def ensureRecovered_def split: option.splits)
next
  case True
  show ?thesis
  proof (cases rule: engine_contracts.Fetch_cases
      [OF assms(1,2) True assms(3,4,5), case_names empty leased handed_back])
    case empty
    from empty(4) have "en_leases e' = en_leases e" by (metis Engine.ext_inject Engine.surjective Engine.update_convs(1))
    with True empty(1-3) show ?thesis by simp
  next
    case (leased t ts)
    have "gm_get (en_leases e') = (gm_get (en_leases e))(uuid \<mapsto> new_lease uuid now timeout t)"
      by (subst leased(4)) (simp add: install_lease_sel new_lease_def)
    with True leased(1-3,5) show ?thesis by simp
  next
    case (handed_back t ts err)
    have "en_leases e' = en_leases e" by (subst handed_back(4)) simp
    with True handed_back(1-3,5) show ?thesis by simp
  qed
qed

theorem fetch_effect_witness:
  "engine_Fetch m_ops w_app ''l1'' 100 50 enqueued = (Inr example_lease, fetched) \<and>
   example_lease = new_lease ''l1'' 100 50 example_task \<and>
   mem_abs (en_ready fetched) = snd (spec_Acquire ''l1'' (mem_abs (en_ready enqueued)))"
proof -
  have "aq_ready (mem_abs (en_ready enqueued)) = [example_task]" "en_journal enqueued = None"
    by (simp_all add: enqueue_run(2) booted_eq)
  with fetch_effect [OF example_contracts example_inv(1) fetch_run(1) example_ids(2) any_room(1)] fetch_run(1) example_inv(3)
  show ?thesis by simp
qed

text \<open>C14. Ack, on every branch: an unknown lease is refused; a lease that still fences its task completes
  the task, which leaves storage, and the lease is gone; a lease whose task has been taken away is dropped,
  journalled as stale and reported as not found, and storage is unchanged; when the journal fails the
  lease stays in the map. A second acknowledgement of a lease that was acknowledged is refused and changes
  nothing.\<close>

theorem ack_effect:
  assumes "engine_contracts ops absq b_inv room app records j_inv" and "engine_inv absq b_inv records j_inv e"
    and "en_recoveryErr e = None" and "engine_Ack ops app l e = (res, e')"
  shows "(case gm_get (en_leases e) l of
      None \<Rightarrow> res = Inl ErrLeaseNotFound \<and> e' = e
    | Some le \<Rightarrow>
        if \<exists>t. aq_proc (absq (en_ready e)) (task_ID (lease_Task le)) = Some (t, l)
        then absq (en_ready e') = drop_proc (task_ID (lease_Task le)) (absq (en_ready e)) \<and>
          (res = Inr () \<and> gm_get (en_leases e') = (gm_get (en_leases e))(l := None) \<and>
             journal_step records [close_record OpAck l] e e' \<or>
           (\<exists>err. res = Inl err) \<and> en_journal e \<noteq> None \<and> en_leases e' = en_leases e)
        else absq (en_ready e') = absq (en_ready e) \<and>
          (res = Inl ErrLeaseNotFound \<and> gm_get (en_leases e') = (gm_get (en_leases e))(l := None) \<and>
             journal_step records [close_record OpStale l] e e' \<or>
           (\<exists>err. res = Inl err) \<and> en_journal e \<noteq> None \<and> en_leases e' = en_leases e)) \<and>
    (res = Inr () \<longrightarrow> engine_Ack ops app l e' = (Inl ErrLeaseNotFound, e'))"
proof -
  have gone: "engine_Ack ops app l e' = (Inl ErrLeaseNotFound, e') \<and>
      gm_get (en_leases e') = (gm_get (en_leases e))(l := None)"
    if "e' = (delete_lease l e)\<lparr>en_ready := b, en_journal := j\<rparr>" for b j
    using assms(3) that by (simp add: engine_Ack_def ensureRecovered_def delete_lease_def gomap_simps)
  show ?thesis
  proof (cases rule: engine_contracts.Ack_cases
      [OF assms, case_names unknown acked unrecorded stale stale_unrecorded])
    case (unrecorded le t err)
    have "en_leases e' = en_leases e" by (subst unrecorded(5)) simp
    with unrecorded(1-4,6) show ?thesis by auto
  next
    case (stale_unrecorded le err)
    have "en_leases e' = en_leases e" by (subst stale_unrecorded(5)) simp
    with stale_unrecorded(1-4,6) show ?thesis by auto
  next
    case (acked le t)
    with gone [OF acked(5)] show ?thesis by auto
  next
    case (stale le)
    with gone [OF stale(5)] show ?thesis by auto
  qed simp
qed

theorem ack_effect_witness:
  "fst (engine_Ack m_ops w_app ''l1'' fetched) = Inr () \<and>
   task_ids (mem_abs (en_ready (snd (engine_Ack m_ops w_app ''l1'' fetched)))) = {#} \<and>
   fst (engine_Ack m_ops w_app ''l1'' (snd (engine_Ack m_ops w_app ''l1'' fetched))) = Inl ErrLeaseNotFound"
proof -
  obtain res e' where run: "engine_Ack m_ops w_app ''l1'' fetched = (res, e')" by fastforce
  have "gm_get (en_leases fetched) ''l1'' = Some example_lease" "en_journal fetched = None"
    "aq_proc (mem_abs (en_ready fetched)) (task_ID (lease_Task example_lease)) = Some (example_task, ''l1'')"
    "task_ids (drop_proc (task_ID (lease_Task example_lease)) (mem_abs (en_ready fetched))) = {#}"
    by (simp_all add: fetch_run(2) booted_eq example_lease_def example_task_def task_ids_def)
  with ack_effect [OF example_contracts example_inv(2,4) run] run show ?thesis by auto
qed



text \<open>C32. The bookkeeping of a pass of the reaper, over any storage and journal, however they fail: lease map
  and heap still agree, leases that are not due are untouched, none appears, the count is the number of
  leases that are gone, and every lease that is left keeps its heap item or has one at the retry delay
  from now.\<close>

theorem reap_bookkeeping:
  assumes "leases_ok e" and "engine_ReapExpired ops app wall now e = ((n, err), e')"
  shows "leases_ok e' \<and> n + length (en_leases e') = length (en_leases e) \<and>
    gm_get (en_leases e') \<subseteq>\<^sub>m gm_get (en_leases e) \<and>
    (\<forall>l le. gm_get (en_leases e) l = Some le \<longrightarrow> now < lease_ExpiresAt le \<longrightarrow> gm_get (en_leases e') l = Some le) \<and>
    (\<forall>it \<in> set (en_expirations e). gm_get (en_leases e') (ei_LeaseID it) \<noteq> None \<longrightarrow>
       it \<in> set (en_expirations e') \<or> retry_item now e' (ei_LeaseID it) \<in> set (en_expirations e'))"
proof (cases "en_recoveryErr e")
  case None
  then have "reap_loop ops app wall now 0 e = ((n, err), e')"
    using assms(2) by (simp add: engine_ReapExpired_def ensureRecovered_def)
  from reap_loop_end [OF this assms(1)] show ?thesis
    unfolding pass_end_def by (elim conjE, intro conjI ballI impI) (assumption | fastforce)+
next
  case (Some x)
  with assms show ?thesis by (simp add: engine_ReapExpired_def ensureRecovered_def)
qed

text \<open>A backend that has lost its connection.\<close>

definition down_ops :: "MemoryQueue backend_ops" where
  "down_ops = m_ops\<lparr>be_Requeue := (\<lambda>_ _ q. (Inl (ErrNew ''connection refused''), q))\<rparr>"

theorem reap_bookkeeping_witness:
  "fst (engine_ReapExpired down_ops w_app (\<lambda>_. 0) 200 fetched) = (0, Some (ErrNew ''connection refused'')) \<and>
   retry_item 200 (snd (engine_ReapExpired down_ops w_app (\<lambda>_. 0) 200 fetched)) ''l1'' \<in>
     set (en_expirations (snd (engine_ReapExpired down_ops w_app (\<lambda>_. 0) 200 fetched)))"
proof -
  let ?it = "\<lparr>ei_LeaseID = ''l1'', ei_ExpiresAt = 150\<rparr>"
  have pop: "heap_Pop [?it] = Some (?it, [])" by code_simp
  have push: "heap_Push \<lparr>ei_LeaseID = ''l1'', ei_ExpiresAt = 1000000200\<rparr> [] = [\<lparr>ei_LeaseID = ''l1'', ei_ExpiresAt = 1000000200\<rparr>]"
    by code_simp
  let ?e' = "fetched\<lparr>en_expirations := [\<lparr>ei_LeaseID = ''l1'', ei_ExpiresAt = 1000000200\<rparr>]\<rparr>"
  have dl: "\<not> shouldDeadLetter (en_config fetched) example_lease"
    by (simp add: shouldDeadLetter_def example_lease_def example_task_def fetch_run(2) booted_eq)
  have ex: "expireLease down_ops w_app (\<lambda>_. 0) example_lease (fetched\<lparr>en_expirations := []\<rparr>) =
      (Inl (ErrNew ''connection refused''), fetched\<lparr>en_expirations := []\<rparr>)"
    using dl by (simp add: expireLease_def down_ops_def isStaleLeaseError_def Let_def)
  have lt: "lease_ExpiresAt example_lease = 150" by (simp add: example_lease_def)
  have "reap_loop down_ops w_app (\<lambda>_. 0) 200 0 fetched = ((0, Some (ErrNew ''connection refused'')), ?e')"
    using pop push ex lt by (subst reap_loop.simps) (simp add: fetch_run(2) booted_eq eh_peek_def)
  then have run: "engine_ReapExpired down_ops w_app (\<lambda>_. 0) 200 fetched = ((0, Some (ErrNew ''connection refused'')), ?e')"
    by (simp add: engine_ReapExpired_def ensureRecovered_def example_inv(4))
  have "leases_ok fetched" using example_inv(2) by (simp add: engine_inv_def)
  from reap_bookkeeping [OF this run] run show ?thesis
    by (auto simp: fetch_run(2) booted_eq)
qed



text \<open>The dead-letter decision is exact below the largest counter value: with a positive limit, a lease
  is dead-lettered exactly when its task has failed the limit's number of times counting this one. At the
  largest 64-bit value the counter wraps and the task is never dead-lettered.\<close>

lemma dead_letter_threshold:
  "shouldDeadLetter config l \<longleftrightarrow>
     0 < sint (cfg_MaxAttempts config) \<and>
     (if sint (task_Attempts (lease_Task l)) = 2 ^ 63 - 1 then False
      else sint (cfg_MaxAttempts config) \<le> sint (task_Attempts (lease_Task l)) + 1)"
proof -
  let ?a = "task_Attempts (lease_Task l)"
  have range: "- (2 ^ 63) \<le> sint ?a" "sint ?a < 2 ^ 63"
    using sint_range_size [of ?a] by (simp_all add: size_word_def)
  have "sint (?a + 1) = (if sint ?a = 2 ^ 63 - 1 then - (2 ^ 63) else sint ?a + 1)"
    using range by (simp add: sint_word_ariths(1) signed_take_bit_int_eq_self_iff signed_take_bit_eq_if_positive
        take_bit_int_eq_self_iff)
  then show ?thesis by (auto simp: shouldDeadLetter_def)
qed

text \<open>An engine whose recovery failed serves nothing: every method returns the recovery error (a fetch
  with a bad timeout its own) and leaves the engine as it is.\<close>

lemma failed_recovery_refuses:
  assumes "en_recoveryErr e = Some err"
  shows "engine_Enqueue ops uuid p e = (Inl err, e) \<and>
    engine_Fetch ops app uuid now timeout e = (Inl (if sint timeout \<le> 0 then ErrInvalidTimeout else err), e) \<and>
    engine_Ack ops app l e = (Inl err, e) \<and> engine_ReapExpired ops app wall now e = ((0, Some err), e)"
  by (simp only: unrecovered_refuses [OF assms] simp_thms)

text \<open>The counts of \<open>Stats\<close>: ready, processing and dead are the sizes of the three parts of storage, the
  lease count is the number of leases, every task in processing storage is counted by a lease, and the
  heap has at least one item per lease.\<close>

lemma stats_counts:
  assumes "engine_contracts ops absq b_inv room app records j_inv" and "engine_inv absq b_inv records j_inv e"
  shows "engine_Stats ops e =
      \<lparr>cs_Ready = length (aq_ready (absq (en_ready e))), cs_Processing = card (dom (aq_proc (absq (en_ready e)))),
       cs_Dead = length (aq_dead (absq (en_ready e))), cs_ActiveLeases = card (dom (gm_get (en_leases e))),
       cs_ExpirationHeap = length (en_expirations e)\<rparr> \<and>
    cs_Processing (engine_Stats ops e) \<le> cs_ActiveLeases (engine_Stats ops e) \<and>
    cs_ActiveLeases (engine_Stats ops e) \<le> cs_ExpirationHeap (engine_Stats ops e)"
proof -
  let ?P = "aq_proc (absq (en_ready e))" and ?L = "gm_get (en_leases e)"
  have lok: "leases_ok e" and bi: "b_inv (en_ready e)" and cov: "covers (en_leases e) (absq (en_ready e))"
    using assms(2) by (simp_all add: engine_inv_def store_inv_def)
  have rb: "reliable_backend ops absq b_inv room" using assms(1) by (simp add: engine_contracts_def)
  have eq: "engine_Stats ops e =
      \<lparr>cs_Ready = length (aq_ready (absq (en_ready e))), cs_Processing = card (dom ?P),
       cs_Dead = length (aq_dead (absq (en_ready e))), cs_ActiveLeases = card (dom ?L),
       cs_ExpirationHeap = length (en_expirations e)\<rparr>"
    using reliable_backend.Stats [OF rb bi] lok
    by (simp add: engine_Stats_def eh_Len_def Let_def leases_ok_def gm_length_card)
  have "dom ?L \<subseteq> ei_LeaseID ` set (en_expirations e)" using lok by (simp add: leases_ok_def)
  then have "card (dom ?L) \<le> card (ei_LeaseID ` set (en_expirations e))" by (rule card_mono [rotated]) simp
  also have "\<dots> \<le> length (en_expirations e)" by (metis card_image_le card_length finite_set le_trans)
  finally have heap: "card (dom ?L) \<le> length (en_expirations e)" .
  let ?fence = "\<lambda>tid. snd (the (?P tid))"
  have held: "\<exists>le. ?L (?fence tid) = Some le \<and> task_ID (lease_Task le) = tid" if "tid \<in> dom ?P" for tid
    using cov that unfolding covers_def by fastforce
  have "inj_on ?fence (dom ?P)"
  proof (rule inj_onI)
    fix x y assume "x \<in> dom ?P" "y \<in> dom ?P" "?fence x = ?fence y"
    with held [of x] held [of y] show "x = y" by (metis option.inject)
  qed
  moreover have "?fence ` dom ?P \<subseteq> dom ?L" using held by blast
  ultimately have "card (dom ?P) \<le> card (dom ?L)" by (rule card_inj_on_le) (simp add: finite_dom_map_of)
  with eq heap show ?thesis by simp
qed

section \<open>Restarts\<close>

text \<open>The example engine with a journal in a file.\<close>

definition lease_codec :: wal_codec where
  "lease_codec =
     \<lparr>json_Marshal = (\<lambda>r. if r = fetch_record example_lease then Inr ''{fetch}'' else Inl (ErrNew ''unsupported'')),
      json_Unmarshal = (\<lambda>p. if p = ''{fetch}'' then Inr (fetch_record example_lease) else Inl (ErrNew ''invalid''))\<rparr>"

lemma example_record_text: "record_text (fetch_record example_lease)" "record_text (close_record OpStale ''l1'')"
  using example_ids [THEN id_text_valid] by (simp_all add: record_text_close, simp add: record_text_def fetch_record_def example_lease_sel)

lemma lease_codec_ok: "codec_ok lease_codec"
  using example_record_text by (auto simp: codec_ok_def lease_codec_def split: if_splits)

abbreviation j_app :: "wal_state appender" where
  "j_app \<equiv> wal_append lease_codec"

definition new_journal :: wal_state where
  "new_journal = \<lparr>ws_log = \<lparr>log_path = ''j'',
       log_file = Some \<lparr>fh_path = ''j'', fh_pos = 0, fh_append = False, fh_open = True\<rparr>,
       log_sync = True, log_offset = 0, log_recovered = []\<rparr>,
     ws_disk = [''j'' \<mapsto> []], ws_envs = []\<rparr>"

definition journal_with_lease :: wal_state where
  "journal_with_lease = snd (j_app (fetch_record example_lease) new_journal)"

lemma new_journal_ok: "wal_invar lease_codec new_journal" "wal_records lease_codec new_journal = []"
proof -
  have ok: "log_ok lease_codec [] (ws_log new_journal, ws_disk new_journal)"
    by (simp add: log_ok_def new_journal_def)
  then show "wal_invar lease_codec new_journal"
    unfolding wal_invar_def using lease_codec_ok by (auto simp: new_journal_def)
  show "wal_records lease_codec new_journal = []" using ok by (rule wal_records_log_ok)
qed

lemma journal_append_run:
  "j_app (fetch_record example_lease) new_journal = (Inr (), journal_with_lease)"
  by (simp add: journal_with_lease_def wal_append_def new_journal_def Append_def encode_def lease_codec_def io_ok_def
      file_Write_def contents_of_def Let_def maxRecordBytes_def)

lemma journal_with_lease_ok:
  "wal_invar lease_codec journal_with_lease" "wal_records lease_codec journal_with_lease = [fetch_record example_lease]"
  using wal.append_ok [OF new_journal_ok(1) example_record_text(1) journal_append_run] new_journal_ok(2) by simp_all

definition journalled_engine :: "(MemoryQueue, wal_state) Engine" where
  "journalled_engine = fetched\<lparr>en_journal := Some journal_with_lease\<rparr>"

lemma example_live: "Live [fetch_record example_lease] = [(''l1'', fetch_record example_lease)]"
  by (simp add: Live_def live_step_def fetch_record_def example_lease_def)

lemma journalled_engine_inv:
  "engine_inv mem_abs (mem_inv (\<lambda>ks. ks)) (wal_records lease_codec) (wal_invar lease_codec) journalled_engine"
  using example_inv(2) journal_with_lease_ok
  by (auto simp: engine_inv_def store_inv_def journalled_engine_def leases_ok_def covers_def journalled_def
      fetch_run(2) booted_eq example_live example_lease_sel split: if_splits)

lemma journalled_engine_distinct: "aq_distinct (mem_abs (en_ready journalled_engine))"
  by (simp add: aq_distinct_def task_ids_def journalled_engine_def fetch_run(2) booted_eq)

lemma journal_contracts:
  "engine_contracts m_ops mem_abs (mem_inv (\<lambda>ks. ks)) any_task j_app (wal_records lease_codec) (wal_invar lease_codec)"
  by (rule mw.engine_contracts_axioms)

definition restarted :: "(MemoryQueue, wal_state) Engine" where
  "restarted = newEngine m_ops j_app any_order example_config (Some journal_with_lease)
     [fetch_record example_lease] (en_ready journalled_engine)"

lemma restarted_recovered: "en_recoveryErr restarted = None"
proof -
  have fences: "active_fences [(''l1'', fetch_record example_lease)] [''l1''] =
      [\<lparr>fence_TaskID = ''t1'', fence_LeaseID = ''l1''\<rparr>]"
    by (simp add: active_fences_def map_filter_simps fetch_record_def example_lease_sel)
  have "mem_RecoverOrphanedProcessing (\<lambda>ks. ks) [\<lparr>fence_TaskID = ''t1'', fence_LeaseID = ''l1''\<rparr>] (en_ready journalled_engine) =
      (Inr \<lparr>rr_Moved = 0, rr_MatchedLeaseIDs = [(''l1'', ())]\<rparr>, en_ready journalled_engine)"
    by (simp add: mem_RecoverOrphanedProcessing_def recover_entry_def journalled_engine_def fetch_run(2))
  with fences show ?thesis
    by (simp add: restarted_def newEngine_def restore_def example_live Let_def is_matched_def install_lease_def)
qed

text \<open>C2. A durable lease survives a crash: wherever the process dies, between two methods or between a
  storage transition and its journal record, a restart that recovers has every lease whose task is still in
  processing storage, with the same task, start and deadline.\<close>

theorem crash_keeps_leases:
  assumes "engine_contracts ops absq b_inv room app records j_inv" and "engine_inv absq b_inv records j_inv e"
    and "aq_distinct (absq (en_ready e))" and "crash_point ops absq room app e b j K"
    and "j_inv j'" and "records j' = records j" and "\<And>i. range_order (ord i)"
    and "e' = newEngine ops app ord config (Some j') (records j') b" and "en_recoveryErr e' = None"
    and "gm_get (en_leases e) l = Some le" and "aq_proc (absq b) tid = Some (t, l)"
  shows "gm_get (en_leases e') l = Some le"
  by (rule engine_contracts.restart_keeps_lease [OF assms(1,4,2,3,5-11)])

theorem crash_keeps_leases_witness:
  "gm_get (en_leases restarted) ''l1'' = Some example_lease"
proof -
  have cp: "crash_point m_ops mem_abs any_task j_app journalled_engine (en_ready journalled_engine) journal_with_lease {#}"
    by (rule crash_point.between) (simp add: journalled_engine_def)
  have ord: "\<And>i. range_order (any_order i)" by (rule range_order_id)
  have e': "restarted = newEngine m_ops j_app any_order example_config (Some journal_with_lease)
      (wal_records lease_codec journal_with_lease) (en_ready journalled_engine)"
    by (simp add: restarted_def journal_with_lease_ok(2))
  have lease: "gm_get (en_leases journalled_engine) ''l1'' = Some example_lease"
    by (simp add: journalled_engine_def fetch_run(2))
  have proc: "aq_proc (mem_abs (en_ready journalled_engine)) ''t1'' = Some (example_task, ''l1'')"
    by (simp add: journalled_engine_def fetch_run(2))
  show ?thesis
    by (rule crash_keeps_leases [OF journal_contracts journalled_engine_inv journalled_engine_distinct cp
        journal_with_lease_ok(1) refl ord e' restarted_recovered lease proc])
qed

text \<open>C3. Recovery, exactly: over any storage that keeps its contract, failing calls included, a start that
  reports no recovery error holds exactly the open leases of the journal whose task is in processing
  storage under that lease; all other tasks of processing storage are back in ready storage as they were;
  and it keeps the engine's invariant. A start that does report one has lost no task either. The ids in storage and
  in the journal are valid UTF-8.\<close>

theorem recovery_exact:
  assumes "recovery_contracts ops absq b_inv room app records j_inv" and "b_inv b" and "\<And>i. range_order (ord i)"
    and "\<forall>j. journal = Some j \<longrightarrow> j_inv j \<and> records j = rs"
    and "e = newEngine ops app ord config journal rs b" and "list_all record_text rs"
    and "\<forall>x \<in># task_ids (absq b). utf8_valid x"
  shows "task_ids (absq (en_ready e)) = task_ids (absq b) \<and>
    (en_recoveryErr e = None \<longrightarrow>
       gm_get (en_leases e) = surviving_leases rs (absq b) \<and> recovered_queue rs (absq b) (absq (en_ready e)) \<and>
       engine_inv absq b_inv records j_inv e)"
  using recovery_contracts.newEngine_conserves [OF assms(1,5,2,3,4)]
    recovery_contracts.newEngine_leases [OF assms(1,5,2,3,4)]
    recovery_contracts.newEngine_inv [OF assms(1,5,2,3,4) _ assms(6,7)]
  by blast

theorem recovery_exact_witness:
  "en_recoveryErr restarted = None \<and>
   gm_get (en_leases restarted) = surviving_leases [fetch_record example_lease] (mem_abs (en_ready journalled_engine))"
proof -
  have rc: "recovery_contracts m_ops mem_abs (mem_inv (\<lambda>ks. ks)) any_task j_app (wal_records lease_codec) (wal_invar lease_codec)"
    by (rule mw.rc.recovery_contracts_axioms)
  have b: "mem_inv (\<lambda>ks. ks) (en_ready journalled_engine)"
    using journalled_engine_inv by (simp add: engine_inv_def store_inv_def)
  have ord: "\<And>i. range_order (any_order i)" by (rule range_order_id)
  have j: "\<forall>j. Some journal_with_lease = Some j \<longrightarrow>
      wal_invar lease_codec j \<and> wal_records lease_codec j = [fetch_record example_lease]"
    using journal_with_lease_ok by simp
  have rt: "list_all record_text [fetch_record example_lease]" using example_record_text(1) by simp
  have ids: "\<forall>x \<in># task_ids (mem_abs (en_ready journalled_engine)). utf8_valid x"
    using example_ids(1) [THEN id_text_valid] by (simp add: task_ids_def journalled_engine_def fetch_run(2) booted_eq)
  show ?thesis
    using recovery_exact [OF rc b ord j restarted_def rt ids] restarted_recovered by blast
qed

text \<open>C18. Recovery can be repeated: when a start fails after it has reconciled storage or written some of
  the stale records, the next start on what is then in storage and journal finds the same leases and ends
  with the same storage as if the first had succeeded.\<close>

theorem recovery_repeatable:
  assumes "recovery_contracts ops absq b_inv room app records j_inv" and "b_inv b" and "j_inv j"
    and "\<And>i. range_order (ord1 i)" and "\<And>i. range_order (ord2 i)"
    and "e1 = newEngine ops app ord1 config (Some j) (records j) b" and "en_journal e1 = Some j1"
    and "e2 = newEngine ops app ord2 config (Some j1) (records j1) (en_ready e1)" and "en_recoveryErr e2 = None"
  shows "gm_get (en_leases e2) = surviving_leases (records j) (absq b) \<and>
    recovered_queue (records j) (absq b) (absq (en_ready e2))"
  using recovery_contracts.newEngine_again [OF assms(1,6,2,3,4,5,7,8,9)] by blast

text \<open>The journal's disk is full at the first start: the stale record of a lease whose task is gone cannot
  be written. The second start succeeds.\<close>

definition stale_codec :: wal_codec where
  "stale_codec =
     \<lparr>json_Marshal = (\<lambda>r. if r = fetch_record example_lease then Inr ''{fetch}'' else
                        if r = close_record OpStale ''l1'' then Inr ''{stale}'' else Inl (ErrNew ''unsupported'')),
      json_Unmarshal = (\<lambda>p. if p = ''{fetch}'' then Inr (fetch_record example_lease) else
                          if p = ''{stale}'' then Inr (close_record OpStale ''l1'') else Inl (ErrNew ''invalid''))\<rparr>"

abbreviation s_app :: "wal_state appender" where
  "s_app \<equiv> wal_append stale_codec"

definition no_space :: io_env where
  "no_space = \<lparr>io_fault = (\<lambda>s. if s = SysWrite then Some (ErrNew ''no space left on device'') else None),
     io_written = 0, io_readahead = 0\<rparr>"

definition full_journal :: wal_state where
  "full_journal = (snd (s_app (fetch_record example_lease) new_journal))\<lparr>ws_envs := [no_space]\<rparr>"

lemma stale_codec_ok: "codec_ok stale_codec"
  using example_record_text by (auto simp: codec_ok_def stale_codec_def split: if_splits)

lemma stale_not_fetch: "close_record OpStale ''l1'' \<noteq> fetch_record example_lease"
  by (simp add: close_record_def fetch_record_def OpStale_def OpFetch_def)

lemma full_journal_ok:
  "wal_invar stale_codec full_journal" "wal_records stale_codec full_journal = [fetch_record example_lease]"
proof -
  have ok: "log_ok stale_codec [] (ws_log new_journal, ws_disk new_journal)"
    by (simp add: log_ok_def new_journal_def)
  then have j: "wal_invar stale_codec new_journal" "wal_records stale_codec new_journal = []"
    unfolding wal_invar_def using stale_codec_ok wal_records_log_ok [OF ok] by (auto simp: new_journal_def)
  obtain j1 where run: "s_app (fetch_record example_lease) new_journal = (Inr (), j1)"
    by (simp add: wal_append_def new_journal_def Append_def encode_def stale_codec_def io_ok_def
        file_Write_def contents_of_def Let_def maxRecordBytes_def)
  note j1 = wal.append_ok [OF j(1) example_record_text(1) run]
  then show "wal_invar stale_codec full_journal" "wal_records stale_codec full_journal = [fetch_record example_lease]"
    using run j(2) by (auto simp: full_journal_def wal_invar_def wal_records_def untorn_def no_space_def)
qed

text \<open>The two starts on an empty backend.\<close>

definition first_start :: "(MemoryQueue, wal_state) Engine" where
  "first_start = newEngine m_ops s_app any_order example_config (Some full_journal)
     (wal_records stale_codec full_journal) NewMemoryQueue"

lemma stale_append:
  "\<exists>err j1. s_app (close_record OpStale ''l1'') full_journal = (Inl err, j1) \<and>
     (\<exists>j2. s_app (close_record OpStale ''l1'') j1 = (Inr (), j2))"
  using stale_not_fetch
  by (simp add: full_journal_def wal_append_def new_journal_def Append_def encode_def stale_codec_def io_ok_def
      no_space_def file_Write_def contents_of_def Let_def maxRecordBytes_def)

lemma start_with_stale_lease:
  "newEngine m_ops s_app any_order example_config (Some j) [fetch_record example_lease] NewMemoryQueue =
     (case s_app (close_record OpStale ''l1'') j of
        (res, j') \<Rightarrow> booted\<lparr>en_journal := Some j', en_recoveryErr :=
          (case res of Inl err \<Rightarrow> Some (ErrJoin [ErrRecoveryIncomplete, err]) | Inr _ \<Rightarrow> None)\<rparr>)"
  by (auto simp: newEngine_def restore_def example_live active_fences_def map_filter_simps heap_Init_Nil
      mem_RecoverOrphanedProcessing_def NewMemoryQueue_def is_matched_def engine_record_def booted_eq example_config_def
      requeueRetryDelay_def Let_def split: prod.splits sum.splits)

theorem recovery_repeatable_witness:
  "\<exists>j1. en_recoveryErr first_start \<noteq> None \<and> en_journal first_start = Some j1 \<and>
     gm_get (en_leases (newEngine m_ops s_app any_order example_config (Some j1) (wal_records stale_codec j1)
       (en_ready first_start))) = surviving_leases [fetch_record example_lease] (mem_abs NewMemoryQueue)"
proof -
  have rc: "recovery_contracts m_ops mem_abs (mem_inv (\<lambda>ks. ks)) any_task s_app (wal_records stale_codec) (wal_invar stale_codec)"
    by (rule mw.rc.recovery_contracts_axioms)
  have b: "mem_inv (\<lambda>ks. ks) NewMemoryQueue" by (simp add: mem_inv_def range_order_id)
  have ord: "\<And>i. range_order (any_order i)" by (rule range_order_id)
  obtain err j1 j2 where ap: "s_app (close_record OpStale ''l1'') full_journal = (Inl err, j1)"
    "s_app (close_record OpStale ''l1'') j1 = (Inr (), j2)"
    using stale_append by blast
  have e1: "first_start = booted\<lparr>en_journal := Some j1, en_recoveryErr := Some (ErrJoin [ErrRecoveryIncomplete, err])\<rparr>"
    by (simp add: first_start_def full_journal_ok(2) start_with_stale_lease ap(1))
  have first: "en_recoveryErr first_start \<noteq> None" "en_journal first_start = Some j1" "en_ready first_start = NewMemoryQueue"
    unfolding e1 by (simp_all add: booted_eq)
  have jr: "wal_records stale_codec j1 = [fetch_record example_lease] \<or>
      wal_records stale_codec j1 = [fetch_record example_lease, close_record OpStale ''l1'']"
    using wal.append_failed [OF full_journal_ok(1) example_record_text(2) ap(1)] full_journal_ok(2) by auto
  let ?e2 = "newEngine m_ops s_app any_order example_config (Some j1) (wal_records stale_codec j1) (en_ready first_start)"
  have "en_recoveryErr ?e2 = None"
    using jr
  proof
    assume "wal_records stale_codec j1 = [fetch_record example_lease]"
    then show ?thesis by (simp add: first(3) start_with_stale_lease ap(2))
  next
    assume "wal_records stale_codec j1 = [fetch_record example_lease, close_record OpStale ''l1'']"
    moreover have "Live [fetch_record example_lease, close_record OpStale ''l1''] = []"
      by (simp add: Live_def live_step_def fetch_record_def example_lease_sel close_record_def wal_op_defs)
    ultimately show ?thesis
      by (simp add: first(3) newEngine_def restore_def active_fences_def map_filter_simps heap_Init_Nil
          mem_RecoverOrphanedProcessing_def NewMemoryQueue_def Let_def)
  qed
  from recovery_repeatable [OF rc b full_journal_ok(1) ord ord first_start_def first(2) refl this] first full_journal_ok(2)
  show ?thesis by simp
qed

end
