(* ===== verification/Service.thy ===== *)
theory Service
  imports Engine_Runs
begin

text \<open>
  \<open>internal/service/service.go\<close>: named queues, each with an engine of its own that is created on first use.

  The two factories are functions of the world \<open>'w\<close> they are called in (for the journals, the files on disk)
  and of the queue name; a call passes the world it happens in. The fields \<open>Journal\<close> and \<open>Recovered\<close> of
  \<open>config.Engine\<close> are unset, as in \<open>cmd/moxy\<close>: a queue has a journal exactly when the journal factory is
  set. \<open>engineFor\<close> and \<open>existingEngines\<close> hold the mutex of the service, the engine methods that of their
  engine: the atomic sections are these, and \<open>service_run\<close> below interleaves them freely.
\<close>

section \<open>State\<close>

record ('j, 'w) ServiceConfig =
  sc_Engine :: EngineConfig
  sc_Journal :: "('w \<Rightarrow> string \<Rightarrow> go_error + ('j \<times> wal_record list)) option"
  sc_MaxQueues :: i64

record ('b, 'j, 'w) Service =
  svc_factory :: "'w \<Rightarrow> string \<Rightarrow> 'b"
  svc_engines :: "(string, ('b, 'j) Engine) gomap"
  svc_config :: "('j, 'w) ServiceConfig"

definition defaultMaxQueues :: nat where
  "defaultMaxQueues = 1024"

definition NewWithConfig ::
  "('w \<Rightarrow> string \<Rightarrow> 'b) \<Rightarrow> ('j, 'w) ServiceConfig \<Rightarrow> ('b, 'j, 'w) Service" where
  "NewWithConfig factory config = \<lparr>svc_factory = factory, svc_engines = [], svc_config = config\<rparr>"

definition NewService :: "('w \<Rightarrow> string \<Rightarrow> 'b) \<Rightarrow> ('b, 'j, 'w) Service" where
  "NewService factory =
     NewWithConfig factory
       \<lparr>sc_Engine = \<lparr>cfg_MaxAttempts = 0, cfg_RequeueRetryDelay = 0\<rparr>, sc_Journal = None, sc_MaxQueues = 0\<rparr>"

text \<open>The character test. Go ranges over the runes of the name; the bytes of a rune outside ASCII are all
  at least 128 and the rune is rejected, as each of its bytes is here.\<close>

definition name_char :: "char \<Rightarrow> bool" where
  "name_char c \<longleftrightarrow>
     (let n = of_char c :: nat
      in 97 \<le> n \<and> n \<le> 122 \<or> 65 \<le> n \<and> n \<le> 90 \<or> 48 \<le> n \<and> n \<le> 57 \<or> c = CHR ''-'' \<or> c = CHR ''_'')"

definition validQueueName :: "string \<Rightarrow> bool" where
  "validQueueName queueName \<longleftrightarrow>
     \<not> (queueName = [] \<or> length queueName > 64) \<and> list_all name_char queueName"

definition maxQueues :: "('b, 'j, 'w) Service \<Rightarrow> int" where
  "maxQueues s =
     (if sc_MaxQueues (svc_config s) = 0 then int defaultMaxQueues else sint (sc_MaxQueues (svc_config s)))"

definition put_engine :: "string \<Rightarrow> ('b, 'j) Engine \<Rightarrow> ('b, 'j, 'w) Service \<Rightarrow> ('b, 'j, 'w) Service" where
  "put_engine queueName e s = s\<lparr>svc_engines := gm_put queueName e (svc_engines s)\<rparr>"

section \<open>Operations\<close>

text \<open>\<open>engineFor\<close> returns a pointer to the engine in the map. Here it returns the engine, and the caller
  puts what its method makes of it back into the map.\<close>

definition engineFor ::
  "'b backend_ops \<Rightarrow> 'j appender \<Rightarrow> (nat \<Rightarrow> string list \<Rightarrow> string list) \<Rightarrow> 'w \<Rightarrow> string \<Rightarrow>
   ('b, 'j, 'w) Service \<Rightarrow> (go_error + ('b, 'j) Engine) \<times> ('b, 'j, 'w) Service" where
  "engineFor ops app ord w queueName s =
     (if \<not> validQueueName queueName then (Inl ErrInvalidQueueName, s)
      else case gm_get (svc_engines s) queueName of
        Some engine \<Rightarrow> (Inr engine, s)
      | None \<Rightarrow>
          if maxQueues s > 0 \<and> int (length (svc_engines s)) \<ge> maxQueues s then (Inl ErrTooManyQueues, s)
          else
            (case (case sc_Journal (svc_config s) of
                     None \<Rightarrow> Inr (None, [])
                   | Some open \<Rightarrow>
                       (case open w queueName of
                          Inl err \<Rightarrow> Inl err
                        | Inr (journal, recovered) \<Rightarrow> Inr (Some journal, recovered))) of
               Inl err \<Rightarrow> (Inl err, s)
             | Inr (journal, recovered) \<Rightarrow>
                 let engine = NewEngineWithBackendAndConfig ops app ord (sc_Engine (svc_config s)) journal recovered
                                (svc_factory s w queueName)
                 in (Inr engine, put_engine queueName engine s)))"

definition svc_Enqueue ::
  "'b backend_ops \<Rightarrow> 'j appender \<Rightarrow> (nat \<Rightarrow> string list \<Rightarrow> string list) \<Rightarrow> 'w \<Rightarrow> string \<Rightarrow>
   string \<Rightarrow> bytes option \<Rightarrow> ('b, 'j, 'w) Service \<Rightarrow> (go_error + task) \<times> ('b, 'j, 'w) Service" where
  "svc_Enqueue ops app ord w uuid queueName payload s =
     (case engineFor ops app ord w queueName s of
        (Inl err, s') \<Rightarrow> (Inl err, s')
      | (Inr engine, s') \<Rightarrow>
          (case engine_Enqueue ops uuid payload engine of
             (res, engine') \<Rightarrow> (res, put_engine queueName engine' s')))"

definition svc_Fetch ::
  "'b backend_ops \<Rightarrow> 'j appender \<Rightarrow> (nat \<Rightarrow> string list \<Rightarrow> string list) \<Rightarrow> 'w \<Rightarrow> string \<Rightarrow> instant \<Rightarrow>
   string \<Rightarrow> duration \<Rightarrow> ('b, 'j, 'w) Service \<Rightarrow> (go_error + lease) \<times> ('b, 'j, 'w) Service" where
  "svc_Fetch ops app ord w uuid now queueName timeout s =
     (case engineFor ops app ord w queueName s of
        (Inl err, s') \<Rightarrow> (Inl err, s')
      | (Inr engine, s') \<Rightarrow>
          (case engine_Fetch ops app uuid now timeout engine of
             (res, engine') \<Rightarrow> (res, put_engine queueName engine' s')))"

text \<open>\<open>existingEngines\<close> lists the engines in the order \<open>rng\<close> of a map iteration; the loops that follow walk
  through them by name.\<close>

definition existingEngines :: "(string list \<Rightarrow> string list) \<Rightarrow> ('b, 'j, 'w) Service \<Rightarrow> string list" where
  "existingEngines rng s = rng (gm_keys (svc_engines s))"

fun ack_engines ::
  "'b backend_ops \<Rightarrow> 'j appender \<Rightarrow> string \<Rightarrow> string list \<Rightarrow> ('b, 'j, 'w) Service \<Rightarrow>
   (go_error + unit) \<times> ('b, 'j, 'w) Service" where
  "ack_engines ops app leaseID [] s = (Inl ErrLeaseNotFound, s)"
| "ack_engines ops app leaseID (n # ns) s =
     (case gm_get (svc_engines s) n of
        None \<Rightarrow> ack_engines ops app leaseID ns s
      | Some engine \<Rightarrow>
          (case engine_Ack ops app leaseID engine of
             (Inr _, engine') \<Rightarrow> (Inr (), put_engine n engine' s)
           | (Inl err, engine') \<Rightarrow>
               if \<not> errors_is err ErrLeaseNotFound then (Inl err, put_engine n engine' s)
               else ack_engines ops app leaseID ns (put_engine n engine' s)))"

definition svc_Ack ::
  "'b backend_ops \<Rightarrow> 'j appender \<Rightarrow> (string list \<Rightarrow> string list) \<Rightarrow> string \<Rightarrow> ('b, 'j, 'w) Service \<Rightarrow>
   (go_error + unit) \<times> ('b, 'j, 'w) Service" where
  "svc_Ack ops app rng leaseID s = ack_engines ops app leaseID (existingEngines rng s) s"

fun reap_engines ::
  "'b backend_ops \<Rightarrow> 'j appender \<Rightarrow> (string \<Rightarrow> instant) \<Rightarrow> instant \<Rightarrow> string list \<Rightarrow> nat \<Rightarrow> go_error list \<Rightarrow>
   ('b, 'j, 'w) Service \<Rightarrow> (nat \<times> go_error option) \<times> ('b, 'j, 'w) Service" where
  "reap_engines ops app wall now [] tot errs s = ((tot, errors_join errs), s)"
| "reap_engines ops app wall now (n # ns) tot errs s =
     (case gm_get (svc_engines s) n of
        None \<Rightarrow> reap_engines ops app wall now ns tot errs s
      | Some engine \<Rightarrow>
          (case engine_ReapExpired ops app wall now engine of
             ((requeued, err), engine') \<Rightarrow>
               reap_engines ops app wall now ns (tot + requeued)
                 (case err of None \<Rightarrow> errs | Some e \<Rightarrow> errs @ [e]) (put_engine n engine' s)))"

definition svc_ReapExpired ::
  "'b backend_ops \<Rightarrow> 'j appender \<Rightarrow> (string list \<Rightarrow> string list) \<Rightarrow> (string \<Rightarrow> instant) \<Rightarrow> instant \<Rightarrow>
   ('b, 'j, 'w) Service \<Rightarrow> (nat \<times> go_error option) \<times> ('b, 'j, 'w) Service" where
  "svc_ReapExpired ops app rng wall now s = reap_engines ops app wall now (existingEngines rng s) 0 [] s"

definition svc_Stats :: "'b backend_ops \<Rightarrow> string \<Rightarrow> ('b, 'j, 'w) Service \<Rightarrow> core_stats option" where
  "svc_Stats ops queueName s =
     (if \<not> validQueueName queueName then None
      else map_option (engine_Stats ops) (gm_get (svc_engines s) queueName))"

section \<open>Facts\<close>

abbreviation engine_at :: "('b, 'j, 'w) Service \<Rightarrow> string \<rightharpoonup> ('b, 'j) Engine" where
  "engine_at s \<equiv> gm_get (svc_engines s)"

lemma put_engine_sel [simp]:
  "engine_at (put_engine n e s) = (engine_at s)(n \<mapsto> e)"
  "svc_config (put_engine n e s) = svc_config s" "svc_factory (put_engine n e s) = svc_factory s"
  by (simp_all add: put_engine_def gomap_simps)

lemma put_engine_same: "engine_at s n = Some e \<Longrightarrow> put_engine n e s = s"
  by (simp add: put_engine_def update_triv)

lemma existingEngines_names:
  assumes "range_order rng" and "gm_ok (svc_engines s)"
  shows "set (existingEngines rng s) = dom (engine_at s) \<and> distinct (existingEngines rng s)"
  using assms range_order_set [of rng "gm_keys (svc_engines s)"] range_order_distinct [of rng "gm_keys (svc_engines s)"]
  by (simp add: existingEngines_def dom_map_of_conv_image_fst gm_ok_def)

text \<open>A service in good order: valid names, each once, and no more queues than allowed.\<close>

definition service_ok :: "('b, 'j, 'w) Service \<Rightarrow> bool" where
  "service_ok s \<longleftrightarrow> gm_ok (svc_engines s) \<and> (\<forall>n \<in> dom (engine_at s). validQueueName n) \<and>
     (0 < maxQueues s \<longrightarrow> int (length (svc_engines s)) \<le> maxQueues s)"

lemma length_put_same: "gm_ok m \<Longrightarrow> gm_get m k = Some v \<Longrightarrow> length (gm_put k v' m) = length m"
  by (metis gm_length_card gm_ok_put gm_get_put domI dom_fun_upd insert_absorb option.distinct(1))

lemma length_put_new: "gm_ok m \<Longrightarrow> gm_get m k = None \<Longrightarrow> length (gm_put k v m) = Suc (length m)"
proof -
  assume "gm_ok m" "gm_get m k = None"
  then have "length (gm_put k v m) = card (insert k (dom (gm_get m)))"
    by (simp add: gm_length_card gm_get_put)
  then show ?thesis using \<open>gm_ok m\<close> \<open>gm_get m k = None\<close> by (simp add: gm_length_card finite_dom_map_of card_insert_if domIff)
qed

lemma maxQueues_put [simp]: "maxQueues (put_engine n e s) = maxQueues s"
  by (simp add: maxQueues_def)

lemma service_ok_put: "service_ok s \<Longrightarrow> engine_at s n = Some e \<Longrightarrow> service_ok (put_engine n e' s)"
  by (auto simp: service_ok_def put_engine_def length_put_same maxQueues_def gomap_simps)

lemma service_ok_New [simp]: "service_ok (NewWithConfig factory config)"
  by (simp add: service_ok_def NewWithConfig_def maxQueues_def)

text \<open>\<open>engineFor\<close>, as one case rule: it refuses and changes nothing, it finds the engine, or it creates
  one.\<close>

lemma engineFor_cases:
  assumes "engineFor ops app ord w n s = (r, s')"
  obtains (refused) err where "r = Inl err" "s' = s"
  | (found) e where "r = Inr e" "s' = s" "engine_at s n = Some e" "validQueueName n"
  | (created) e journal recovered where "r = Inr e" "s' = put_engine n e s" "engine_at s n = None" "validQueueName n"
      "\<not> (0 < maxQueues s \<and> maxQueues s \<le> int (length (svc_engines s)))"
      "e = newEngine ops app ord (sc_Engine (svc_config s)) journal recovered (svc_factory s w n)"
      "case sc_Journal (svc_config s) of None \<Rightarrow> journal = None \<and> recovered = []
       | Some open \<Rightarrow> \<exists>j. open w n = Inr (j, recovered) \<and> journal = Some j"
proof (cases "validQueueName n")
  case False
  with assms show ?thesis by (intro refused) (auto simp: engineFor_def)
next
  case valid: True
  show ?thesis
  proof (cases "engine_at s n")
    case (Some e)
    with assms valid show ?thesis by (intro found) (auto simp: engineFor_def)
  next
    case None
    show ?thesis
    proof (cases "0 < maxQueues s \<and> maxQueues s \<le> int (length (svc_engines s))")
      case True
      with assms valid None show ?thesis by (intro refused) (auto simp: engineFor_def)
    next
      case room: False
      let ?new = "\<lambda>journal recovered. newEngine ops app ord (sc_Engine (svc_config s)) journal recovered (svc_factory s w n)"
      show ?thesis
      proof (cases "sc_Journal (svc_config s)")
        case None': None
        with assms valid None room show ?thesis
          by (intro created [of "?new None []" None "[]"]) (auto simp: engineFor_def NewEngineWithBackendAndConfig_def Let_def)
      next
        case (Some opener)
        show ?thesis
        proof (cases "opener w n")
          case (Inl err)
          with assms valid None room Some show ?thesis by (intro refused [of err]) (auto simp: engineFor_def)
        next
          case (Inr jr)
          with assms valid None room Some show ?thesis
            by (intro created [of "?new (Some (fst jr)) (snd jr)" "Some (fst jr)" "snd jr"])
              (auto simp: engineFor_def NewEngineWithBackendAndConfig_def Let_def split: prod.splits)
        qed
      qed
    qed
  qed
qed

lemma engineFor_ok:
  assumes "engineFor ops app ord w n s = (r, s')" and "service_ok s"
  shows "service_ok s' \<and> (\<forall>m. m \<noteq> n \<longrightarrow> engine_at s' m = engine_at s m) \<and> (\<forall>e. r = Inr e \<longrightarrow> engine_at s' n = Some e)"
  using assms(1)
proof (cases rule: engineFor_cases)
  case (created e journal recovered)
  then have "length (svc_engines s') = Suc (length (svc_engines s))"
    using assms(2) by (simp add: service_ok_def put_engine_def length_put_new)
  with created assms(2) show ?thesis by (auto simp: service_ok_def put_engine_def gomap_simps maxQueues_def)
qed (use assms(2) in auto)

text \<open>Acknowledgement: engines that have recovered and do not know the lease are passed over.\<close>

definition passes_over :: "string \<Rightarrow> ('b, 'j) Engine option \<Rightarrow> bool" where
  "passes_over leaseID eo \<longleftrightarrow>
     (\<forall>e. eo = Some e \<longrightarrow> en_recoveryErr e = None \<and> gm_get (en_leases e) leaseID = None)"

lemma ack_engines_over:
  "(\<forall>n \<in> set ns. passes_over leaseID (engine_at s n)) \<Longrightarrow>
   ack_engines ops app leaseID (ns @ ms) s = ack_engines ops app leaseID ms s"
proof (induction ns)
  case (Cons n ns)
  show ?case
  proof (cases "engine_at s n")
    case (Some e)
    with Cons.prems have "engine_Ack ops app leaseID e = (Inl ErrLeaseNotFound, e)"
      by (simp add: passes_over_def engine_Ack_def ensureRecovered_def)
    with Some Cons show ?thesis by (simp add: put_engine_same)
  qed (use Cons in simp)
qed simp

lemma ack_engines_none:
  "(\<forall>n \<in> set ns. passes_over leaseID (engine_at s n)) \<Longrightarrow>
   ack_engines ops app leaseID ns s = (Inl ErrLeaseNotFound, s)"
  using ack_engines_over [of ns leaseID s ops app "[]"] by simp

text \<open>What the service reports for the result of the engine that knows the lease.\<close>

definition ack_report :: "go_error + unit \<Rightarrow> go_error + unit" where
  "ack_report r =
     (case r of Inr _ \<Rightarrow> Inr () | Inl err \<Rightarrow> Inl (if errors_is err ErrLeaseNotFound then ErrLeaseNotFound else err))"

lemma svc_Ack_routes:
  assumes "range_order rng" and "gm_ok (svc_engines s)" and "engine_at s q = Some e"
    and "\<forall>n. n \<noteq> q \<longrightarrow> passes_over leaseID (engine_at s n)"
    and "engine_Ack ops app leaseID e = (r, e')"
  shows "svc_Ack ops app rng leaseID s = (ack_report r, put_engine q e' s)"
proof -
  have "q \<in> set (existingEngines rng s)" "distinct (existingEngines rng s)"
    using existingEngines_names [OF assms(1,2)] assms(3) by auto
  then obtain xs ys where order: "existingEngines rng s = xs @ q # ys" "q \<notin> set xs" "q \<notin> set ys"
    by (metis distinct.simps(2) distinct_append in_set_conv_decomp not_distinct_conv_prefix split_list)
  have before: "\<forall>n \<in> set xs. passes_over leaseID (engine_at s n)"
    and after: "\<forall>n \<in> set ys. passes_over leaseID (engine_at (put_engine q e' s) n)"
    using assms(4) order by auto
  show ?thesis
    using assms(3,5) ack_engines_none [OF after]
    by (cases r) (auto simp: svc_Ack_def order ack_engines_over [OF before] ack_report_def)
qed

text \<open>Reaping: every engine has its pass, whatever the others report.\<close>

abbreviation pass_of ::
  "'b backend_ops \<Rightarrow> 'j appender \<Rightarrow> (string \<Rightarrow> instant) \<Rightarrow> instant \<Rightarrow> ('b, 'j, 'w) Service \<Rightarrow> string \<Rightarrow>
   (nat \<times> go_error option) \<times> ('b, 'j) Engine" where
  "pass_of ops app wall now s m \<equiv> engine_ReapExpired ops app wall now (the (engine_at s m))"

lemma reap_engines_result:
  assumes "reap_engines ops app wall now ns tot errs s = ((n, err), s')" and "distinct ns"
    and "\<forall>m \<in> set ns. engine_at s m \<noteq> None"
  shows "engine_at s' = (\<lambda>m. if m \<in> set ns then Some (snd (pass_of ops app wall now s m)) else engine_at s m) \<and>
    n = tot + sum_list (map (\<lambda>m. fst (fst (pass_of ops app wall now s m))) ns) \<and>
    err = errors_join (errs @ List.map_filter (\<lambda>m. snd (fst (pass_of ops app wall now s m))) ns) \<and>
    svc_config s' = svc_config s"
  using assms
proof (induction ns arbitrary: tot errs s)
  case Nil
  then show ?case by (simp add: map_filter_simps)
next
  case (Cons m ns)
  obtain e where e: "engine_at s m = Some e" using Cons.prems(3) by auto
  obtain k er e' where run: "engine_ReapExpired ops app wall now e = ((k, er), e')" by (metis prod.collapse)
  let ?errs = "case er of None \<Rightarrow> errs | Some x \<Rightarrow> errs @ [x]" and ?s = "put_engine m e' s"
  have step: "reap_engines ops app wall now ns (tot + k) ?errs ?s = ((n, err), s')"
    using Cons.prems(1) e run by simp
  have same: "pass_of ops app wall now ?s x = pass_of ops app wall now s x" if "x \<in> set ns" for x
    using Cons.prems(2) that by auto
  have IH: "engine_at s' = (\<lambda>x. if x \<in> set ns then Some (snd (pass_of ops app wall now ?s x)) else engine_at ?s x) \<and>
      n = (tot + k) + sum_list (map (\<lambda>x. fst (fst (pass_of ops app wall now ?s x))) ns) \<and>
      err = errors_join (?errs @ List.map_filter (\<lambda>x. snd (fst (pass_of ops app wall now ?s x))) ns) \<and>
      svc_config s' = svc_config ?s"
    by (rule Cons.IH [OF step]) (use Cons.prems(2,3) in auto)
  have maps: "map (\<lambda>x. fst (fst (pass_of ops app wall now ?s x))) ns = map (\<lambda>x. fst (fst (pass_of ops app wall now s x))) ns"
    "List.map_filter (\<lambda>x. snd (fst (pass_of ops app wall now ?s x))) ns = List.map_filter (\<lambda>x. snd (fst (pass_of ops app wall now s x))) ns"
    using same by (simp_all add: map_filter_def cong: map_cong filter_cong)
  show ?case
    using IH e run Cons.prems(2) same unfolding maps
    by (auto simp: map_filter_simps fun_eq_iff split: option.splits)
qed

text \<open>All operations keep the service in good order, and those that name a queue leave the others alone.\<close>

lemma svc_queue_ops:
  assumes "service_ok s" and "svc_Enqueue ops app ord w uuid n p s = (r, s') \<or> svc_Fetch ops app ord w uuid now n timeout s = (rf, s')"
  shows "service_ok s' \<and> (\<forall>m. m \<noteq> n \<longrightarrow> engine_at s' m = engine_at s m)"
proof (cases "engineFor ops app ord w n s")
  case (Pair r1 s1)
  note ok = engineFor_ok [OF Pair assms(1)]
  show ?thesis
  proof (cases r1)
    case (Inl err)
    with Pair assms(2) have "s' = s1" by (auto simp: svc_Enqueue_def svc_Fetch_def)
    with ok show ?thesis by simp
  next
    case (Inr e)
    with Pair assms(2) obtain e' where "s' = put_engine n e' s1"
      by (auto simp: svc_Enqueue_def svc_Fetch_def split: prod.splits)
    with ok Inr service_ok_put [of s1 n e e'] show ?thesis by simp
  qed
qed

lemma ack_engines_ok: "service_ok s \<Longrightarrow> service_ok (snd (ack_engines ops app l ns s))"
proof (induction ns arbitrary: s)
  case (Cons n ns)
  show ?case
  proof (cases "engine_at s n")
    case (Some e)
    with Cons.IH service_ok_put [OF Cons.prems Some] show ?thesis by (auto split: prod.splits sum.splits)
  qed (use Cons in auto)
qed simp

lemma reap_engines_ok: "service_ok s \<Longrightarrow> service_ok (snd (reap_engines ops app wall now ns tot errs s))"
proof (induction ns arbitrary: s tot errs)
  case (Cons n ns)
  show ?case
  proof (cases "engine_at s n")
    case (Some e)
    with Cons.IH service_ok_put [OF Cons.prems Some] show ?thesis by (auto split: prod.splits)
  qed (use Cons in auto)
qed simp

section \<open>Interleavings\<close>

text \<open>What a new engine is given: well-formed storage with every task once, and the records of the journal
  it continues, all with valid text.\<close>

definition factory_ok ::
  "('b \<Rightarrow> aqueue) \<Rightarrow> ('b \<Rightarrow> bool) \<Rightarrow> ('j \<Rightarrow> wal_record list) \<Rightarrow> ('j \<Rightarrow> bool) \<Rightarrow> ('b, 'j, 'w) Service \<Rightarrow> 'w \<Rightarrow> string \<Rightarrow> bool" where
  "factory_ok absq b_inv records j_inv s w n \<longleftrightarrow>
     b_inv (svc_factory s w n) \<and> aq_distinct (absq (svc_factory s w n)) \<and>
     (\<forall>x \<in># task_ids (absq (svc_factory s w n)). utf8_valid x) \<and>
     (\<forall>opener j rs. sc_Journal (svc_config s) = Some opener \<longrightarrow> opener w n = Inr (j, rs) \<longrightarrow>
        j_inv j \<and> records j = rs \<and> list_all record_text rs)"

text \<open>Any number of clients and the reaper use the service at the same time. A step is one atomic section:
  \<open>engineFor\<close>, which may create an engine, or one method of one engine. \<open>service_run \<dots> E C T s\<close>: the service
  is \<open>s\<close> after such steps, the tasks \<open>E n\<close> have been put into queue \<open>n\<close> (in storage before the process
  started, or enqueued), \<open>C n\<close> have been completed, and the last pass of the reaper over it was at \<open>T n\<close>.\<close>

inductive service_run ::
  "'b backend_ops \<Rightarrow> ('b \<Rightarrow> aqueue) \<Rightarrow> ('b \<Rightarrow> bool) \<Rightarrow> (task \<Rightarrow> bool) \<Rightarrow> 'j appender \<Rightarrow> ('j \<Rightarrow> wal_record list) \<Rightarrow> ('j \<Rightarrow> bool) \<Rightarrow>
   (string \<Rightarrow> string multiset) \<Rightarrow> (string \<Rightarrow> string multiset) \<Rightarrow> (string \<Rightarrow> instant) \<Rightarrow> ('b, 'j, 'w) Service \<Rightarrow> bool"
  for ops :: "'b backend_ops" and absq b_inv room and app :: "'j appender" and records j_inv where
  start: "service_run ops absq b_inv room app records j_inv (\<lambda>_. {#}) (\<lambda>_. {#}) T (NewWithConfig factory config)"
| opened: "service_run ops absq b_inv room app records j_inv E C T s \<Longrightarrow> engine_at s n = None \<Longrightarrow>
     factory_ok absq b_inv records j_inv s w n \<Longrightarrow> (\<And>i. range_order (ord i)) \<Longrightarrow>
     engineFor ops app ord w n s = (Inr e, s') \<Longrightarrow>
     service_run ops absq b_inv room app records j_inv (E(n := task_ids (absq (svc_factory s w n)))) (C(n := {#})) T s'"
| enqueue: "service_run ops absq b_inv room app records j_inv E C T s \<Longrightarrow> engine_at s n = Some e \<Longrightarrow> uuid \<notin># E n \<Longrightarrow> id_text uuid \<Longrightarrow>
     engine_Enqueue ops uuid p e = (Inr t, e') \<Longrightarrow>
     service_run ops absq b_inv room app records j_inv (E(n := add_mset uuid (E n))) C T (put_engine n e' s)"
| fetch: "service_run ops absq b_inv room app records j_inv E C T s \<Longrightarrow> engine_at s n = Some e \<Longrightarrow>
     uuid \<notin> ei_LeaseID ` set (en_expirations e) \<Longrightarrow> id_text uuid \<Longrightarrow>
     can_fetch room (absq (en_ready e)) \<Longrightarrow> engine_Fetch ops app uuid now timeout e = (rf, e') \<Longrightarrow>
     service_run ops absq b_inv room app records j_inv E C T (put_engine n e' s)"
| ack: "service_run ops absq b_inv room app records j_inv E C T s \<Longrightarrow> engine_at s n = Some e \<Longrightarrow>
     engine_Ack ops app l e = (ra, e') \<Longrightarrow>
     service_run ops absq b_inv room app records j_inv E
       (C(n := C n + (if en_recoveryErr e = None then ack_completes absq l e else {#}))) T (put_engine n e' s)"
| reap: "service_run ops absq b_inv room app records j_inv E C T s \<Longrightarrow> engine_at s n = Some e \<Longrightarrow> T n \<le> now \<Longrightarrow>
     can_reap room wall (absq (en_ready e)) \<Longrightarrow> engine_ReapExpired ops app wall now e = (rr, e') \<Longrightarrow>
     service_run ops absq b_inv room app records j_inv E C (T(n := now)) (put_engine n e' s)"

lemma service_run_engine:
  "service_run ops absq b_inv room app records j_inv E C T s \<Longrightarrow> engine_at s n = Some e \<Longrightarrow>
   engine_run ops absq b_inv room app records j_inv (E n) (C n) (T n) e"
proof (induction arbitrary: n e rule: service_run.induct)
  case (start T factory config)
  then show ?case by (simp add: NewWithConfig_def)
next
  case (opened E C T s n w ord e' s' m e)
  from opened.hyps(5) show ?case
  proof (cases rule: engineFor_cases)
    case (created e1 journal recovered)
    show ?thesis
    proof (cases "m = n")
      case True
      have "list_all record_text recovered \<and> (\<forall>j. journal = Some j \<longrightarrow> j_inv j \<and> records j = recovered)"
        using created(7) opened.hyps(3) by (auto simp: factory_ok_def split: option.splits)
      then have "engine_run ops absq b_inv room app records j_inv (task_ids (absq (svc_factory s w n))) {#} (T n) e1"
        using opened.hyps(3,4) created(6) unfolding factory_ok_def
        by (intro engine_run.boot [where b = "svc_factory s w n" and ord = ord and journal = journal and rs = recovered]) blast+
      with True created opened.prems show ?thesis by simp
    next
      case False
      with created opened.prems opened.IH show ?thesis by simp
    qed
  qed (use opened.hyps(2) in auto)
next
  case (enqueue E C T s m e1 uuid p t e')
  then show ?case by (cases "n = m") (auto intro: engine_run.enqueue)
next
  case (fetch E C T s m e1 uuid now timeout rf e')
  then show ?case by (cases "n = m") (auto intro: engine_run.fetch)
next
  case (ack E C T s m e1 l ra e')
  then show ?case using engine_run.ack [OF ack.IH [OF ack.hyps(2)] ack.hyps(3)] by (cases "n = m") auto
next
  case (reap E C T s m e1 now wall rr e')
  then show ?case by (cases "n = m") (auto intro: engine_run.reap)
qed

lemma service_run_ok: "service_run ops absq b_inv room app records j_inv E C T s \<Longrightarrow> service_ok s"
  by (induction rule: service_run.induct) (auto intro: service_ok_put dest: engineFor_ok)

text \<open>The operations of the service are sequences of such steps.\<close>

lemma ack_engines_run:
  "service_run ops absq b_inv room app records j_inv E C T s \<Longrightarrow> ack_engines ops app l ns s = (r, s') \<Longrightarrow>
   \<exists>C'. service_run ops absq b_inv room app records j_inv E C' T s'"
proof (induction ns arbitrary: C s)
  case (Cons n ns)
  show ?case
  proof (cases "engine_at s n")
    case (Some e)
    obtain ra e' where a: "engine_Ack ops app l e = (ra, e')" by fastforce
    note step = service_run.ack [OF Cons.prems(1) Some a]
    with Cons.prems(2) Some a show ?thesis
      by (cases ra) (auto split: if_splits intro: Cons.IH [OF step])
  qed (use Cons in auto)
qed auto

lemma reap_engines_run:
  "service_run ops absq b_inv room app records j_inv E C T s \<Longrightarrow>
   reap_engines ops app wall now ns tot errs s = (r, s') \<Longrightarrow> \<forall>m. T m \<le> now \<Longrightarrow> distinct ns \<Longrightarrow>
   \<forall>m \<in> set ns. \<forall>e. engine_at s m = Some e \<longrightarrow> can_reap room wall (absq (en_ready e)) \<Longrightarrow>
   \<exists>T'. service_run ops absq b_inv room app records j_inv E C T' s'"
proof (induction ns arbitrary: T tot errs s)
  case (Cons n ns)
  show ?case
  proof (cases "engine_at s n")
    case (Some e)
    obtain k er e' where a: "engine_ReapExpired ops app wall now e = ((k, er), e')" by (metis prod.collapse)
    have "T n \<le> now" "can_reap room wall (absq (en_ready e))" using Cons.prems(3,5) Some by auto
    note step = service_run.reap [OF Cons.prems(1) Some this a]
    from Cons.prems(2-5) Some a show ?thesis by (intro Cons.IH [OF step]) auto
  qed (use Cons in auto)
qed auto

text \<open>\<open>engineFor\<close> in a run: the engine it returns is that of the queue after the step. A queue that is new
  starts with what the factory found in storage.\<close>

definition opens :: "('b \<Rightarrow> aqueue) \<Rightarrow> ('b, 'j, 'w) Service \<Rightarrow> 'w \<Rightarrow> string \<Rightarrow>
    (string \<Rightarrow> string multiset) \<Rightarrow> string \<Rightarrow> string multiset" where
  "opens absq s w n E = (if engine_at s n = None then E(n := task_ids (absq (svc_factory s w n))) else E)"

lemma engineFor_run:
  assumes "service_run ops absq b_inv room app records j_inv E C T s" and "factory_ok absq b_inv records j_inv s w n"
    and "\<And>i. range_order (ord i)" and "engineFor ops app ord w n s = (Inr e, s')"
  shows "\<exists>C'. service_run ops absq b_inv room app records j_inv (opens absq s w n E) C' T s' \<and> engine_at s' n = Some e"
proof (cases "engine_at s n")
  case None
  from service_run.opened [OF assms(1) None assms(2,3,4)] have
    "service_run ops absq b_inv room app records j_inv (opens absq s w n E) (C(n := {#})) T s'"
    using None by (simp add: opens_def)
  moreover from assms(4) have "engine_at s' n = Some e" by (cases rule: engineFor_cases) (use None in auto)
  ultimately show ?thesis by blast
next
  case (Some e1)
  from assms(4) have "s' = s \<and> e = e1" by (cases rule: engineFor_cases) (use Some in auto)
  with assms(1) Some show ?thesis by (auto simp: opens_def)
qed

lemma svc_Enqueue_run:
  assumes "service_run ops absq b_inv room app records j_inv E C T s" and "factory_ok absq b_inv records j_inv s w n"
    and "\<And>i. range_order (ord i)" and "svc_Enqueue ops app ord w uuid n p s = (Inr t, s')"
    and "uuid \<notin># opens absq s w n E n" and "id_text uuid"
  shows "\<exists>C'. service_run ops absq b_inv room app records j_inv
    ((opens absq s w n E)(n := add_mset uuid (opens absq s w n E n))) C' T s'"
proof -
  obtain e s1 e' where run: "engineFor ops app ord w n s = (Inr e, s1)" "engine_Enqueue ops uuid p e = (Inr t, e')"
    "s' = put_engine n e' s1"
    using assms(4) by (auto simp: svc_Enqueue_def split: prod.splits sum.splits)
  from engineFor_run [OF assms(1-3) run(1)] obtain C' where
    "service_run ops absq b_inv room app records j_inv (opens absq s w n E) C' T s1" "engine_at s1 n = Some e" by blast
  from service_run.enqueue [OF this assms(5,6) run(2)] run(3) show ?thesis by blast
qed

lemma svc_Fetch_run:
  assumes "service_run ops absq b_inv room app records j_inv E C T s" and "factory_ok absq b_inv records j_inv s w n"
    and "\<And>i. range_order (ord i)" and "svc_Fetch ops app ord w uuid now n timeout s = (r, s')"
    and "\<And>e s1. engineFor ops app ord w n s = (Inr e, s1) \<Longrightarrow>
      uuid \<notin> ei_LeaseID ` set (en_expirations e) \<and> can_fetch room (absq (en_ready e))"
    and "id_text uuid"
  shows "\<exists>E' C'. service_run ops absq b_inv room app records j_inv E' C' T s'"
proof (cases "engineFor ops app ord w n s")
  case (Pair r1 s1)
  show ?thesis
  proof (cases r1)
    case (Inl err)
    from Pair Inl have "s1 = s" by (auto elim: engineFor_cases)
    with assms(1,4) Pair Inl show ?thesis by (auto simp: svc_Fetch_def)
  next
    case (Inr e)
    obtain rf e' where f: "engine_Fetch ops app uuid now timeout e = (rf, e')" by fastforce
    with assms(4) Pair Inr have "s' = put_engine n e' s1" by (simp add: svc_Fetch_def)
    moreover have "engineFor ops app ord w n s = (Inr e, s1)" using Pair Inr by simp
    from engineFor_run [OF assms(1-3) this] obtain E' C' where
      sr: "service_run ops absq b_inv room app records j_inv E' C' T s1" "engine_at s1 n = Some e" by blast
    moreover have "uuid \<notin> ei_LeaseID ` set (en_expirations e)" "can_fetch room (absq (en_ready e))"
      using assms(5) Pair Inr by blast+
    ultimately show ?thesis using service_run.fetch [OF sr _ assms(6) _ f] by blast
  qed
qed

end
