(* ===== verification/Reaper.thy ===== *)
theory Reaper
  imports Service
begin

text \<open>
  \<open>internal/reaper/reaper.go\<close>: the loop that calls \<open>ReapExpired\<close> of its target on every tick.
\<close>

text \<open>\<open>Run\<close>: each turn of the loop waits for the end of the context or the next tick. An error of a
  pass is logged and the loop goes on.\<close>

datatype reaper_event = Done | Tick instant

fun reaper_Run ::
  "(instant \<Rightarrow> 's \<Rightarrow> (nat \<times> go_error option) \<times> 's) \<Rightarrow> reaper_event list \<Rightarrow> go_error list \<Rightarrow> 's \<Rightarrow> go_error list \<times> 's" where
  "reaper_Run target [] logged s = (logged, s)"
| "reaper_Run target (Done # _) logged s = (logged, s)"
| "reaper_Run target (Tick now # events) logged s =
     (case target now s of
        ((_, None), s') \<Rightarrow> reaper_Run target events logged s'
      | ((_, Some err), s') \<Rightarrow> reaper_Run target events (logged @ [err]) s')"

text \<open>A tick that logs nothing is a pass of the target that reported no error.\<close>

lemma reaper_Run_clean:
  assumes "reaper_Run target (Tick now # Done # events) logged s = (logged, s')"
  shows "\<exists>k. target now s = ((k, None), s')"
  using assms by (auto split: prod.splits option.splits)

end
