(* ===== verification/Service_Properties.thy ===== *)
theory Service_Properties
  imports Reaper Engine_Properties
begin

text \<open>
  The properties of the service (\<open>internal/service/service.go\<close>): routing of acknowledgements, the cap on the
  number of queues, reaping over all queues, and conservation of tasks in every interleaving of clients
  and reaper.
\<close>

section \<open>A service for the examples\<close>

definition example_service :: "(MemoryQueue, wal_state, unit) Service" where
  "example_service =
     \<lparr>svc_factory = (\<lambda>_ _. NewMemoryQueue), svc_engines = [(''a'', booted), (''q'', fetched)],
      svc_config = \<lparr>sc_Engine = example_config, sc_Journal = None, sc_MaxQueues = 2\<rparr>\<rparr>"

lemma example_service_engines:
  "engine_at example_service = [''a'' \<mapsto> booted, ''q'' \<mapsto> fetched]" "gm_ok (svc_engines example_service)"
  by (auto simp: example_service_def gm_ok_def)

lemma example_service_ok: "service_ok example_service"
  by (auto simp: service_ok_def example_service_def gm_ok_def validQueueName_def name_char_def maxQueues_def)

section \<open>Acknowledgements\<close>



text \<open>C38. One queue whose recovery failed can block the acknowledgements of all others: there is an order of
  the map iteration in which the acknowledgement of any lease, of whatever queue, is refused with the
  recovery error of that queue and nothing changes.\<close>

theorem service_ack_blocked:
  assumes "gm_ok (svc_engines s)" and "engine_at s bad = Some e" and "en_recoveryErr e = Some err"
    and "\<not> errors_is err ErrLeaseNotFound"
  shows "\<exists>rng. range_order rng \<and> (\<forall>l. svc_Ack ops app rng l s = (Inl err, s))"
proof (intro exI conjI allI)
  let ?rng = "\<lambda>ks. if bad \<in> set ks then bad # remove1 bad ks else ks"
  show "range_order ?rng" by (simp add: range_order_def)
  fix l
  have "bad \<in> set (gm_keys (svc_engines s))" using assms(2) by (simp add: gm_keys_dom domI del: set_map)
  then have order: "existingEngines ?rng s = bad # remove1 bad (gm_keys (svc_engines s))"
    by (simp add: existingEngines_def del: set_map)
  have "engine_Ack ops app l e = (Inl err, e)" by (rule unrecovered_refuses(3) [OF assms(3)])
  with assms(2,4) show "svc_Ack ops app ?rng l s = (Inl err, s)"
    unfolding svc_Ack_def order by (simp add: put_engine_same)
qed

definition broken_service :: "(MemoryQueue, wal_state, unit) Service" where
  "broken_service = put_engine ''a'' (booted\<lparr>en_recoveryErr := Some (ErrJoin [ErrRecoveryIncomplete, ErrNew ''EOF''])\<rparr>) example_service"

theorem service_ack_blocked_witness:
  "gm_get (en_leases fetched) ''l1'' = Some example_lease \<and> engine_at broken_service ''q'' = Some fetched \<and>
   (\<exists>rng. range_order rng \<and> svc_Ack m_ops w_app rng ''l1'' broken_service =
     (Inl (ErrJoin [ErrRecoveryIncomplete, ErrNew ''EOF'']), broken_service))"
proof -
  let ?e = "booted\<lparr>en_recoveryErr := Some (ErrJoin [ErrRecoveryIncomplete, ErrNew ''EOF''])\<rparr>"
  have ok: "gm_ok (svc_engines broken_service)"
    using example_service_engines(2) by (simp add: broken_service_def put_engine_def)
  have at: "engine_at broken_service ''a'' = Some ?e" "engine_at broken_service ''q'' = Some fetched"
    by (simp_all add: broken_service_def example_service_engines)
  have err: "en_recoveryErr ?e = Some (ErrJoin [ErrRecoveryIncomplete, ErrNew ''EOF''])" by simp
  have "\<not> errors_is (ErrJoin [ErrRecoveryIncomplete, ErrNew ''EOF'']) ErrLeaseNotFound" by simp
  from service_ack_blocked [OF ok at(1) err this, of m_ops w_app] at(2)
  have "engine_at broken_service ''q'' = Some fetched" "\<exists>rng. range_order rng \<and> svc_Ack m_ops w_app rng ''l1'' broken_service =
      (Inl (ErrJoin [ErrRecoveryIncomplete, ErrNew ''EOF'']), broken_service)" by blast+
  moreover have "gm_get (en_leases fetched) ''l1'' = Some example_lease" by (simp add: fetch_run(2))
  ultimately show ?thesis by blast
qed

section \<open>The number of queues\<close>

text \<open>C37. The service never holds more queues than its limit (1024 unless configured; none when negative),
  all of them under valid names: every operation keeps this. A call that names a queue leaves all other
  queues as they are, a queue that exists is never refused, and a new one is refused exactly when its name
  is invalid, the limit is reached, or its journal cannot be opened.\<close>

theorem service_queue_cap:
  assumes "service_ok s"
  shows "(\<forall>n p r s'. svc_Enqueue ops app ord w uuid n p s = (r, s') \<longrightarrow>
      service_ok s' \<and> (\<forall>m. m \<noteq> n \<longrightarrow> engine_at s' m = engine_at s m)) \<and>
    (\<forall>n timeout r s'. svc_Fetch ops app ord w uuid now n timeout s = (r, s') \<longrightarrow>
      service_ok s' \<and> (\<forall>m. m \<noteq> n \<longrightarrow> engine_at s' m = engine_at s m)) \<and>
    service_ok (snd (svc_Ack ops app rng l s)) \<and> service_ok (snd (svc_ReapExpired ops app rng wall now s)) \<and>
    (\<forall>n. (\<exists>err. engineFor ops app ord w n s = (Inl err, s)) \<longleftrightarrow>
      \<not> validQueueName n \<or> engine_at s n = None \<and>
        (0 < maxQueues s \<and> int (length (svc_engines s)) = maxQueues s \<or>
         (\<exists>opener err. sc_Journal (svc_config s) = Some opener \<and> opener w n = Inl err)))"
proof (intro conjI allI impI)
  fix n
  have cap: "0 < maxQueues s \<Longrightarrow> int (length (svc_engines s)) \<le> maxQueues s" using assms by (simp add: service_ok_def)
  show "(\<exists>err. engineFor ops app ord w n s = (Inl err, s)) \<longleftrightarrow>
      \<not> validQueueName n \<or> engine_at s n = None \<and>
        (0 < maxQueues s \<and> int (length (svc_engines s)) = maxQueues s \<or>
         (\<exists>opener err. sc_Journal (svc_config s) = Some opener \<and> opener w n = Inl err))"
    using cap by (auto simp: engineFor_def Let_def split: option.splits sum.splits)
next
  show "service_ok (snd (svc_Ack ops app rng l s))" using ack_engines_ok [OF assms] by (simp add: svc_Ack_def)
  show "service_ok (snd (svc_ReapExpired ops app rng wall now s))"
    using reap_engines_ok [OF assms] by (simp add: svc_ReapExpired_def)
qed (use svc_queue_ops [OF assms] in blast)+

theorem service_queue_cap_witness:
  "service_ok example_service \<and>
   engineFor m_ops w_app any_order () ''third'' example_service = (Inl ErrTooManyQueues, example_service) \<and>
   \<not> (\<exists>err. engineFor m_ops w_app any_order () ''q'' example_service = (Inl err, example_service))"
proof -
  have "validQueueName ''third'' \<and> validQueueName ''q''" by (simp add: validQueueName_def name_char_def)
  moreover have "maxQueues example_service = 2" "length (svc_engines example_service) = 2"
    by (simp_all add: maxQueues_def example_service_def)
  moreover have "engine_at example_service ''third'' = None" "engine_at example_service ''q'' = Some fetched"
    by (simp_all add: example_service_engines)
  ultimately show ?thesis
    using service_queue_cap [OF example_service_ok, of m_ops w_app any_order "()" "[]" 0 rev "[]" "\<lambda>_. 0"] example_service_ok
    by (simp add: engineFor_def)
qed

section \<open>Clients and reaper together\<close>


text \<open>One client enqueues a task into a new queue and fetches it.\<close>

abbreviation example_service_run where
  "example_service_run \<equiv> service_run m_ops mem_abs (mem_inv (\<lambda>ks. ks)) any_task w_app (wal_records no_codec) (wal_invar no_codec)"

definition fresh_service :: "(MemoryQueue, wal_state, unit) Service" where
  "fresh_service = NewWithConfig (\<lambda>_ _. NewMemoryQueue) \<lparr>sc_Engine = example_config, sc_Journal = None, sc_MaxQueues = 0\<rparr>"

lemma fresh_engineFor:
  "engineFor m_ops w_app any_order () ''q'' fresh_service = (Inr booted, put_engine ''q'' booted fresh_service)"
  by (simp add: engineFor_def fresh_service_def NewWithConfig_def validQueueName_def name_char_def maxQueues_def
      defaultMaxQueues_def NewEngineWithBackendAndConfig_def booted_def Let_def)

lemma put_engine_put: "put_engine n e (put_engine n e' s) = put_engine n e s"
  by (simp add: put_engine_def)

abbreviation one_task :: "string \<Rightarrow> string multiset" where
  "one_task \<equiv> (\<lambda>_. {#})(''q'' := {#''t1''#})"

lemma example_service_runs:
  "example_service_run one_task (\<lambda>_. {#}) (\<lambda>_. 0) (put_engine ''q'' fetched fresh_service)"
  "example_service_run one_task (\<lambda>_. {#}) (\<lambda>_. 0) (put_engine ''q'' long_fetched fresh_service)"
proof -
  have start: "example_service_run (\<lambda>_. {#}) (\<lambda>_. {#}) (\<lambda>_. 0) fresh_service"
    unfolding fresh_service_def by (rule service_run.start)
  have fok: "factory_ok mem_abs (mem_inv (\<lambda>ks. ks)) (wal_records no_codec) (wal_invar no_codec) fresh_service () ''q''"
    by (simp add: factory_ok_def fresh_service_def NewWithConfig_def mem_inv_def range_order_id aq_distinct_def task_ids_def aq_empty_def)
  have none: "engine_at fresh_service ''q'' = None" by (simp add: fresh_service_def NewWithConfig_def)
  have ids: "task_ids (mem_abs (svc_factory fresh_service () ''q'')) = {#}"
    by (simp add: fresh_service_def NewWithConfig_def task_ids_def aq_empty_def)
  from service_run.opened [OF start none fok range_order_id fresh_engineFor]
  have s1: "example_service_run (\<lambda>_. {#}) (\<lambda>_. {#}) (\<lambda>_. 0) (put_engine ''q'' booted fresh_service)"
    by (simp add: ids fun_upd_idem)
  have "engine_at (put_engine ''q'' booted fresh_service) ''q'' = Some booted" by simp
  from service_run.enqueue [OF s1 this _ example_ids(1) enqueue_run(1)]
  have s2: "example_service_run one_task (\<lambda>_. {#}) (\<lambda>_. 0) (put_engine ''q'' enqueued fresh_service)"
    by (simp add: put_engine_put)
  have at: "engine_at (put_engine ''q'' enqueued fresh_service) ''q'' = Some enqueued" by simp
  have free: "''l1'' \<notin> ei_LeaseID ` set (en_expirations enqueued)" by (simp add: enqueue_run(2) booted_eq)
  from service_run.fetch [OF s2 at free example_ids(2) any_room(1) fetch_run(1)] service_run.fetch [OF s2 at free example_ids(2) any_room(1) long_lease_run(1)]
  show "example_service_run one_task (\<lambda>_. {#}) (\<lambda>_. 0) (put_engine ''q'' fetched fresh_service)"
    and "example_service_run one_task (\<lambda>_. {#}) (\<lambda>_. 0) (put_engine ''q'' long_fetched fresh_service)"
    by (simp_all add: put_engine_put)
qed




end
