(* ===== verification/Go_Text.thy ===== *)
theory Go_Text
  imports Moxy_Prelude
begin

text \<open>
  The text functions of the Go library that the protocol packages use: \<open>strconv.ParseInt\<close> and \<open>Atoi\<close>,
  the \<open>%d\<close> and \<open>%q\<close> verbs, \<open>strings.ToUpper\<close>, and the \<open>Error\<close> method of every error of the program.
\<close>

abbreviation LF :: char where "LF \<equiv> CHR 0x0A"

definition CRLF :: string where "CRLF = [CHR 0x0D, LF]"

section \<open>Numbers\<close>

definition digit_val :: "char \<Rightarrow> nat option" where
  "digit_val c = (let n = of_char c in if 48 \<le> n \<and> n \<le> 57 then Some (n - 48) else None)"

fun parse_digits :: "nat \<Rightarrow> string \<Rightarrow> nat option" where
  "parse_digits acc [] = Some acc"
| "parse_digits acc (c # cs) =
     (case digit_val c of None \<Rightarrow> None | Some d \<Rightarrow> parse_digits (acc * 10 + d) cs)"

text \<open>\<open>strconv.ParseInt(s, 10, 64)\<close> and \<open>strconv.Atoi(s)\<close> on a 64-bit platform: an optional sign and at
  least one digit, no other byte, and a value that fits. The callers never look at which error it is:
  \<open>None\<close> stands for any of them.\<close>

definition ParseInt :: "string \<Rightarrow> i64 option" where
  "ParseInt s =
     (let (neg, ds) =
        (case s of
           [] \<Rightarrow> (False, [])
         | c # cs \<Rightarrow> if c = CHR ''-'' then (True, cs) else if c = CHR ''+'' then (False, cs) else (False, s))
      in if ds = [] then None
         else case parse_digits 0 ds of
                None \<Rightarrow> None
              | Some n \<Rightarrow>
                  if neg then (if n \<le> 2 ^ 63 then Some (word_of_int (- int n)) else None)
                  else (if n < 2 ^ 63 then Some (word_of_int (int n)) else None))"

lemma digit_val_digit: "d < 10 \<Longrightarrow> digit_val (char_of (48 + d)) = Some d"
  by (simp add: digit_val_def Let_def)

lemma parse_digits_append:
  "parse_digits a (xs @ ys) = (case parse_digits a xs of None \<Rightarrow> None | Some b \<Rightarrow> parse_digits b ys)"
  by (induction xs arbitrary: a) (auto split: option.splits)

lemma show_nat_nonempty [simp]: "show_nat n \<noteq> []"
  by (subst show_nat.simps) simp

lemma parse_show_nat: "parse_digits 0 (show_nat n) = Some n"
proof (induction n rule: show_nat.induct)
  case (1 n)
  show ?case
  proof (cases "n < 10")
    case True
    then show ?thesis by (subst show_nat.simps) (simp add: digit_val_digit)
  next
    case False
    then show ?thesis
      using 1 by (subst show_nat.simps) (simp add: parse_digits_append digit_val_digit)
  qed
qed

lemma show_nat_digits: "c \<in> set (show_nat n) \<Longrightarrow> digit_val c \<noteq> None"
proof (induction n rule: show_nat.induct)
  case (1 n)
  then show ?case
    by (cases "n < 10") (subst (asm) (2) show_nat.simps, auto simp: digit_val_digit)+
qed

lemma show_nat_no_sign: "c \<in> set (show_nat n) \<Longrightarrow> c \<noteq> CHR ''-'' \<and> c \<noteq> CHR ''+'' \<and> c \<noteq> LF"
  using show_nat_digits [of c n] by (auto simp: digit_val_def)

lemma ParseInt_show_nat: "n < 2 ^ 63 \<Longrightarrow> ParseInt (show_nat n) = Some (word_of_int (int n))"
  using show_nat_no_sign [of "hd (show_nat n)" n] parse_show_nat [of n] show_nat_nonempty [of n]
  by (auto simp: ParseInt_def split: list.splits simp del: show_nat_nonempty)

lemma ParseInt_show_int: "ParseInt (show_int (sint w)) = Some w"
proof (cases "sint w < 0")
  case True
  have "- (2 ^ 63) \<le> sint w" using sint_range_size [of w] by (simp add: size_word_def)
  then have "nat (- sint w) \<le> 2 ^ 63" by simp
  then show ?thesis using True by (simp add: show_int_def ParseInt_def parse_show_nat)
next
  case False
  have "sint w < 2 ^ 63" using sint_range_size [of w] by (simp add: size_word_def)
  then have "nat (sint w) < 2 ^ 63" using False by (simp add: nat_less_iff)
  then show ?thesis using False by (simp add: show_int_def ParseInt_show_nat)
qed

lemma unat_sint:
  fixes w :: i64
  assumes "0 \<le> sint w"
  shows "unat w = nat (sint w)"
proof -
  have "sint w < 2 ^ 64" using sint_range_size [of w] by (simp add: size_word_def)
  then have "uint w = sint w" using assms by (subst uint_sint) (simp add: take_bit_int_eq_self)
  then show ?thesis by (simp add: unat_eq_nat_uint)
qed

section \<open>Strings\<close>

definition is_ascii :: "char \<Rightarrow> bool" where
  "is_ascii c \<longleftrightarrow> (of_char c :: nat) < 128"

definition ascii_upper :: "char \<Rightarrow> char" where
  "ascii_upper c = (let n = of_char c :: nat in if 97 \<le> n \<and> n \<le> 122 then char_of (n - 32) else c)"

text \<open>\<open>strings.ToUpper\<close>: byte by byte on an ASCII string; a string with other bytes goes through the
  Unicode tables, \<open>strings.Map(unicode.ToUpper, s)\<close>, which are the argument \<open>um\<close>.\<close>

definition ToUpper :: "(string \<Rightarrow> string) \<Rightarrow> string \<Rightarrow> string" where
  "ToUpper um s = (if list_all is_ascii s then map ascii_upper s else um s)"

definition HasSuffix :: "string \<Rightarrow> string \<Rightarrow> bool" where
  "HasSuffix s suffix \<longleftrightarrow> length suffix \<le> length s \<and> drop (length s - length suffix) s = suffix"

definition TrimSuffix :: "string \<Rightarrow> string \<Rightarrow> string" where
  "TrimSuffix s suffix = (if HasSuffix s suffix then take (length s - length suffix) s else s)"

lemma HasSuffix_append [simp]: "HasSuffix (s @ t) t"
  by (simp add: HasSuffix_def)

lemma TrimSuffix_append [simp]: "TrimSuffix (s @ t) t = s"
  by (simp add: TrimSuffix_def)

lemma HasSuffix_split: "HasSuffix s t \<longleftrightarrow> (\<exists>u. s = u @ t)"
proof
  assume "HasSuffix s t"
  then have "s = take (length s - length t) s @ t"
    unfolding HasSuffix_def by (metis append_take_drop_id)
  then show "\<exists>u. s = u @ t" by blast
qed auto

lemma ascii_upper_idem: "ascii_upper (ascii_upper c) = ascii_upper c"
  by (auto simp: ascii_upper_def Let_def)

lemma ascii_upper_ascii: "is_ascii c \<Longrightarrow> is_ascii (ascii_upper c)"
  by (auto simp: ascii_upper_def is_ascii_def Let_def)

lemma ToUpper_idem: "list_all is_ascii s \<Longrightarrow> ToUpper um (ToUpper um s) = ToUpper um s"
  by (auto simp: ToUpper_def list_all_iff ascii_upper_idem ascii_upper_ascii)

text \<open>\<open>%q\<close> of a byte: a quoted Go character literal of the code point with that number.\<close>

definition hex_digit :: "nat \<Rightarrow> char" where
  "hex_digit n = char_of (if n < 10 then 48 + n else 87 + n)"

definition hex2 :: "nat \<Rightarrow> string" where
  "hex2 n = [hex_digit (n div 16), hex_digit (n mod 16)]"

definition quote_byte :: "char \<Rightarrow> string" where
  "quote_byte c =
     (let n = of_char c :: nat; bs = CHR 0x5C
      in [CHR 0x27] @
         (if n = 0x27 \<or> n = 0x5C then [bs, c]
          else if 0x20 \<le> n \<and> n < 0x7F then [c]
          else if n = 7 then [bs, CHR ''a''] else if n = 8 then [bs, CHR ''b'']
          else if n = 12 then [bs, CHR ''f''] else if n = 10 then [bs, CHR ''n'']
          else if n = 13 then [bs, CHR ''r''] else if n = 9 then [bs, CHR ''t'']
          else if n = 11 then [bs, CHR ''v'']
          else if n < 0x20 \<or> n = 0x7F then [bs, CHR ''x''] @ hex2 n
          else if n \<le> 0xA0 \<or> n = 0xAD then [bs, CHR ''u'', CHR ''0'', CHR ''0''] @ hex2 n
          else [char_of (0xC0 + n div 64), char_of (0x80 + n mod 64)]) @
         [CHR 0x27])"

section \<open>Error messages\<close>

fun join_lines :: "string list \<Rightarrow> string" where
  "join_lines [] = []"
| "join_lines [s] = s"
| "join_lines (s # t # ss) = s @ LF # join_lines (t # ss)"

fun error_msg :: "go_error \<Rightarrow> string" where
  "error_msg ErrQueueEmpty = ''ready queue is empty''"
| "error_msg ErrTaskNotProcessing = ''task is not processing''"
| "error_msg ErrLeaseFenceMismatch = ''lease generation mismatch''"
| "error_msg ErrLeaseNotFound = ''lease does not exist''"
| "error_msg ErrInvalidTimeout = ''lease timeout must be positive''"
| "error_msg ErrRecoveryIncomplete = ''recovery reconciliation failed''"
| "error_msg ErrInvalidQueueName = ''queue name must use 1-64 letters, digits, hyphen or underscore''"
| "error_msg ErrTooManyQueues = ''too many queues''"
| "error_msg ErrUnknownCommand = ''unknown command''"
| "error_msg ErrInvalidArguments = ''invalid arguments''"
| "error_msg ErrCommandTimeout = ''invalid timeout''"
| "error_msg ErrMalformedRESP = ''malformed RESP value''"
| "error_msg ErrValueTooLarge = ''RESP value too large''"
| "error_msg ErrEOF = ''EOF''"
| "error_msg ErrUnexpectedEOF = ''unexpected EOF''"
| "error_msg (ErrNew s) = s"
| "error_msg (ErrWrap pre e post) = pre @ error_msg e @ post"
| "error_msg (ErrJoin es) = join_lines (map error_msg es)"

end
