(* ===== verification/Command.thy ===== *)
theory Command
  imports Service Go_Text
begin

text \<open>
  \<open>internal/command\<close>: the protocol-neutral commands and their handler. The handler validates a command and
  calls the service.

  What the process is built with is the record \<open>host\<close>: the backend's methods, the journal's append and the
  Unicode case tables. What one command reads from its environment is the record \<open>moment\<close>: the world the
  factories see, the id \<open>uuid.NewString\<close> returns, the time, and the orders of the map iterations.
\<close>

record ('b, 'j) host =
  h_ops :: "'b backend_ops"
  h_app :: "'j appender"
  h_upper :: "string \<Rightarrow> string"

record 'w moment =
  m_world :: 'w
  m_uuid :: string
  m_now :: instant
  m_ord :: "nat \<Rightarrow> string list \<Rightarrow> string list"
  m_rng :: "string list \<Rightarrow> string list"

section \<open>Commands and responses\<close>

definition EnqueueName :: string where "EnqueueName = ''MOXY.ENQUEUE''"
definition FetchName :: string where "FetchName = ''MOXY.FETCH''"
definition AckName :: string where "AckName = ''MOXY.ACK''"
definition StatsName :: string where "StatsName = ''MOXY.STATS''"

lemmas command_names = EnqueueName_def FetchName_def AckName_def StatsName_def

record Command =
  cmd_Name :: string
  cmd_Args :: "string list"

record Response =
  rsp_OK :: bool
  rsp_TaskID :: string
  rsp_LeaseID :: string
  rsp_Payload :: "bytes option"
  rsp_ExpiresAt :: instant
  rsp_Stats :: core_stats

text \<open>The zero values of \<open>Stats\<close> and \<open>Response\<close>, which composite literals start from.\<close>

definition zero_stats :: core_stats where
  "zero_stats = \<lparr>cs_Ready = 0, cs_Processing = 0, cs_Dead = 0, cs_ActiveLeases = 0, cs_ExpirationHeap = 0\<rparr>"

definition zero_response :: Response where
  "zero_response = \<lparr>rsp_OK = False, rsp_TaskID = [], rsp_LeaseID = [], rsp_Payload = None,
     rsp_ExpiresAt = zero_time, rsp_Stats = zero_stats\<rparr>"

definition maxLeaseTimeoutMS :: int where
  "maxLeaseTimeoutMS = 86400000"

definition cmd_cloneBytes :: "bytes option \<Rightarrow> bytes option" where
  "cmd_cloneBytes payload =
     (case payload of
        None \<Rightarrow> None
      | Some p \<Rightarrow> Some (go_copy (replicate (length p) (char_of (0::nat))) p))"

lemma cmd_cloneBytes_eq [simp]: "cmd_cloneBytes p = p"
  by (cases p) (simp_all add: cmd_cloneBytes_def go_copy_same_length)

section \<open>The handler\<close>

definition handleEnqueue ::
  "('b, 'j) host \<Rightarrow> 'w moment \<Rightarrow> string list \<Rightarrow> ('b, 'j, 'w) Service \<Rightarrow> (go_error + Response) \<times> ('b, 'j, 'w) Service" where
  "handleEnqueue h m args s =
     (case args of
        [queueName, payload] \<Rightarrow>
          (case svc_Enqueue (h_ops h) (h_app h) (m_ord m) (m_world m) (m_uuid m) queueName (Some payload) s of
             (Inl err, s') \<Rightarrow> (Inl err, s')
           | (Inr t, s') \<Rightarrow> (Inr (zero_response\<lparr>rsp_OK := True, rsp_TaskID := task_ID t\<rparr>), s'))
      | _ \<Rightarrow> (Inl ErrInvalidArguments, s))"

definition handleFetch ::
  "('b, 'j) host \<Rightarrow> 'w moment \<Rightarrow> string list \<Rightarrow> ('b, 'j, 'w) Service \<Rightarrow> (go_error + Response) \<times> ('b, 'j, 'w) Service" where
  "handleFetch h m args s =
     (case args of
        [queueName, timeout] \<Rightarrow>
          (case ParseInt timeout of
             None \<Rightarrow> (Inl ErrCommandTimeout, s)
           | Some timeoutMS \<Rightarrow>
               if sint timeoutMS < 1 \<or> sint timeoutMS > maxLeaseTimeoutMS then (Inl ErrCommandTimeout, s)
               else
                 (case svc_Fetch (h_ops h) (h_app h) (m_ord m) (m_world m) (m_uuid m) (m_now m) queueName
                         (timeoutMS * 1000000) s of
                    (Inl err, s') \<Rightarrow> (Inl err, s')
                  | (Inr l, s') \<Rightarrow>
                      (Inr (zero_response\<lparr>rsp_OK := True, rsp_TaskID := task_ID (lease_Task l),
                              rsp_LeaseID := lease_LeaseID l, rsp_Payload := cmd_cloneBytes (task_Payload (lease_Task l)),
                              rsp_ExpiresAt := lease_ExpiresAt l\<rparr>), s')))
      | _ \<Rightarrow> (Inl ErrInvalidArguments, s))"

definition handleAck ::
  "('b, 'j) host \<Rightarrow> 'w moment \<Rightarrow> string list \<Rightarrow> ('b, 'j, 'w) Service \<Rightarrow> (go_error + Response) \<times> ('b, 'j, 'w) Service" where
  "handleAck h m args s =
     (case args of
        [leaseID] \<Rightarrow>
          (case svc_Ack (h_ops h) (h_app h) (m_rng m) leaseID s of
             (Inl err, s') \<Rightarrow> (Inl err, s')
           | (Inr _, s') \<Rightarrow> (Inr (zero_response\<lparr>rsp_OK := True\<rparr>), s'))
      | _ \<Rightarrow> (Inl ErrInvalidArguments, s))"

definition handleStats ::
  "('b, 'j) host \<Rightarrow> string list \<Rightarrow> ('b, 'j, 'w) Service \<Rightarrow> go_error + Response" where
  "handleStats h args s =
     (case args of
        [queueName] \<Rightarrow>
          (case svc_Stats (h_ops h) queueName s of
             None \<Rightarrow> Inr (zero_response\<lparr>rsp_OK := True\<rparr>)
           | Some stats \<Rightarrow> Inr (zero_response\<lparr>rsp_OK := True, rsp_Stats := stats\<rparr>))
      | _ \<Rightarrow> Inl ErrInvalidArguments)"

definition handler_Handle ::
  "('b, 'j) host \<Rightarrow> 'w moment \<Rightarrow> Command \<Rightarrow> ('b, 'j, 'w) Service \<Rightarrow> (go_error + Response) \<times> ('b, 'j, 'w) Service" where
  "handler_Handle h m command s =
     (let name = ToUpper (h_upper h) (cmd_Name command); args = cmd_Args command
      in if name = EnqueueName then handleEnqueue h m args s
         else if name = FetchName then handleFetch h m args s
         else if name = AckName then handleAck h m args s
         else if name = StatsName then (handleStats h args s, s)
         else (Inl ErrUnknownCommand, s))"

section \<open>Facts\<close>

text \<open>The timeout in nanoseconds fits 64 bits.\<close>

lemma timeout_exact:
  fixes ms :: i64
  assumes "1 \<le> sint ms" and "sint ms \<le> maxLeaseTimeoutMS"
  shows "sint (ms * 1000000) = sint ms * 1000000"
  using assms by (simp add: sint_word_ariths(3) maxLeaseTimeoutMS_def signed_take_bit_int_eq_self_iff)

lemma command_args:
  "length args \<noteq> 2 \<Longrightarrow> handleEnqueue h m args s = (Inl ErrInvalidArguments, s)"
  "length args \<noteq> 2 \<Longrightarrow> handleFetch h m args s = (Inl ErrInvalidArguments, s)"
  "length args \<noteq> 1 \<Longrightarrow> handleAck h m args s = (Inl ErrInvalidArguments, s)"
  "length args \<noteq> 1 \<Longrightarrow> handleStats h args s = Inl ErrInvalidArguments"
  by (auto simp: handleEnqueue_def handleFetch_def handleAck_def handleStats_def split: list.splits)

end
