(* ===== verification/Resp.thy ===== *)
theory Resp
  imports Go_Text
begin

text \<open>
  \<open>internal/resp\<close>: the RESP2 values moxy speaks, their reader and their writer.

  The reader's \<open>bufio.Reader\<close> is the bytes that are still to come and the error that follows them, \<open>io.EOF\<close>
  when the peer closed the connection; how the bytes are split into packets and buffered makes no
  difference to the three calls the reader makes. The writer's \<open>io.Writer\<close> is the bytes it has accepted
  and what the coming \<open>Write\<close> calls do.
\<close>

section \<open>Values\<close>

datatype resp_value =
  Value (v_Type: char) (v_String: string) (v_Integer: i64) (v_Array: "resp_value list") (v_Null: bool)

definition TypeSimpleString :: char where "TypeSimpleString = CHR ''+''"
definition TypeError :: char where "TypeError = CHR ''-''"
definition TypeInteger :: char where "TypeInteger = CHR '':''"
definition TypeBulkString :: char where "TypeBulkString = CHR ''$''"
definition TypeArray :: char where "TypeArray = CHR ''*''"

lemmas type_defs = TypeSimpleString_def TypeError_def TypeInteger_def TypeBulkString_def TypeArray_def

definition SimpleString :: "string \<Rightarrow> resp_value" where
  "SimpleString value = Value TypeSimpleString value 0 [] False"

definition Error :: "string \<Rightarrow> resp_value" where
  "Error value = Value TypeError value 0 [] False"

definition Integer :: "i64 \<Rightarrow> resp_value" where
  "Integer value = Value TypeInteger [] value [] False"

definition BulkString :: "string \<Rightarrow> resp_value" where
  "BulkString value = Value TypeBulkString value 0 [] False"

definition NullBulkString :: resp_value where
  "NullBulkString = Value TypeBulkString [] 0 [] True"

definition Array :: "resp_value list \<Rightarrow> resp_value" where
  "Array values = Value TypeArray [] 0 values False"

lemmas value_defs = SimpleString_def Error_def Integer_def BulkString_def NullBulkString_def Array_def

section \<open>The reader\<close>

definition maxLineLength :: nat where "maxLineLength = 4096"
definition maxBulkLength :: nat where "maxBulkLength = 1024 * 1024"
definition maxArrayLength :: nat where "maxArrayLength = 1024"

lemmas resp_limits = maxLineLength_def maxBulkLength_def maxArrayLength_def

record instream =
  is_data :: bytes
  is_end :: go_error

type_synonym 'a reader = "instream \<Rightarrow> (go_error + 'a) \<times> instream"

text \<open>\<open>bufio.Reader.ReadByte\<close>, \<open>bufio.Reader.ReadString('\n')\<close> and \<open>io.ReadFull\<close>.\<close>

definition ReadByte :: "char reader" where
  "ReadByte s =
     (case is_data s of
        [] \<Rightarrow> (Inl (is_end s), s)
      | c # cs \<Rightarrow> (Inr c, s\<lparr>is_data := cs\<rparr>))"

definition ReadString_LF :: "string reader" where
  "ReadString_LF s =
     (case dropWhile (\<lambda>c. c \<noteq> LF) (is_data s) of
        [] \<Rightarrow> (Inl (is_end s), s\<lparr>is_data := []\<rparr>)
      | _ # rest \<Rightarrow> (Inr (takeWhile (\<lambda>c. c \<noteq> LF) (is_data s) @ [LF]), s\<lparr>is_data := rest\<rparr>))"

definition ReadFull :: "nat \<Rightarrow> bytes reader" where
  "ReadFull n s =
     (if n \<le> length (is_data s) then (Inr (take n (is_data s)), s\<lparr>is_data := drop n (is_data s)\<rparr>)
      else (Inl (if is_data s \<noteq> [] \<and> is_end s = ErrEOF then ErrUnexpectedEOF else is_end s),
            s\<lparr>is_data := []\<rparr>))"

text \<open>\<open>fmt.Errorf("%w: \<dots>", ErrMalformedRESP)\<close>.\<close>

definition malformed :: "string \<Rightarrow> go_error" where
  "malformed what = ErrWrap [] ErrMalformedRESP ('': '' @ what)"

definition readLine :: "string reader" where
  "readLine s =
     (case ReadString_LF s of
        (Inl err, s') \<Rightarrow> (Inl (if errors_is err ErrEOF then malformed ''missing CRLF'' else err), s')
      | (Inr line, s') \<Rightarrow>
          if length line > maxLineLength then (Inl ErrValueTooLarge, s')
          else if \<not> HasSuffix line CRLF then (Inl (malformed ''missing CRLF''), s')
          else (Inr (TrimSuffix line CRLF), s'))"

definition readBulkString :: "resp_value reader" where
  "readBulkString s =
     (case readLine s of
        (Inl err, s1) \<Rightarrow> (Inl err, s1)
      | (Inr line, s1) \<Rightarrow>
          (case ParseInt line of
             None \<Rightarrow> (Inl (malformed ''invalid bulk length''), s1)
           | Some n \<Rightarrow>
               if sint n < -1 then (Inl (malformed ''invalid bulk length''), s1)
               else if sint n = -1 then (Inr NullBulkString, s1)
               else if sint n > int maxBulkLength then (Inl ErrValueTooLarge, s1)
               else
                 (case ReadFull (unat n + 2) s1 of
                    (Inl err, s2) \<Rightarrow>
                      (Inl (if errors_is err ErrEOF \<or> errors_is err ErrUnexpectedEOF
                            then malformed ''missing bulk terminator'' else err), s2)
                  | (Inr buf, s2) \<Rightarrow>
                      if drop (unat n) buf \<noteq> CRLF then (Inl (malformed ''missing bulk CRLF''), s2)
                      else (Inr (BulkString (take (unat n) buf)), s2))))"

text \<open>The first half of \<open>readArray\<close>: the length line.\<close>

definition readArrayLength :: "nat reader" where
  "readArrayLength s =
     (case readLine s of
        (Inl err, s1) \<Rightarrow> (Inl err, s1)
      | (Inr line, s1) \<Rightarrow>
          (case ParseInt line of
             None \<Rightarrow> (Inl (malformed ''invalid array length''), s1)
           | Some n \<Rightarrow>
               if sint n < 0 then (Inl (malformed ''invalid array length''), s1)
               else if sint n > int maxArrayLength then (Inl ErrValueTooLarge, s1)
               else (Inr (unat n), s1)))"

abbreviation left :: "(go_error + 'a) \<times> instream \<Rightarrow> nat" where
  "left r \<equiv> length (is_data (snd r))"

lemma ReadByte_length: "ReadByte s = (Inr c, s') \<Longrightarrow> length (is_data s') < length (is_data s)"
  by (auto simp: ReadByte_def split: list.splits)

lemma ReadString_LF_length: "left (ReadString_LF s) \<le> length (is_data s)"
  using length_dropWhile_le [of "\<lambda>c. c \<noteq> LF" "is_data s"]
  by (auto simp: ReadString_LF_def split: list.split)

lemma ReadFull_length: "left (ReadFull n s) \<le> length (is_data s)"
  by (simp add: ReadFull_def)

lemma readLine_length: "left (readLine s) \<le> length (is_data s)"
  using ReadString_LF_length [of s] by (cases "ReadString_LF s"; cases "fst (ReadString_LF s)") (simp_all add: readLine_def)

lemma readArrayLength_length: "left (readArrayLength s) \<le> length (is_data s)"
  using readLine_length [of s]
  by (cases "readLine s"; cases "fst (readLine s)") (simp_all add: readArrayLength_def split: option.split)

lemma readBulkString_length: "left (readBulkString s) \<le> length (is_data s)"
proof (cases "readLine s")
  case (Pair r s1)
  then have s1: "length (is_data s1) \<le> length (is_data s)" using readLine_length [of s] by simp
  have full: "length (is_data s2) \<le> length (is_data s)" if "ReadFull n s1 = (x, s2)" for n x s2
    using ReadFull_length [of n s1] s1 that by simp
  from Pair s1 show ?thesis
    by (cases r) (auto simp: readBulkString_def dest: full split: option.split prod.split sum.split)
qed

text \<open>\<open>ReadValue\<close> and the loop of \<open>readArray\<close> call each other. Each value takes at least its type byte from
  the stream, so the reader ends on every stream, nested arrays included.\<close>

function (sequential) ReadValue :: "resp_value reader" and read_items :: "nat \<Rightarrow> resp_value list reader" where
  "ReadValue s =
     (case ReadByte s of
        (Inl err, s1) \<Rightarrow> (Inl err, s1)
      | (Inr prefix, s1) \<Rightarrow>
          if prefix = TypeSimpleString then
            (case readLine s1 of (Inl err, s2) \<Rightarrow> (Inl err, s2) | (Inr line, s2) \<Rightarrow> (Inr (SimpleString line), s2))
          else if prefix = TypeError then
            (case readLine s1 of (Inl err, s2) \<Rightarrow> (Inl err, s2) | (Inr line, s2) \<Rightarrow> (Inr (Error line), s2))
          else if prefix = TypeInteger then
            (case readLine s1 of
               (Inl err, s2) \<Rightarrow> (Inl err, s2)
             | (Inr line, s2) \<Rightarrow>
                 (case ParseInt line of
                    None \<Rightarrow> (Inl (malformed ''invalid integer''), s2)
                  | Some n \<Rightarrow> (Inr (Integer n), s2)))
          else if prefix = TypeBulkString then readBulkString s1
          else if prefix = TypeArray then
            (case readArrayLength s1 of
               (Inl err, s2) \<Rightarrow> (Inl err, s2)
             | (Inr len, s2) \<Rightarrow>
                 (case read_items len s2 of
                    (Inl err, s3) \<Rightarrow> (Inl err, s3)
                  | (Inr vs, s3) \<Rightarrow> (Inr (Array vs), s3)))
          else (Inl (malformed (''unknown type byte '' @ quote_byte prefix)), s1))"
| "read_items 0 s = (Inr [], s)"
| "read_items (Suc n) s =
     (case ReadValue s of
        (Inl err, s1) \<Rightarrow> (Inl err, s1)
      | (Inr v, s1) \<Rightarrow>
          (case read_items n s1 of
             (Inl err, s2) \<Rightarrow> (Inl err, s2)
           | (Inr vs, s2) \<Rightarrow> (Inr (v # vs), s2)))"
  by pat_completeness auto


lemma reader_shrinks:
  "ReadValue_read_items_dom (Inl s) \<Longrightarrow>
     left (ReadValue s) \<le> length (is_data s) \<and>
     (\<forall>v s'. ReadValue s = (Inr v, s') \<longrightarrow> length (is_data s') < length (is_data s))"
  "ReadValue_read_items_dom (Inr (n, s)) \<Longrightarrow> left (read_items n s) \<le> length (is_data s)"
proof (induction rule: ReadValue_read_items.pinduct)
  case (1 s)
  show ?case
  proof (cases "ReadByte s")
    case (Pair r s1)
    show ?thesis
    proof (cases r)
      case (Inr c)
      have s1: "length (is_data s1) < length (is_data s)"
        using Pair Inr by (auto dest: ReadByte_length)
      have line: "length (is_data s2) < length (is_data s)" if "readLine s1 = (x, s2)" for x s2
        using readLine_length [of s1] that s1 by simp
      have bulk: "left (readBulkString s1) < length (is_data s)"
        using readBulkString_length [of s1] s1 by simp
      have head: "length (is_data s2) < length (is_data s)" if "readArrayLength s1 = (x, s2)" for x s2
        using readArrayLength_length [of s1] that s1 by simp
      have items: "length (is_data s3) < length (is_data s)"
        if "readArrayLength s1 = (Inr n, s2)" "read_items n s2 = (x, s3)" "c = TypeArray" for n s2 x s3
        using 1(2) [OF Pair [symmetric] Inr _ _ _ _ that(3) that(1) [symmetric] refl] that head
        by (fastforce simp: type_defs)
      have "left (ReadValue s) < length (is_data s)"
        using Pair Inr s1 by (auto simp: ReadValue.psimps [OF 1(1)] bulk dest: line head items
            split: prod.split sum.split option.split)
      then show ?thesis by (auto intro: less_imp_le)
    qed (use 1(1) Pair in \<open>auto simp: ReadValue.psimps ReadByte_def split: list.splits\<close>)
  qed
next
  case (2 s)
  then show ?case by (simp add: read_items.psimps)
next
  case (3 n s)
  show ?case
  proof (cases "ReadValue s")
    case (Pair r s1)
    then have s1: "length (is_data s1) \<le> length (is_data s)" using 3(2) by simp
    show ?thesis
    proof (cases r)
      case (Inr v)
      have "left (read_items n s1) \<le> length (is_data s)" using 3(3) [OF Pair [symmetric] Inr] s1 by simp
      then show ?thesis
        using Pair Inr by (auto simp: read_items.psimps(2) [OF 3(1)] split: prod.split sum.split)
    qed (simp add: read_items.psimps(2) [OF 3(1)] Pair s1)
  qed
qed

lemma readArrayLength_step:
  "ReadByte s = (Inr c, s1) \<Longrightarrow> readArrayLength s1 = (x, s2) \<Longrightarrow> length (is_data s2) < length (is_data s)"
  using readArrayLength_length [of s1] by (auto dest: ReadByte_length)

lemma reader_total: "All ReadValue_read_items_dom"
  by (relation "measure (case_sum (\<lambda>s. 2 * length (is_data s)) (\<lambda>(n, s). 2 * length (is_data s) + 1))")
    (auto dest: readArrayLength_step [OF sym sym] reader_shrinks(1) [THEN conjunct2, rule_format, OF _ sym])

termination ReadValue
  by (rule reader_total)

lemma ReadValue_shrinks: "ReadValue s = (Inr v, s') \<Longrightarrow> length (is_data s') < length (is_data s)"
  using reader_shrinks(1) [of s] reader_total by blast

declare ReadValue.simps [simp del] read_items.simps [simp del]

section \<open>The writer\<close>

text \<open>The writer's connection. Each \<open>Write\<close> call is answered by the head of the script: \<open>None\<close> accepts all
  bytes, \<open>Some (n, err)\<close> accepts the first \<open>n\<close> and then fails. After the script everything is accepted.\<close>

record outstream =
  os_data :: bytes
  os_script :: "(nat \<times> go_error) option list"

definition Write :: "bytes \<Rightarrow> outstream \<Rightarrow> (go_error + unit) \<times> outstream" where
  "Write bs w =
     (case os_script w of
        [] \<Rightarrow> (Inr (), w\<lparr>os_data := os_data w @ bs\<rparr>)
      | None # r \<Rightarrow> (Inr (), w\<lparr>os_data := os_data w @ bs, os_script := r\<rparr>)
      | Some (n, err) # r \<Rightarrow> (Inl err, w\<lparr>os_data := os_data w @ take n bs, os_script := r\<rparr>))"

fun WriteValue :: "resp_value \<Rightarrow> outstream \<Rightarrow> (go_error + unit) \<times> outstream"
  and write_items :: "resp_value list \<Rightarrow> outstream \<Rightarrow> (go_error + unit) \<times> outstream" where
  "WriteValue (Value ty str n arr null) w =
     (if ty = TypeSimpleString then Write (''+'' @ str @ CRLF) w
      else if ty = TypeError then Write (''-'' @ str @ CRLF) w
      else if ty = TypeInteger then Write ('':'' @ show_int (sint n) @ CRLF) w
      else if ty = TypeBulkString then
        (if null then Write (''$-1'' @ CRLF) w
         else Write (''$'' @ show_nat (length str) @ CRLF @ str @ CRLF) w)
      else if ty = TypeArray then
        (case Write (''*'' @ show_nat (length arr) @ CRLF) w of
           (Inl err, w') \<Rightarrow> (Inl err, w')
         | (Inr _, w') \<Rightarrow> write_items arr w')
      else (Inl (malformed ''unknown value type''), w))"
| "write_items [] w = (Inr (), w)"
| "write_items (item # items) w =
     (case WriteValue item w of
        (Inl err, w') \<Rightarrow> (Inl err, w')
      | (Inr _, w') \<Rightarrow> write_items items w')"

section \<open>The wire format\<close>

text \<open>The bytes of a value, and the values that have a wire form of their own: the fields its type does
  not use are zero, lines have no line feed, and all lengths are within the reader's limits.\<close>

fun wire :: "resp_value \<Rightarrow> bytes" where
  "wire (Value ty str n arr null) =
     (if ty = TypeInteger then ty # show_int (sint n) @ CRLF
      else if ty = TypeBulkString then
        (if null then ty # ''-1'' @ CRLF else ty # show_nat (length str) @ CRLF @ str @ CRLF)
      else if ty = TypeArray then ty # show_nat (length arr) @ CRLF @ concat (map wire arr)
      else ty # str @ CRLF)"

fun known_types :: "resp_value \<Rightarrow> bool" where
  "known_types (Value ty str n arr null) \<longleftrightarrow>
     ty \<in> {TypeSimpleString, TypeError, TypeInteger, TypeBulkString} \<or> ty = TypeArray \<and> list_all known_types arr"

fun resp_ok :: "resp_value \<Rightarrow> bool" where
  "resp_ok (Value ty str n arr null) \<longleftrightarrow>
     (if ty = TypeSimpleString \<or> ty = TypeError
      then n = 0 \<and> arr = [] \<and> \<not> null \<and> LF \<notin> set str \<and> length str + 2 \<le> maxLineLength
      else if ty = TypeInteger then str = [] \<and> arr = [] \<and> \<not> null
      else if ty = TypeBulkString then n = 0 \<and> arr = [] \<and> (if null then str = [] else length str \<le> maxBulkLength)
      else ty = TypeArray \<and> str = [] \<and> n = 0 \<and> \<not> null \<and> length arr \<le> maxArrayLength \<and> list_all resp_ok arr)"

lemma WriteValue_wire:
  "os_script w = [] \<Longrightarrow> known_types v \<Longrightarrow> WriteValue v w = (Inr (), w\<lparr>os_data := os_data w @ wire v\<rparr>)"
  "os_script w = [] \<Longrightarrow> list_all known_types vs \<Longrightarrow>
     write_items vs w = (Inr (), w\<lparr>os_data := os_data w @ concat (map wire vs)\<rparr>)"
  by (induction v w and vs w rule: WriteValue_write_items.induct) (auto simp: Write_def type_defs)

lemma resp_ok_known: "resp_ok v \<Longrightarrow> known_types v"
  by (induction v rule: resp_ok.induct) (auto simp: list_all_iff split: if_splits)

section \<open>Reading back\<close>

lemma ReadString_LF_line:
  "is_data s = line @ LF # rest \<Longrightarrow> LF \<notin> set line \<Longrightarrow> ReadString_LF s = (Inr (line @ [LF]), s\<lparr>is_data := rest\<rparr>)"
  using dropWhile_append2 [of line "\<lambda>c. c \<noteq> LF" "LF # rest"] takeWhile_append2 [of line "\<lambda>c. c \<noteq> LF" "LF # rest"]
  by (fastforce simp: ReadString_LF_def)

lemma readLine_back:
  assumes "is_data s = line @ CRLF @ rest" and "LF \<notin> set line" and "length line + 2 \<le> maxLineLength"
  shows "readLine s = (Inr line, s\<lparr>is_data := rest\<rparr>)"
proof -
  have "ReadString_LF s = (Inr (line @ CRLF), s\<lparr>is_data := rest\<rparr>)"
    using ReadString_LF_line [of s "line @ [CHR 0x0D]" rest] assms(1,2) by (simp add: CRLF_def)
  with assms(3) show ?thesis
    using HasSuffix_append [of line CRLF] TrimSuffix_append [of line CRLF] by (simp add: readLine_def CRLF_def)
qed

lemma length_show_nat: "n < 10 ^ Suc k \<Longrightarrow> length (show_nat n) \<le> Suc k"
proof (induction k arbitrary: n)
  case (Suc k)
  then have "n div 10 < 10 ^ Suc k" by (simp add: div_less_iff_less_mult mult.commute)
  then have "length (show_nat (n div 10)) \<le> Suc k" by (rule Suc.IH)
  then show ?case by (subst show_nat.simps) simp
qed (subst show_nat.simps, simp)

lemma length_show_int: "length (show_int (sint (w :: i64))) \<le> 20"
proof -
  have "nat \<bar>sint w\<bar> < 10 ^ Suc 18" using sint_range_size [of w] by (auto simp: size_word_def nat_less_iff)
  from length_show_nat [OF this] show ?thesis
    by (cases "sint w < 0") (simp_all add: show_int_def abs_if)
qed

lemma show_int_no_LF: "LF \<notin> set (show_int i)"
  using show_nat_no_sign by (auto simp: show_int_def)

lemma number_line:
  fixes n :: i64
  assumes "is_data s = show_int (sint n) @ CRLF @ rest"
  shows "readLine s = (Inr (show_int (sint n)), s\<lparr>is_data := rest\<rparr>)"
  using readLine_back [OF assms show_int_no_LF] length_show_int [of n] by (simp add: maxLineLength_def)

lemma length_word: "n \<le> 1048576 \<Longrightarrow> sint (of_nat n :: i64) = int n \<and> unat (of_nat n :: i64) = n"
  by (simp add: signed_of_nat signed_take_bit_int_eq_self_iff unat_of_nat)

lemma length_line:
  assumes "is_data s = show_nat n @ CRLF @ rest" and "n \<le> 1048576"
  shows "readLine s = (Inr (show_nat n), s\<lparr>is_data := rest\<rparr>)" and "ParseInt (show_nat n) = Some (of_nat n)"
proof -
  have "show_int (sint (of_nat n :: i64)) = show_nat n" using length_word [OF assms(2)] by (simp add: show_int_def)
  with number_line [of s "of_nat n" rest] assms(1)
  show "readLine s = (Inr (show_nat n), s\<lparr>is_data := rest\<rparr>)" by simp
  show "ParseInt (show_nat n) = Some (of_nat n)" using ParseInt_show_nat [of n] assms(2) by simp
qed

lemma ReadByte_Cons: "is_data s = c # cs \<Longrightarrow> ReadByte s = (Inr c, s\<lparr>is_data := cs\<rparr>)"
  by (simp add: ReadByte_def)

lemma readBulkString_back:
  assumes "is_data s = show_nat (length str) @ CRLF @ str @ CRLF @ rest" and "length str \<le> maxBulkLength"
  shows "readBulkString s = (Inr (BulkString str), s\<lparr>is_data := rest\<rparr>)"
proof -
  have len: "length str \<le> 1048576" using assms(2) by (simp add: maxBulkLength_def)
  let ?s1 = "s\<lparr>is_data := str @ CRLF @ rest\<rparr>"
  have "ReadFull (length str + 2) ?s1 = (Inr (str @ CRLF), s\<lparr>is_data := rest\<rparr>)"
    by (simp add: ReadFull_def CRLF_def)
  with length_line [OF assms(1) len] length_word [OF len] len show ?thesis
    by (simp add: readBulkString_def maxBulkLength_def)
qed

lemma readNull_back:
  assumes "is_data s = ''-1'' @ CRLF @ rest"
  shows "readBulkString s = (Inr NullBulkString, s\<lparr>is_data := rest\<rparr>)"
proof -
  have "readLine s = (Inr ''-1'', s\<lparr>is_data := rest\<rparr>)"
    by (rule readLine_back [OF assms]) (simp_all add: maxLineLength_def)
  moreover have "ParseInt ''-1'' = Some (- 1)" by (simp add: ParseInt_def digit_val_def)
  ultimately show ?thesis by (simp add: readBulkString_def)
qed

lemma readArrayLength_back:
  assumes "is_data s = show_nat n @ CRLF @ rest" and "n \<le> maxArrayLength"
  shows "readArrayLength s = (Inr n, s\<lparr>is_data := rest\<rparr>)"
proof -
  have len: "n \<le> 1048576" using assms(2) by (simp add: maxArrayLength_def)
  from length_line [OF assms(1) len] length_word [OF len] assms(2) show ?thesis
    by (simp add: readArrayLength_def)
qed

lemma read_items_back:
  assumes "\<And>v s rest. v \<in> set vs \<Longrightarrow> is_data s = wire v @ rest \<Longrightarrow> ReadValue s = (Inr v, s\<lparr>is_data := rest\<rparr>)"
    and "is_data s = concat (map wire vs) @ rest"
  shows "read_items (length vs) s = (Inr vs, s\<lparr>is_data := rest\<rparr>)"
  using assms
proof (induction vs arbitrary: s)
  case (Cons v vs)
  have "ReadValue s = (Inr v, s\<lparr>is_data := concat (map wire vs) @ rest\<rparr>)" using Cons.prems by simp
  moreover have "read_items (length vs) (s\<lparr>is_data := concat (map wire vs) @ rest\<rparr>) = (Inr vs, s\<lparr>is_data := rest\<rparr>)"
    using Cons.IH [of "s\<lparr>is_data := concat (map wire vs) @ rest\<rparr>"] Cons.prems(1) by simp
  ultimately show ?case by (simp add: read_items.simps)
qed (simp add: read_items.simps)

lemma ReadValue_wire:
  "resp_ok v \<Longrightarrow> is_data s = wire v @ rest \<Longrightarrow> ReadValue s = (Inr v, s\<lparr>is_data := rest\<rparr>)"
proof (induction v arbitrary: s rest rule: resp_ok.induct)
  case (1 ty str n arr null)
  have byte: "ReadByte s = (Inr ty, s\<lparr>is_data := tl (wire (Value ty str n arr null)) @ rest\<rparr>)"
    using 1(3) by (intro ReadByte_Cons) simp
  have line: "readLine (s\<lparr>is_data := str @ CRLF @ rest\<rparr>) = (Inr str, s\<lparr>is_data := rest\<rparr>)"
    if "ty = TypeSimpleString \<or> ty = TypeError"
    using 1(2) that readLine_back [of "s\<lparr>is_data := str @ CRLF @ rest\<rparr>" str rest] by simp
  from 1(2) consider "ty = TypeSimpleString" | "ty = TypeError" | "ty = TypeInteger" | "ty = TypeBulkString"
    | "ty = TypeArray" by (auto split: if_splits)
  then show ?case
  proof cases
    case 1
    with \<open>resp_ok _\<close> byte line show ?thesis by (simp add: ReadValue.simps value_defs type_defs)
  next
    case 2
    with \<open>resp_ok _\<close> byte line show ?thesis by (simp add: ReadValue.simps value_defs type_defs)
  next
    case 3
    have "readLine (s\<lparr>is_data := show_int (sint n) @ CRLF @ rest\<rparr>) = (Inr (show_int (sint n)), s\<lparr>is_data := rest\<rparr>)"
      using number_line [of "s\<lparr>is_data := show_int (sint n) @ CRLF @ rest\<rparr>" n rest] by simp
    with 3 \<open>resp_ok _\<close> byte show ?thesis by (simp add: ReadValue.simps ParseInt_show_int value_defs type_defs)
  next
    case 4
    with \<open>resp_ok _\<close> byte readNull_back [of "s\<lparr>is_data := ''-1'' @ CRLF @ rest\<rparr>" rest]
      readBulkString_back [of "s\<lparr>is_data := show_nat (length str) @ CRLF @ str @ CRLF @ rest\<rparr>" str rest]
    show ?thesis by (cases null) (simp_all add: ReadValue.simps value_defs type_defs)
  next
    case 5
    let ?s = "s\<lparr>is_data := concat (map wire arr) @ rest\<rparr>"
    have ok: "list_all resp_ok arr" "length arr \<le> maxArrayLength" using 5 \<open>resp_ok _\<close> by (simp_all add: type_defs)
    have "read_items (length arr) ?s = (Inr arr, s\<lparr>is_data := rest\<rparr>)"
      using read_items_back [of arr ?s rest] 1(1) 5 ok(1) by (simp add: list_all_iff type_defs)
    moreover have "readArrayLength (s\<lparr>is_data := show_nat (length arr) @ CRLF @ concat (map wire arr) @ rest\<rparr>) = (Inr (length arr), ?s)"
      using readArrayLength_back [of "s\<lparr>is_data := show_nat (length arr) @ CRLF @ concat (map wire arr) @ rest\<rparr>" "length arr"] ok(2) by simp
    ultimately show ?thesis using 5 \<open>resp_ok _\<close> byte by (simp add: ReadValue.simps value_defs type_defs)
  qed
qed

section \<open>What the reader lets in\<close>

lemma ReadString_LF_Inr:
  assumes "ReadString_LF s = (Inr line, s')"
  obtains u where "line = u @ [LF]" "LF \<notin> set u" "is_data s = line @ is_data s'" "is_end s' = is_end s"
proof -
  have "LF \<in> set (is_data s)"
  proof (rule ccontr)
    assume "LF \<notin> set (is_data s)"
    then have "dropWhile (\<lambda>c. c \<noteq> LF) (is_data s) = []" by auto
    with assms show False by (simp add: ReadString_LF_def)
  qed
  then obtain u rest where u: "is_data s = u @ LF # rest" "LF \<notin> set u" by (auto dest: split_list_first)
  with ReadString_LF_line [OF u] assms show ?thesis by (intro that [of u]) auto
qed

lemma readLine_Inr:
  assumes "readLine s = (Inr line, s')"
  shows "LF \<notin> set line \<and> length line + 2 \<le> maxLineLength"
proof -
  obtain raw s1 where raw: "ReadString_LF s = (Inr raw, s1)" "length raw \<le> maxLineLength" "HasSuffix raw CRLF"
    "line = TrimSuffix raw CRLF"
    using assms by (auto simp: readLine_def split: prod.splits sum.splits if_splits)
  obtain u where u: "raw = u @ [LF]" "LF \<notin> set u" using ReadString_LF_Inr [OF raw(1)] by blast
  obtain v where v: "raw = v @ CRLF" using raw(3) by (auto simp: HasSuffix_split)
  with u have "u = v @ [CHR 0x0D]" by (simp add: CRLF_def)
  with u v raw(2,4) show ?thesis by (simp add: CRLF_def TrimSuffix_def HasSuffix_def)
qed

lemma readBulkString_Inr:
  assumes "readBulkString s = (Inr v, s')"
  shows "resp_ok v"
proof -
  have "length (take (unat n) buf) \<le> maxBulkLength" if "\<not> int maxBulkLength < sint n" "\<not> sint n < -1" "sint n \<noteq> -1" for n :: i64 and buf :: bytes
  proof -
    have "unat n = nat (sint n)" using that by (intro unat_sint) simp
    with that(1) show ?thesis by simp
  qed
  then show ?thesis using assms
    by (auto simp: readBulkString_def value_defs type_defs split: prod.splits sum.splits option.splits if_splits)
qed

lemma readArrayLength_Inr:
  assumes "readArrayLength s = (Inr n, s')"
  shows "n \<le> maxArrayLength"
proof -
  obtain w :: i64 where w: "0 \<le> sint w" "sint w \<le> int maxArrayLength" "n = unat w"
    using assms by (auto simp: readArrayLength_def not_less split: prod.splits sum.splits option.splits if_splits)
  with unat_sint [OF w(1)] show ?thesis by simp
qed

lemma reader_resp_ok:
  "\<forall>v s'. ReadValue s = (Inr v, s') \<longrightarrow> resp_ok v"
  "\<forall>vs s'. read_items n s = (Inr vs, s') \<longrightarrow> length vs = n \<and> list_all resp_ok vs"
proof (induction s and n s rule: ReadValue_read_items.induct)
  case (1 s)
  show ?case
  proof (intro allI impI)
    fix v s' assume run: "ReadValue s = (Inr v, s')"
    then obtain c s1 where b: "ReadByte s = (Inr c, s1)"
      by (auto simp: ReadValue.simps split: prod.splits sum.splits)
    have items: "resp_ok (Array vs)"
      if "c = TypeArray" "readArrayLength s1 = (Inr n, s2)" "read_items n s2 = (Inr vs, s')" for n s2 vs
    proof -
      have "length vs = n \<and> list_all resp_ok vs"
        using 1 [OF b [symmetric] refl _ _ _ _ that(1) that(2) [symmetric] refl] that(1,3) by (auto simp: type_defs)
      with readArrayLength_Inr [OF that(2)] show ?thesis by (auto simp: Array_def type_defs)
    qed
    show "resp_ok v"
      using run b items readBulkString_Inr [of s1 v s']
      by (auto simp: ReadValue.simps SimpleString_def Error_def Integer_def type_defs dest!: readLine_Inr
          split: prod.splits sum.splits option.splits if_splits)
  qed
next
  case (3 n s)
  then show ?case by (auto simp: read_items.simps split: prod.splits sum.splits)
qed (simp add: read_items.simps)

end
