(* ===== verification/Protocol.thy ===== *)
theory Protocol
  imports Command Resp
begin

text \<open>
  \<open>internal/protocol/adapter.go\<close>: RESP values to commands, responses to RESP values, and the dispatch of
  one value; and \<open>handleConn\<close> of \<open>internal/server/server.go\<close>, the loop that serves one connection.
\<close>

section \<open>The adapter\<close>

definition pingName :: string where "pingName = ''PING''"

fun command_parts :: "resp_value list \<Rightarrow> go_error + string list" where
  "command_parts [] = Inr []"
| "command_parts (item # items) =
     (if v_Type item \<noteq> TypeBulkString \<or> v_Null item then Inl (ErrNew ''command elements must be bulk strings'')
      else case command_parts items of
             Inl err \<Rightarrow> Inl err
           | Inr parts \<Rightarrow> Inr (v_String item # parts))"

definition CommandFromRESP :: "(string \<Rightarrow> string) \<Rightarrow> resp_value \<Rightarrow> go_error + Command" where
  "CommandFromRESP um value =
     (if v_Type value \<noteq> TypeArray then Inl (ErrNew ''expected array command'')
      else if v_Array value = [] then Inl ErrInvalidArguments
      else case command_parts (v_Array value) of
             Inl err \<Rightarrow> Inl err
           | Inr parts \<Rightarrow> Inr \<lparr>cmd_Name = ToUpper um (hd parts), cmd_Args = tl parts\<rparr>)"

definition errorReply :: "go_error \<Rightarrow> resp_value" where
  "errorReply err = Error (''ERR '' @ error_msg err)"

text \<open>\<open>string(response.Payload)\<close>: the empty string for nil.\<close>

definition payload_string :: "bytes option \<Rightarrow> string" where
  "payload_string p = (case p of None \<Rightarrow> [] | Some bs \<Rightarrow> bs)"

definition responseToRESP :: "string \<Rightarrow> Response \<Rightarrow> resp_value" where
  "responseToRESP name response =
     (if name = EnqueueName then
        Array [BulkString ''task_id'', BulkString (rsp_TaskID response)]
      else if name = FetchName then
        Array [BulkString ''lease_id'', BulkString (rsp_LeaseID response),
               BulkString ''task_id'', BulkString (rsp_TaskID response),
               BulkString ''payload'', BulkString (payload_string (rsp_Payload response))]
      else if name = AckName then SimpleString ''OK''
      else if name = StatsName then
        Array [BulkString ''ready'', Integer (of_nat (cs_Ready (rsp_Stats response))),
               BulkString ''processing'', Integer (of_nat (cs_Processing (rsp_Stats response))),
               BulkString ''dead'', Integer (of_nat (cs_Dead (rsp_Stats response))),
               BulkString ''active_leases'', Integer (of_nat (cs_ActiveLeases (rsp_Stats response))),
               BulkString ''heap'', Integer (of_nat (cs_ExpirationHeap (rsp_Stats response)))]
      else errorReply ErrUnknownCommand)"

definition adapter_Handle ::
  "('b, 'j) host \<Rightarrow> 'w moment \<Rightarrow> resp_value \<Rightarrow> ('b, 'j, 'w) Service \<Rightarrow> resp_value \<times> ('b, 'j, 'w) Service" where
  "adapter_Handle h m value s =
     (case CommandFromRESP (h_upper h) value of
        Inl err \<Rightarrow> (errorReply err, s)
      | Inr cmd \<Rightarrow>
          if cmd_Name cmd = pingName then (SimpleString ''PONG'', s)
          else
            (case handler_Handle h m cmd s of
               (Inl err, s') \<Rightarrow>
                 if errors_is err ErrQueueEmpty then (NullBulkString, s') else (errorReply err, s')
             | (Inr response, s') \<Rightarrow> (responseToRESP (cmd_Name cmd) response, s')))"

section \<open>One connection\<close>

text \<open>\<open>handleConn\<close>. The \<open>i\<close>-th command of the connection runs at the moment \<open>ms i\<close>, on the service as the other
  connections and the reaper have left it by then, \<open>others i\<close> of what the previous command left.\<close>

function handleConn ::
  "('b, 'j) host \<Rightarrow> (nat \<Rightarrow> 'w moment) \<Rightarrow> (nat \<Rightarrow> ('b, 'j, 'w) Service \<Rightarrow> ('b, 'j, 'w) Service) \<Rightarrow> nat \<Rightarrow>
   instream \<Rightarrow> outstream \<Rightarrow> ('b, 'j, 'w) Service \<Rightarrow> outstream \<times> ('b, 'j, 'w) Service" where
  "handleConn h ms others i inp out s =
     (case ReadValue inp of
        (Inl err, _) \<Rightarrow>
          if errors_is err ErrEOF then (out, s)
          else (snd (WriteValue (Error (''ERR '' @ error_msg err)) out), s)
      | (Inr value, inp') \<Rightarrow>
          (case adapter_Handle h (ms i) value (others i s) of
             (reply, s') \<Rightarrow>
               (case WriteValue reply out of
                  (Inl _, out') \<Rightarrow> (out', s')
                | (Inr _, out') \<Rightarrow> handleConn h ms others (Suc i) inp' out' s')))"
  by pat_completeness auto
termination
  by (relation "measure (\<lambda>(h, ms, others, i, inp, out, s). length (is_data inp))")
    (auto dest: ReadValue_shrinks [OF sym])

declare handleConn.simps [simp del]

section \<open>Facts\<close>

lemma reply_constructors_known [simp]:
  "known_types (SimpleString x)" "known_types (Error x)" "known_types (Integer n)" "known_types (BulkString x)"
  "known_types NullBulkString" "known_types (Array vs) \<longleftrightarrow> list_all known_types vs"
  by (simp_all add: value_defs type_defs)

lemma adapter_reply_known: "known_types (fst (adapter_Handle h m value s))"
  by (auto simp: adapter_Handle_def errorReply_def responseToRESP_def split: sum.splits prod.splits)

text \<open>The commands of a connection, handled one after the other.\<close>

fun handle_all ::
  "('b, 'j) host \<Rightarrow> (nat \<Rightarrow> 'w moment) \<Rightarrow> (nat \<Rightarrow> ('b, 'j, 'w) Service \<Rightarrow> ('b, 'j, 'w) Service) \<Rightarrow> nat \<Rightarrow>
   resp_value list \<Rightarrow> ('b, 'j, 'w) Service \<Rightarrow> resp_value list \<times> ('b, 'j, 'w) Service" where
  "handle_all h ms others i [] s = ([], s)"
| "handle_all h ms others i (v # vs) s =
     (case adapter_Handle h (ms i) v (others i s) of
        (reply, s1) \<Rightarrow> (case handle_all h ms others (Suc i) vs s1 of (replies, s2) \<Rightarrow> (reply # replies, s2)))"

lemma handleConn_pipeline:
  assumes "list_all resp_ok vs" and "os_script out = []"
  shows "handleConn h ms others i \<lparr>is_data = concat (map wire vs), is_end = ErrEOF\<rparr> out s =
    (case handle_all h ms others i vs s of (replies, s') \<Rightarrow> (out\<lparr>os_data := os_data out @ concat (map wire replies)\<rparr>, s'))"
  using assms
proof (induction vs arbitrary: i out s)
  case Nil
  have "ReadValue \<lparr>is_data = [], is_end = ErrEOF\<rparr> = (Inl ErrEOF, \<lparr>is_data = [], is_end = ErrEOF\<rparr>)"
    by (simp add: ReadValue.simps ReadByte_def)
  then show ?case by (subst handleConn.simps) simp
next
  case (Cons v vs)
  let ?inp = "\<lparr>is_data = concat (map wire vs), is_end = ErrEOF\<rparr>"
  have read: "ReadValue \<lparr>is_data = concat (map wire (v # vs)), is_end = ErrEOF\<rparr> = (Inr v, ?inp)"
    using ReadValue_wire [of v "\<lparr>is_data = concat (map wire (v # vs)), is_end = ErrEOF\<rparr>" "concat (map wire vs)"] Cons.prems(1)
    by simp
  obtain reply s1 where run: "adapter_Handle h (ms i) v (others i s) = (reply, s1)" by fastforce
  let ?out = "out\<lparr>os_data := os_data out @ wire reply\<rparr>"
  have "known_types reply" using adapter_reply_known [of h "ms i" v "others i s"] run by simp
  then have wr: "WriteValue reply out = (Inr (), ?out)" using Cons.prems(2) by (rule WriteValue_wire(1) [rotated])
  have IH: "handleConn h ms others (Suc i) ?inp ?out s1 =
      (case handle_all h ms others (Suc i) vs s1 of (replies, s') \<Rightarrow> (?out\<lparr>os_data := os_data ?out @ concat (map wire replies)\<rparr>, s'))"
    using Cons.IH [of ?out "Suc i" s1] Cons.prems by simp
  show ?case
    by (subst handleConn.simps) (simp only: read run wr IH prod.case sum.case handle_all.simps, simp split: prod.split)
qed

end
