(* ===== verification/Server.thy ===== *)
theory Server
  imports Protocol
begin

text \<open>
  \<open>ListenAndServe\<close> of \<open>internal/server/server.go\<close> as a step relation, and the methods on the listener.

  A step is one call that blocks or one statement that other goroutines can see: the return of \<open>net.Listen\<close> and of
  \<open>Accept\<close>, the send to the \<open>slots\<close> channel, the end of a handler goroutine, the cancellation of
  the context, the return of \<open>wg.Wait\<close>. The sleeps take time and change nothing.
\<close>

section \<open>Accept errors\<close>

text \<open>What the server asks about an error of \<open>Accept\<close>: whether it is \<open>net.ErrClosed\<close>, \<open>EMFILE\<close> or \<open>ENFILE\<close>,
  and, when it is a \<open>net.Error\<close>, whether it is a timeout.\<close>

record accept_error =
  ae_closed :: bool
  ae_EMFILE :: bool
  ae_ENFILE :: bool
  ae_Timeout :: "bool option"

definition isTemporaryAccept :: "accept_error \<Rightarrow> bool" where
  "isTemporaryAccept err \<longleftrightarrow> ae_EMFILE err \<or> ae_ENFILE err \<or> ae_Timeout err = Some True"

text \<open>The back-off between two failed accepts, a 64-bit number of nanoseconds.\<close>

definition next_delay :: "duration \<Rightarrow> duration" where
  "next_delay delay =
     (if delay = 0 then 5 * 1000000
      else let d = delay * 2 in if sint d > 1000000000 then 1000000000 else d)"

section \<open>The server\<close>

text \<open>A listener has an identity, which \<open>clearListener\<close> compares, and the address it is bound to.\<close>

record net_listener =
  ln_id :: nat
  ln_addr :: string

datatype serve_error = ListenError go_error | AcceptError accept_error

datatype serve_phase =
    Starting
  | Accepting
  | Admitting
  | Draining accept_error
  | Returned "serve_error option"

record server_config =
  scfg_Addr :: string
  scfg_MaxConns :: i64

text \<open>\<open>ss_listener\<close> is the field of the struct, \<open>ss_local\<close> the variable \<open>listener\<close> of the running \<open>ListenAndServe\<close>;
  \<open>ss_handlers\<close> is the count of the wait group.\<close>

record server_state =
  ss_phase :: serve_phase
  ss_delay :: duration
  ss_slots :: nat
  ss_handlers :: nat
  ss_cancelled :: bool
  ss_listener :: "net_listener option"
  ss_local :: "net_listener option"

definition setListener :: "net_listener \<Rightarrow> server_state \<Rightarrow> server_state" where
  "setListener l st = st\<lparr>ss_listener := Some l\<rparr>"

definition clearListener :: "net_listener option \<Rightarrow> server_state \<Rightarrow> server_state" where
  "clearListener l st = (if ss_listener st = l then st\<lparr>ss_listener := None\<rparr> else st)"

definition server_Addr :: "server_state \<Rightarrow> string" where
  "server_Addr st = (case ss_listener st of None \<Rightarrow> [] | Some l \<Rightarrow> ln_addr l)"

definition listen_addr :: "server_config \<Rightarrow> string" where
  "listen_addr cfg = (if scfg_Addr cfg = [] then ''127.0.0.1:6380'' else scfg_Addr cfg)"

definition capped :: "server_config \<Rightarrow> bool" where
  "capped cfg \<longleftrightarrow> 0 < sint (scfg_MaxConns cfg)"

definition new_server :: server_state where
  "new_server = \<lparr>ss_phase = Starting, ss_delay = 0, ss_slots = 0, ss_handlers = 0, ss_cancelled = False,
     ss_listener = None, ss_local = None\<rparr>"

section \<open>The accept loop\<close>

text \<open>\<open>bound addr l\<close>: the listener \<open>l\<close> is one that \<open>net.Listen\<close> may return for \<open>addr\<close>.\<close>

text \<open>An accepted connection waits for a slot when there is a cap; a cancelled context may close it
  instead. A handler goroutine gives its slot back when the connection ends.\<close>

inductive serve_step :: "(string \<Rightarrow> net_listener \<Rightarrow> bool) \<Rightarrow> server_config \<Rightarrow> server_state \<Rightarrow> server_state \<Rightarrow> bool"
  for bound and cfg :: server_config where
  listen_failed: "ss_phase st = Starting \<Longrightarrow>
     serve_step bound cfg st (st\<lparr>ss_phase := Returned (Some (ListenError err))\<rparr>)"
| listened: "ss_phase st = Starting \<Longrightarrow> bound (listen_addr cfg) l \<Longrightarrow>
     serve_step bound cfg st (setListener l (st\<lparr>ss_phase := Accepting, ss_local := Some l\<rparr>))"
| accepted: "ss_phase st = Accepting \<Longrightarrow>
     serve_step bound cfg st (st\<lparr>ss_phase := Admitting, ss_delay := 0\<rparr>)"
| retry: "ss_phase st = Accepting \<Longrightarrow> \<not> ss_cancelled st \<Longrightarrow> \<not> ae_closed err \<Longrightarrow> isTemporaryAccept err \<Longrightarrow>
     serve_step bound cfg st (st\<lparr>ss_delay := next_delay (ss_delay st)\<rparr>)"
| failed: "ss_phase st = Accepting \<Longrightarrow> ss_cancelled st \<or> ae_closed err \<or> \<not> isTemporaryAccept err \<Longrightarrow>
     serve_step bound cfg st (clearListener (ss_local st) (st\<lparr>ss_phase := Draining err\<rparr>))"
| admitted: "ss_phase st = Admitting \<Longrightarrow> capped cfg \<Longrightarrow> int (ss_slots st) < sint (scfg_MaxConns cfg) \<Longrightarrow>
     serve_step bound cfg st (st\<lparr>ss_phase := Accepting, ss_slots := ss_slots st + 1, ss_handlers := ss_handlers st + 1\<rparr>)"
| admitted_uncapped: "ss_phase st = Admitting \<Longrightarrow> \<not> capped cfg \<Longrightarrow>
     serve_step bound cfg st (st\<lparr>ss_phase := Accepting, ss_handlers := ss_handlers st + 1\<rparr>)"
| dropped: "ss_phase st = Admitting \<Longrightarrow> capped cfg \<Longrightarrow> ss_cancelled st \<Longrightarrow>
     serve_step bound cfg st (st\<lparr>ss_phase := Accepting\<rparr>)"
| conn_done: "0 < ss_handlers st \<Longrightarrow>
     serve_step bound cfg st (st\<lparr>ss_slots := (if capped cfg then ss_slots st - 1 else ss_slots st),
       ss_handlers := ss_handlers st - 1\<rparr>)"
| cancel: "serve_step bound cfg st (st\<lparr>ss_cancelled := True\<rparr>)"
| returned: "ss_phase st = Draining err \<Longrightarrow> ss_handlers st = 0 \<Longrightarrow>
     serve_step bound cfg st (st\<lparr>ss_phase := Returned (if ss_cancelled st \<or> ae_closed err then None else Some (AcceptError err))\<rparr>)"

inductive_cases serve_stepE: "serve_step bound cfg st st'"

definition delay_ok :: "duration \<Rightarrow> bool" where
  "delay_ok d \<longleftrightarrow> sint d = 0 \<or> 5000000 \<le> sint d \<and> sint d \<le> 1000000000"

definition server_ok :: "(string \<Rightarrow> net_listener \<Rightarrow> bool) \<Rightarrow> server_config \<Rightarrow> server_state \<Rightarrow> bool" where
  "server_ok bound cfg st \<longleftrightarrow>
     (capped cfg \<longrightarrow> ss_slots st = ss_handlers st \<and> int (ss_handlers st) \<le> sint (scfg_MaxConns cfg)) \<and>
     delay_ok (ss_delay st) \<and>
     ss_listener st = (if ss_phase st = Accepting \<or> ss_phase st = Admitting then ss_local st else None) \<and>
     (ss_phase st = Accepting \<or> ss_phase st = Admitting \<longrightarrow> (\<exists>l. ss_local st = Some l \<and> bound (listen_addr cfg) l)) \<and>
     (ss_phase st = Starting \<longrightarrow> ss_handlers st = 0) \<and>
     (\<forall>r. ss_phase st = Returned r \<longrightarrow> ss_handlers st = 0)"

lemma next_delay_ok:
  assumes "delay_ok d"
  shows "delay_ok (next_delay d) \<and> (sint d = 0 \<or> sint (next_delay d) = min (2 * sint d) 1000000000)"
proof (cases "sint d = 0")
  case True
  then have "d = 0" by (metis signed_0 signed_word_eqI)
  then show ?thesis by (simp add: next_delay_def delay_ok_def)
next
  case False
  with assms have r: "5000000 \<le> sint d" "sint d \<le> 1000000000" by (simp_all add: delay_ok_def)
  then have dbl: "sint (d * 2) = sint d * 2"
    by (simp add: sint_word_ariths(3) signed_take_bit_int_eq_self_iff)
  have "d \<noteq> 0" using False by auto
  with r dbl show ?thesis by (auto simp: next_delay_def delay_ok_def Let_def)
qed

lemma server_ok_new: "server_ok bound cfg new_server"
  by (simp add: server_ok_def new_server_def delay_ok_def capped_def)

lemma server_ok_step: "serve_step bound cfg st st' \<Longrightarrow> server_ok bound cfg st \<Longrightarrow> server_ok bound cfg st'"
proof (induction rule: serve_step.induct)
  case (retry st err)
  then show ?case using next_delay_ok [of "ss_delay st"] by (simp add: server_ok_def)
qed (auto simp: server_ok_def delay_ok_def setListener_def clearListener_def)

lemma server_ok_steps: "(serve_step bound cfg)\<^sup>*\<^sup>* new_server st \<Longrightarrow> server_ok bound cfg st"
  by (induction rule: rtranclp_induct) (auto intro: server_ok_new server_ok_step)

end
