(* ===== verification/Flags.thy ===== *)
theory Flags
  imports Go_Text
begin

text \<open>
  The package \<open>flag\<close>, as far as \<open>cmd/moxy/main.go\<close> uses it: \<open>FlagSet.Parse\<close> on string, int and bool flags, with
  \<open>strconv.ParseInt\<close> in base 0 and \<open>strconv.ParseBool\<close>. Every error ends the program with the same exit code; \<open>None\<close>
  stands for any of them, the request for help included.
\<close>

section \<open>Numbers in base 0\<close>

definition letter_in :: "char \<Rightarrow> nat \<Rightarrow> nat \<Rightarrow> bool" where
  "letter_in c lo hi \<longleftrightarrow> (let n = of_char c :: nat in lo \<le> n \<and> n \<le> hi \<or> lo \<le> n + 32 \<and> n + 32 \<le> hi)"

definition int_digit :: "char \<Rightarrow> nat option" where
  "int_digit c =
     (case digit_val c of
        Some d \<Rightarrow> Some d
      | None \<Rightarrow> if letter_in c 97 122 then Some (let n = of_char c in if n \<le> 90 then n - 55 else n - 87) else None)"

fun parse_base :: "nat \<Rightarrow> nat \<Rightarrow> string \<Rightarrow> nat option" where
  "parse_base b acc [] = Some acc"
| "parse_base b acc (c # cs) =
     (if c = CHR ''_'' then parse_base b acc cs
      else case int_digit c of
             None \<Rightarrow> None
           | Some d \<Rightarrow> if b \<le> d then None else parse_base b (acc * b + d) cs)"

text \<open>The prefix of a number decides its base; a leading zero alone means base 8.\<close>

definition base_prefix :: "string \<Rightarrow> nat \<times> string" where
  "base_prefix s =
     (if s = [] \<or> hd s \<noteq> CHR ''0'' then (10, s)
      else if 3 \<le> length s \<and> s ! 1 \<in> {CHR ''b'', CHR ''B''} then (2, drop 2 s)
      else if 3 \<le> length s \<and> s ! 1 \<in> {CHR ''o'', CHR ''O''} then (8, drop 2 s)
      else if 3 \<le> length s \<and> s ! 1 \<in> {CHR ''x'', CHR ''X''} then (16, drop 2 s)
      else (8, drop 1 s))"

text \<open>\<open>underscoreOK\<close>: underscores only between digits, or between the prefix of the base and a digit.\<close>

datatype last_seen = SeenNone | SeenDigit | SeenUnderscore | SeenOther

fun underscores :: "bool \<Rightarrow> last_seen \<Rightarrow> string \<Rightarrow> bool" where
  "underscores hex i [] \<longleftrightarrow> i \<noteq> SeenUnderscore"
| "underscores hex i (c # cs) \<longleftrightarrow>
     (if digit_val c \<noteq> None \<or> hex \<and> letter_in c 97 102 then underscores hex SeenDigit cs
      else if c = CHR ''_'' then i = SeenDigit \<and> underscores hex SeenUnderscore cs
      else i \<noteq> SeenUnderscore \<and> underscores hex SeenOther cs)"

definition underscoreOK :: "string \<Rightarrow> bool" where
  "underscoreOK s =
     (if 2 \<le> length s \<and> hd s = CHR ''0'' \<and> s ! 1 \<in> {CHR ''b'', CHR ''B'', CHR ''o'', CHR ''O'', CHR ''x'', CHR ''X''}
      then underscores (s ! 1 \<in> {CHR ''x'', CHR ''X''}) SeenDigit (drop 2 s)
      else underscores False SeenNone s)"

text \<open>\<open>strconv.ParseInt(s, 0, 64)\<close>.\<close>

definition ParseInt0 :: "string \<Rightarrow> i64 option" where
  "ParseInt0 s =
     (let (neg, u) =
        (case s of
           [] \<Rightarrow> (False, [])
         | c # cs \<Rightarrow> if c = CHR ''-'' then (True, cs) else if c = CHR ''+'' then (False, cs) else (False, s));
          (b, ds) = base_prefix u
      in if u = [] \<or> CHR ''_'' \<in> set ds \<and> \<not> underscoreOK u then None
         else case parse_base b 0 ds of
                None \<Rightarrow> None
              | Some n \<Rightarrow>
                  let v = (if neg then - int n else int n)
                  in if - (2 ^ 63) \<le> v \<and> v < 2 ^ 63 then Some (word_of_int v) else None)"

definition ParseBool :: "string \<Rightarrow> bool option" where
  "ParseBool s =
     (if s \<in> {''1'', ''t'', ''T'', ''true'', ''TRUE'', ''True''} then Some True
      else if s \<in> {''0'', ''f'', ''F'', ''false'', ''FALSE'', ''False''} then Some False
      else None)"

section \<open>Arguments\<close>

datatype flag_kind = StringFlag | IntFlag | BoolFlag

datatype flag_value = FString string | FInt i64 | FBool bool

text \<open>One argument: not a flag, which ends the flags, a flag that is not well-formed, or a name with the value after
  an equals sign.\<close>

datatype flag_arg = NoFlag | BadFlag | FlagArg string "string option"

definition flag_name :: "string \<Rightarrow> flag_arg" where
  "flag_name name =
     (case name of
        [] \<Rightarrow> BadFlag
      | c # cs \<Rightarrow>
          if c = CHR ''-'' \<or> c = CHR ''='' then BadFlag
          else FlagArg (c # takeWhile (\<lambda>x. x \<noteq> CHR ''='') cs)
                 (case dropWhile (\<lambda>x. x \<noteq> CHR ''='') cs of [] \<Rightarrow> None | _ # v \<Rightarrow> Some v))"

definition split_flag :: "string \<Rightarrow> flag_arg" where
  "split_flag s =
     (case s of
        m # d # cs \<Rightarrow>
          if m \<noteq> CHR ''-'' then NoFlag
          else if d = CHR ''-'' then (if cs = [] then NoFlag else flag_name cs)
          else flag_name (d # cs)
      | _ \<Rightarrow> NoFlag)"

definition flag_set :: "flag_kind \<Rightarrow> string \<Rightarrow> flag_value option" where
  "flag_set k v =
     (case k of
        StringFlag \<Rightarrow> Some (FString v)
      | IntFlag \<Rightarrow> map_option FInt (ParseInt0 v)
      | BoolFlag \<Rightarrow> map_option FBool (ParseBool v))"

text \<open>\<open>FlagSet.Parse\<close>: the values in the order in which they are set.\<close>

fun parse_flags :: "(string \<Rightarrow> flag_kind option) \<Rightarrow> string list \<Rightarrow> (string \<times> flag_value) list option" where
  "parse_flags formal [] = Some []"
| "parse_flags formal (s # args) =
     (case split_flag s of
        NoFlag \<Rightarrow> Some []
      | BadFlag \<Rightarrow> None
      | FlagArg name value \<Rightarrow>
          (case formal name of
             None \<Rightarrow> None
           | Some kind \<Rightarrow>
               (case (value, kind, args) of
                  (Some v, _, _) \<Rightarrow>
                    (case flag_set kind v of None \<Rightarrow> None | Some x \<Rightarrow> map_option (Cons (name, x)) (parse_flags formal args))
                | (None, BoolFlag, _) \<Rightarrow> map_option (Cons (name, FBool True)) (parse_flags formal args)
                | (None, _, []) \<Rightarrow> None
                | (None, _, v # args') \<Rightarrow>
                    (case flag_set kind v of None \<Rightarrow> None | Some x \<Rightarrow> map_option (Cons (name, x)) (parse_flags formal args')))))"

section \<open>A printed number is read back\<close>

lemma parse_base_digits: "parse_digits acc s = Some n \<Longrightarrow> parse_base 10 acc s = Some n \<and> CHR ''_'' \<notin> set s"
proof (induction s arbitrary: acc)
  case (Cons c s)
  then obtain d where d: "digit_val c = Some d" "parse_digits (acc * 10 + d) s = Some n" by (auto split: option.splits)
  then have "d < 10" by (auto simp: digit_val_def Let_def split: if_splits)
  moreover have "c \<noteq> CHR ''_''" using d(1) by (auto simp: digit_val_def)
  ultimately show ?case using Cons.IH [OF d(2)] d(1) by (simp add: int_digit_def)
qed simp

lemma show_nat_first: "0 < n \<Longrightarrow> hd (show_nat n) \<noteq> CHR ''0''"
proof (induction n rule: show_nat.induct)
  case (1 n)
  show ?case
  proof (cases "n < 10")
    case True
    then have "char_of (48 + n) \<noteq> CHR ''0''"
      using 1(2) by (simp add: of_char_eq_iff [where 'a = nat, symmetric] del: of_char_eq_iff)
    then show ?thesis using True by (subst show_nat.simps) simp
  next
    case False
    then have "hd (show_nat (n div 10)) \<noteq> CHR ''0''" using 1(1) by simp
    then show ?thesis using False by (subst show_nat.simps) simp
  qed
qed

lemma base_show_nat: "case base_prefix (show_nat n) of (b, ds) \<Rightarrow> parse_base b 0 ds = Some n \<and> CHR ''_'' \<notin> set ds"
proof (cases "n = 0")
  case True
  then have "show_nat n = ''0''"
    by (subst show_nat.simps) (simp add: of_char_eq_iff [where 'a = nat, symmetric] del: of_char_eq_iff)
  then show ?thesis using True by (simp add: base_prefix_def)
next
  case False
  then have "base_prefix (show_nat n) = (10, show_nat n)" using show_nat_first by (simp add: base_prefix_def)
  then show ?thesis using parse_base_digits [OF parse_show_nat] by simp
qed

lemma ParseInt0_show_int: "ParseInt0 (show_int (sint w)) = Some (w :: i64)"
proof -
  have r: "- (2 ^ 63) \<le> sint w" "sint w < 2 ^ 63" using sint_range_size [of w] by (simp_all add: size_word_def)
  obtain b ds where bs: "base_prefix (show_nat (nat \<bar>sint w\<bar>)) = (b, ds)" by fastforce
  with base_show_nat [of "nat \<bar>sint w\<bar>"] have p: "parse_base b 0 ds = Some (nat \<bar>sint w\<bar>)" "CHR ''_'' \<notin> set ds" by simp_all
  show ?thesis
  proof (cases "sint w < 0")
    case True
    then show ?thesis using bs p r by (simp add: show_int_def ParseInt0_def)
  next
    case False
    obtain c cs where cs: "show_nat (nat (sint w)) = c # cs" by (meson neq_Nil_conv show_nat_nonempty)
    then have "c \<noteq> CHR ''-''" "c \<noteq> CHR ''+''" using show_nat_no_sign [of c "nat (sint w)"] by simp_all
    then show ?thesis using False bs p r cs by (simp add: show_int_def ParseInt0_def)
  qed
qed

end
