(* ===== verification/Json.thy ===== *)
theory Json
  imports Go_Text
begin

text \<open>
  \<open>encoding/json\<close>, as far as the program uses it: the syntax of a document, the quoting of strings, and the
  decoding of values into strings, numbers and structs.

  A document is split into tokens and the tokens drive a stack machine, as in the scanner of the library:
  nesting deeper than 10000 is an error. A string is kept as it is written between its quotes and unquoted where
  it is used; a number is kept as its digits.
\<close>

section \<open>Runes\<close>

text \<open>The number of bytes of the rune at the front of a string (\<open>utf8.DecodeRune\<close>), zero when the bytes there
  are not UTF-8.\<close>

fun rune_len :: "bytes \<Rightarrow> nat" where
  "rune_len [] = 0"
| "rune_len (a # s) =
     (if byte_in 0 0x7F a then 1
      else case s of
        [] \<Rightarrow> 0
      | b # s1 \<Rightarrow>
          if byte_in 0xC2 0xDF a then (if continuation b then 2 else 0)
          else (case s1 of
            [] \<Rightarrow> 0
          | c # s2 \<Rightarrow>
              if byte_in 0xE0 0xEF a then
                (if (if byte_in 0xE0 0xE0 a then byte_in 0xA0 0xBF b
                     else if byte_in 0xED 0xED a then byte_in 0x80 0x9F b
                     else continuation b) \<and> continuation c then 3 else 0)
              else (case s2 of
                [] \<Rightarrow> 0
              | d # s3 \<Rightarrow>
                  if byte_in 0xF0 0xF4 a \<and>
                     (if byte_in 0xF0 0xF0 a then byte_in 0x90 0xBF b
                      else if byte_in 0xF4 0xF4 a then byte_in 0x80 0x8F b
                      else continuation b) \<and> continuation c \<and> continuation d then 4 else 0)))"

declare rune_len.simps(2) [simp del]

lemma rune_len_ascii: "byte_in 0 0x7F a \<Longrightarrow> rune_len (a # s) = 1"
  by (simp add: rune_len.simps(2))

lemma rune_cases:
  fixes a :: char and A B D F :: bool and P Q C :: "char \<Rightarrow> bool" and U :: "bytes \<Rightarrow> bool"
  defines "n s \<equiv> (if A then 1 else case s of [] \<Rightarrow> 0 | b # s1 \<Rightarrow> if B then (if C b then 2 else 0) else (case s1 of [] \<Rightarrow> 0
      | c # s2 \<Rightarrow> if D then (if P b \<and> C c then 3 else 0) else (case s2 of [] \<Rightarrow> 0
      | d # s3 \<Rightarrow> if F \<and> Q b \<and> C c \<and> C d then 4 else 0)))"
  shows "(if A then U s else case s of [] \<Rightarrow> False | b # s1 \<Rightarrow> if B then C b \<and> U s1 else (case s1 of [] \<Rightarrow> False
      | c # s2 \<Rightarrow> if D then P b \<and> C c \<and> U s2 else (case s2 of [] \<Rightarrow> False
      | d # s3 \<Rightarrow> F \<and> Q b \<and> C c \<and> C d \<and> U s3))) \<longleftrightarrow> 0 < n s \<and> U (drop (n s) (a # s))"
    and "n s \<le> Suc (length s)"
    and "0 < n s \<Longrightarrow> n (s @ t) = n s"
    and "0 < n s \<Longrightarrow> n (take (n s - 1) s @ t) = n s"
proof -
  consider "s = []" | b where "s = [b]" | b c where "s = [b, c]" | b c d s3 where "s = b # c # d # s3"
    by (metis list.exhaust)
  note split = this
  show "(if A then U s else case s of [] \<Rightarrow> False | b # s1 \<Rightarrow> if B then C b \<and> U s1 else (case s1 of [] \<Rightarrow> False
      | c # s2 \<Rightarrow> if D then P b \<and> C c \<and> U s2 else (case s2 of [] \<Rightarrow> False
      | d # s3 \<Rightarrow> F \<and> Q b \<and> C c \<and> C d \<and> U s3))) \<longleftrightarrow> 0 < n s \<and> U (drop (n s) (a # s))"
    by (cases rule: split) (simp_all add: n_def, blast+)
  show "n s \<le> Suc (length s)" by (cases rule: split) (simp_all add: n_def)
  show "0 < n s \<Longrightarrow> n (s @ t) = n s" by (cases rule: split) (simp_all add: n_def split: if_splits)
  show "0 < n s \<Longrightarrow> n (take (n s - 1) s @ t) = n s"
    by (cases rule: split) (simp_all add: n_def split: if_splits)
qed

lemma utf8_valid_rune: "utf8_valid (a # s) \<longleftrightarrow> 0 < rune_len (a # s) \<and> utf8_valid (drop (rune_len (a # s)) (a # s))"
  unfolding utf8_valid.simps(2) [of a s] rune_len.simps(2) [of a s] by (rule rune_cases(1))

lemma rune_len_le: "rune_len s \<le> length s"
proof (cases s)
  case (Cons a s')
  show ?thesis unfolding Cons rune_len.simps(2) list.size(4) by (simp only: add_0_right add_Suc_right rune_cases(2))
qed simp

lemma rune_len_append:
  assumes "0 < rune_len (a # s)"
  shows "rune_len (a # take (rune_len (a # s) - 1) s @ t) = rune_len (a # s)"
  using assms unfolding rune_len.simps(2) by (rule rune_cases(4))

lemma rune_len_prefix: "0 < rune_len (a # s) \<Longrightarrow> rune_len (a # s @ t) = rune_len (a # s)"
  unfolding rune_len.simps(2) by (rule rune_cases(3))

text \<open>\<open>utf8.AppendRune\<close> of a code point.\<close>

definition AppendRune :: "nat \<Rightarrow> bytes" where
  "AppendRune r =
     (if r < 0x80 then [char_of r]
      else if r < 0x800 then [char_of (0xC0 + r div 64), char_of (0x80 + r mod 64)]
      else if 0xD800 \<le> r \<and> r < 0xE000 \<or> 0x110000 \<le> r then [CHR 0xEF, CHR 0xBF, CHR 0xBD]
      else if r < 0x10000 then
        [char_of (0xE0 + r div 4096), char_of (0x80 + r div 64 mod 64), char_of (0x80 + r mod 64)]
      else
        [char_of (0xF0 + r div 262144), char_of (0x80 + r div 4096 mod 64), char_of (0x80 + r div 64 mod 64),
         char_of (0x80 + r mod 64)])"

abbreviation RuneError :: bytes where
  "RuneError \<equiv> [CHR 0xEF, CHR 0xBF, CHR 0xBD]"

lemma AppendRune_valid: "utf8_valid (AppendRune r @ t) \<longleftrightarrow> utf8_valid t"
proof -
  have err: "utf8_valid (RuneError @ t) \<longleftrightarrow> utf8_valid t"
    by (simp add: utf8_valid.simps(2) byte_in_def)
  define x where "x = r div 64"
  define y where "y = x div 64"
  define z where "z = y div 64"
  have xyz: "r div 64 = x" "r div 4096 = y" "r div 262144 = z" by (simp_all add: x_def y_def z_def div_mult2_eq [symmetric])
  have r: "r = 64 * x + r mod 64" "x = 64 * y + x mod 64" "y = 64 * z + y mod 64"
    by (simp_all add: x_def y_def z_def)
  have m: "r mod 64 \<le> 63" "x mod 64 \<le> 63" "y mod 64 \<le> 63" using mod_less_divisor [of 64] by (simp_all add: less_Suc_eq_le)
  consider "r < 0x80" | "0x80 \<le> r" "r < 0x800" | "0x800 \<le> r" "r < 0xD800" | "0xD800 \<le> r" "r < 0xE000" | "0xE000 \<le> r" "r < 0x10000"
    | "0x10000 \<le> r" "r < 0x110000" | "0x110000 \<le> r"
    by linarith
  then show ?thesis
  proof cases
    case 2
    with r(1) m have "2 \<le> x" "x \<le> 31" by linarith+
    with 2 m show ?thesis by (simp add: AppendRune_def utf8_valid.simps(2) byte_in_def xyz)
  next
    case 3
    with r(1,2) m have "y \<le> 13" "y = 0 \<Longrightarrow> 32 \<le> x mod 64" "y = 13 \<Longrightarrow> x mod 64 \<le> 31" by linarith+
    with 3 m show ?thesis by (cases "y = 0"; cases "y = 13") (simp_all add: AppendRune_def utf8_valid.simps(2) byte_in_def xyz)
  next
    case 5
    with r(1,2) m have "y = 14 \<or> y = 15" by linarith
    with 5 m show ?thesis by (elim disjE) (simp_all add: AppendRune_def utf8_valid.simps(2) byte_in_def xyz)
  next
    case 6
    with r m have "z \<le> 4" "z = 0 \<Longrightarrow> 16 \<le> y mod 64" "z = 4 \<Longrightarrow> y mod 64 \<le> 15" by linarith+
    with 6 m show ?thesis by (cases "z = 0"; cases "z = 4") (simp_all add: AppendRune_def utf8_valid.simps(2) byte_in_def xyz)
  qed (simp_all add: AppendRune_def err utf8_valid.simps(2) byte_in_def)
qed

section \<open>Strings\<close>

abbreviation backslash :: char where "backslash \<equiv> CHR 0x5C"
abbreviation quote :: char where "quote \<equiv> CHR 0x22"

text \<open>\<open>appendString\<close> with the escaping of HTML characters, which \<open>json.Marshal\<close> always does.\<close>

definition escape_byte :: "char \<Rightarrow> string" where
  "escape_byte b =
     (let n = of_char b :: nat in
      if b = backslash \<or> b = quote then [backslash, b]
      else if n = 8 then [backslash, CHR ''b''] else if n = 12 then [backslash, CHR ''f'']
      else if n = 10 then [backslash, CHR ''n''] else if n = 13 then [backslash, CHR ''r'']
      else if n = 9 then [backslash, CHR ''t'']
      else if n < 0x20 \<or> b = CHR ''<'' \<or> b = CHR ''>'' \<or> b = CHR ''&'' then [backslash, CHR ''u'', CHR ''0'', CHR ''0''] @ hex2 n
      else [b])"

fun appendString :: "string \<Rightarrow> string" where
  "appendString [] = []"
| "appendString (a # s) =
     (if byte_in 0 0x7F a then escape_byte a @ appendString s
      else let n = rune_len (a # s) in
        if n = 0 then backslash # ''ufffd'' @ appendString s
        else
          (if take n (a # s) = [CHR 0xE2, CHR 0x80, CHR 0xA8] then backslash # ''u2028''
           else if take n (a # s) = [CHR 0xE2, CHR 0x80, CHR 0xA9] then backslash # ''u2029''
           else take n (a # s)) @ appendString (drop (n - 1) s))"

declare appendString.simps(2) [simp del]

text \<open>The scanner on a string: what is between the quotes, and what follows the closing quote.\<close>

definition hex_val :: "char \<Rightarrow> nat option" where
  "hex_val c =
     (let n = of_char c in
      if 48 \<le> n \<and> n \<le> 57 then Some (n - 48) else if 97 \<le> n \<and> n \<le> 102 then Some (n - 87)
      else if 65 \<le> n \<and> n \<le> 70 then Some (n - 55) else None)"

definition getu4 :: "string \<Rightarrow> nat option" where
  "getu4 s =
     (case s of
        h1 # h2 # h3 # h4 # _ \<Rightarrow>
          (case (hex_val h1, hex_val h2, hex_val h3, hex_val h4) of
             (Some a, Some b, Some c, Some d) \<Rightarrow> Some (((a * 16 + b) * 16 + c) * 16 + d)
           | _ \<Rightarrow> None)
      | _ \<Rightarrow> None)"

fun scan_string :: "string \<Rightarrow> (string \<times> string) option" where
  "scan_string [] = None"
| "scan_string (c # s) =
     (if c = quote then Some ([], s)
      else if c = backslash then
        (case s of
           [] \<Rightarrow> None
         | e # s1 \<Rightarrow>
             if e = CHR ''u'' then
               (if getu4 s1 = None then None
                else map_option (\<lambda>(raw, r). (c # e # take 4 s1 @ raw, r)) (scan_string (drop 4 s1)))
             else if e \<in> set ([quote, backslash] @ ''/bfnrt'') then
               map_option (\<lambda>(raw, r). (c # e # raw, r)) (scan_string s1)
             else None)
      else if of_char c < (0x20 :: nat) then None
      else map_option (\<lambda>(raw, r). (c # raw, r)) (scan_string s))"

declare scan_string.simps(2) [simp del]

text \<open>\<open>unquote\<close>, on a string the scanner has accepted.\<close>

definition unescape :: "char \<Rightarrow> char" where
  "unescape e =
     (if e = CHR ''b'' then CHR 0x08 else if e = CHR ''f'' then CHR 0x0C else if e = CHR ''n'' then LF
      else if e = CHR ''r'' then CHR 0x0D else if e = CHR ''t'' then CHR 0x09 else e)"

definition low_surrogate :: "string \<Rightarrow> nat option" where
  "low_surrogate s =
     (case s of
        c # e # s1 \<Rightarrow>
          if c = backslash \<and> e = CHR ''u'' then
            (case getu4 s1 of Some r \<Rightarrow> if 0xDC00 \<le> r \<and> r < 0xE000 then Some r else None | None \<Rightarrow> None)
          else None
      | _ \<Rightarrow> None)"

function unquote :: "string \<Rightarrow> string" where
  "unquote [] = []"
| "unquote (a # s) =
     (if a = backslash then
        (case s of
           [] \<Rightarrow> []
         | e # s1 \<Rightarrow>
             if e = CHR ''u'' then
               (case getu4 s1 of
                  None \<Rightarrow> []
                | Some r \<Rightarrow>
                    (case low_surrogate (drop 4 s1) of
                       Some r1 \<Rightarrow>
                         if 0xD800 \<le> r \<and> r < 0xDC00
                         then AppendRune ((r - 0xD800) * 1024 + (r1 - 0xDC00) + 0x10000) @ unquote (drop 10 s1)
                         else AppendRune r @ unquote (drop 4 s1)
                     | None \<Rightarrow> AppendRune r @ unquote (drop 4 s1)))
             else if e \<in> set ([quote, backslash] @ ''/bfnrt'') then unescape e # unquote s1 else [])
      else if byte_in 0 0x7F a then a # unquote s
      else let n = rune_len (a # s) in
        if n = 0 then RuneError @ unquote s else take n (a # s) @ unquote (drop (n - 1) s))"
  by pat_completeness auto
termination unquote
  by (relation "measure length") auto

declare unquote.simps(2) [simp del]

subsection \<open>Facts on strings\<close>

lemma char_ascii: "byte_in 0 0x7F a \<longleftrightarrow> (of_char a :: nat) < 128"
  by (auto simp: byte_in_def)

lemma ascii_valid: "byte_in 0 0x7F a \<Longrightarrow> utf8_valid (a # t) \<longleftrightarrow> utf8_valid t"
  by (simp add: utf8_valid.simps(2))

lemma rune_valid:
  assumes "0 < rune_len (a # s)"
  shows "utf8_valid (take (rune_len (a # s)) (a # s) @ t) \<longleftrightarrow> utf8_valid t"
proof -
  let ?n = "rune_len (a # s)"
  have split: "take ?n (a # s) @ t = a # take (?n - 1) s @ t" using assms by (cases ?n) simp_all
  have "rune_len (a # take (?n - 1) s @ t) = ?n" using assms by (rule rune_len_append)
  moreover have "length (take ?n (a # s)) = ?n" using rune_len_le [of "a # s"] by simp
  ultimately show ?thesis using assms utf8_valid_rune [of a "take (?n - 1) s @ t"] unfolding split [symmetric] by simp
qed

lemma rune_bytes:
  assumes "\<not> byte_in 0 0x7F a" and "c \<in> set (take (rune_len (a # s)) (a # s))"
  shows "128 \<le> (of_char c :: nat)"
proof -
  have a: "128 \<le> (of_char a :: nat)" using assms(1) by (simp add: byte_in_def)
  consider "s = []" | b where "s = [b]" | b c where "s = [b, c]" | b c d s3 where "s = b # c # d # s3"
    by (metis list.exhaust)
  then show ?thesis
    using assms(2) a by cases (auto simp: rune_len.simps(2) byte_in_def split: if_splits)
qed

lemma unescape_ascii: "e \<in> set ([quote, backslash] @ ''/bfnrt'') \<Longrightarrow> byte_in 0 0x7F (unescape e)"
  by (simp, elim disjE) (simp_all add: unescape_def byte_in_def)

lemma unescape_valid: "e \<in> set ([quote, backslash] @ ''/bfnrt'') \<Longrightarrow> utf8_valid (unescape e # t) \<longleftrightarrow> utf8_valid t"
  by (rule ascii_valid [OF unescape_ascii])

lemma unquote_valid: "utf8_valid (unquote s)"
proof (induction s rule: unquote.induct)
  case (2 a s)
  have err: "utf8_valid (RuneError @ t) \<longleftrightarrow> utf8_valid t" for t using AppendRune_valid [of "0xD800" t] by (simp add: AppendRune_def)
  consider "a = backslash" "s = []" | e s1 where "a = backslash" "s = e # s1" | "a \<noteq> backslash" "byte_in 0 0x7F a"
    | "a \<noteq> backslash" "\<not> byte_in 0 0x7F a"
    by (cases s) blast+
  then show ?case
  proof cases
    case 2
    then show ?thesis
      using 2 "2.IH"(1-4) unfolding unquote.simps(2) [of a s] by (simp add: AppendRune_valid unescape_valid split: option.split)
  next
    case 4
    then show ?thesis
      using 4 "2.IH"(6,7) unfolding unquote.simps(2) [of a s] by (simp add: Let_def err [simplified] rune_valid)
  qed (use ascii_valid "2.IH"(5) in \<open>simp_all add: unquote.simps(2)\<close>)
qed simp

lemma hex_val_digit: "n < 16 \<Longrightarrow> hex_val (hex_digit n) = Some n"
  by (simp add: hex_val_def hex_digit_def Let_def)

lemma hex_val_zero: "hex_val (CHR ''0'') = Some 0"
  by (simp add: hex_val_def)

lemma getu4_hex2: "n < 256 \<Longrightarrow> getu4 (CHR ''0'' # CHR ''0'' # hex2 n @ t) = Some n"
  by (simp add: getu4_def hex2_def hex_val_digit hex_val_zero)

lemma unquote_u00: "n < 128 \<Longrightarrow> unquote (backslash # CHR ''u'' # CHR ''0'' # CHR ''0'' # hex2 n @ t) = char_of n # unquote t"
  by (subst unquote.simps(2)) (simp add: getu4_hex2 AppendRune_def split: option.split, simp add: hex2_def)

lemma escape_byte_cases:
  obtains (two) e where "escape_byte a = [backslash, e]" "e \<in> set ([quote, backslash] @ ''/bfnrt'')" "unescape e = a"
  | (six) "escape_byte a = backslash # CHR ''u'' # CHR ''0'' # CHR ''0'' # hex2 (of_char a)"
  | (one) "escape_byte a = [a]" "a \<noteq> quote" "a \<noteq> backslash" "\<not> of_char a < (32 :: nat)"
proof -
  let ?n = "of_char a :: nat"
  have c: "?n = 8 \<longleftrightarrow> a = CHR 0x08" "?n = 9 \<longleftrightarrow> a = CHR 0x09" "?n = 10 \<longleftrightarrow> a = LF" "?n = 12 \<longleftrightarrow> a = CHR 0x0C" "?n = 13 \<longleftrightarrow> a = CHR 0x0D"
    by (simp_all add: of_char_eq_iff [where 'a = nat, symmetric] del: of_char_eq_iff)
  consider "a = backslash" | "a = quote" | "a = CHR 0x08" | "a = CHR 0x09" | "a = LF" | "a = CHR 0x0C" | "a = CHR 0x0D"
    | "a \<notin> {backslash, quote, CHR 0x08, CHR 0x09, LF, CHR 0x0C, CHR 0x0D}"
    by auto
  then show thesis
  proof cases
    case 8
    then have "escape_byte a = backslash # CHR ''u'' # CHR ''0'' # CHR ''0'' # hex2 ?n \<or> escape_byte a = [a] \<and> \<not> ?n < 32"
      by (simp add: escape_byte_def Let_def c)
    with 8 six one show thesis by blast
  qed (rule two, simp add: escape_byte_def, simp, simp add: unescape_def)+
qed

lemma unquote_escape:
  assumes "byte_in 0 0x7F a"
  shows "unquote (escape_byte a @ t) = a # unquote t"
proof (cases a rule: escape_byte_cases)
  case (two e)
  from two(2) have "unquote (backslash # e # t) = unescape e # unquote t"
    by (subst unquote.simps(2), simp, elim disjE) simp_all
  with two show ?thesis by simp
next
  case six
  have "(of_char a :: nat) < 128" using assms by (simp add: byte_in_def)
  from unquote_u00 [OF this, of t] six show ?thesis by simp
next
  case one
  with assms show ?thesis by (simp add: unquote.simps(2))
qed

lemma unquote_rune:
  assumes "\<not> byte_in 0 0x7F a" and "0 < rune_len (a # s)"
  shows "unquote (take (rune_len (a # s)) (a # s) @ t) = take (rune_len (a # s)) (a # s) @ unquote t"
proof -
  let ?n = "rune_len (a # s)"
  have split: "take ?n (a # s) = a # take (?n - 1) s" using assms(2) by (cases ?n) simp_all
  have len: "length (take (?n - 1) s) = ?n - 1" using rune_len_le [of "a # s"] by simp
  have "rune_len (a # take (?n - 1) s @ t) = ?n" using assms(2) by (rule rune_len_append)
  moreover have "a \<noteq> backslash" using assms(1) by (auto simp: byte_in_def)
  ultimately show ?thesis unfolding split using assms len by (simp add: unquote.simps(2) Let_def take_Cons')
qed

lemma separator_bytes:
  "char_of (226 :: nat) = CHR 0xE2" "char_of (128 :: nat) = CHR 0x80" "char_of (168 :: nat) = CHR 0xA8" "char_of (169 :: nat) = CHR 0xA9"
  by (simp_all add: of_char_eq_iff [where 'a = nat, symmetric] del: of_char_eq_iff)

lemma unquote_separators:
  "unquote (backslash # ''u2028'' @ t) = [CHR 0xE2, CHR 0x80, CHR 0xA8] @ unquote t"
  "unquote (backslash # ''u2029'' @ t) = [CHR 0xE2, CHR 0x80, CHR 0xA9] @ unquote t"
  by (subst unquote.simps(2), simp add: getu4_def hex_val_def AppendRune_def separator_bytes split: option.split)+

lemma unquote_appendString: "utf8_valid s \<Longrightarrow> unquote (appendString s @ t) = s @ unquote t"
proof (induction s rule: appendString.induct)
  case (2 a s)
  let ?n = "rune_len (a # s)"
  show ?case
  proof (cases "byte_in 0 0x7F a")
    case True
    with 2 show ?thesis by (simp add: appendString.simps(2) unquote_escape ascii_valid)
  next
    case False
    have pos: "0 < ?n" and valid: "utf8_valid (drop ?n (a # s))" using "2.prems" utf8_valid_rune by blast+
    have drop: "drop ?n (a # s) = drop (?n - 1) s" using pos by (cases ?n) simp_all
    have IH: "unquote (appendString (drop (?n - 1) s) @ t) = drop (?n - 1) s @ unquote t"
      using "2.IH"(3) [OF False refl] pos valid drop by simp
    let ?out = "if take ?n (a # s) = [CHR 0xE2, CHR 0x80, CHR 0xA8] then backslash # ''u2028''
      else if take ?n (a # s) = [CHR 0xE2, CHR 0x80, CHR 0xA9] then backslash # ''u2029'' else take ?n (a # s)"
    have "unquote (?out @ u) = take ?n (a # s) @ unquote u" for u
      using unquote_separators [of u] unquote_rune [OF False pos, of u] by simp
    moreover have "appendString (a # s) = ?out @ appendString (drop (?n - 1) s)"
      using False pos unfolding appendString.simps(2) [of a s] by (simp add: Let_def)
    ultimately have "unquote (appendString (a # s) @ t) = take ?n (a # s) @ drop (?n - 1) s @ unquote t"
      using IH by (metis append.assoc)
    then show ?thesis by (metis append.assoc append_take_drop_id drop)
  qed
qed simp

lemma scan_plain:
  "\<forall>c \<in> set u. 128 \<le> (of_char c :: nat) \<Longrightarrow> scan_string (u @ t) = map_option (\<lambda>(raw, r). (u @ raw, r)) (scan_string t)"
proof (induction u)
  case (Cons c u)
  then have "c \<noteq> quote" "c \<noteq> backslash" "\<not> (of_char c :: nat) < 32" by auto
  with Cons show ?case by (simp add: scan_string.simps(2) option.map_comp comp_def split_def)
next
  case Nil
  show ?case by (cases "scan_string t") auto
qed

lemma scan_escape:
  assumes "byte_in 0 0x7F a"
  shows "scan_string (escape_byte a @ t) = map_option (\<lambda>(raw, r). (escape_byte a @ raw, r)) (scan_string t)"
proof (cases a rule: escape_byte_cases)
  case (two e)
  from two(2) have "scan_string (backslash # e # t) = map_option (\<lambda>(raw, r). (backslash # e # raw, r)) (scan_string t)"
    by (subst scan_string.simps(2), simp, elim disjE) simp_all
  with two show ?thesis by simp
next
  case six
  have n: "(of_char a :: nat) < 256" using assms by (simp add: byte_in_def)
  have "scan_string (backslash # CHR ''u'' # CHR ''0'' # CHR ''0'' # hex2 (of_char a) @ t) =
      map_option (\<lambda>(raw, r). (backslash # CHR ''u'' # CHR ''0'' # CHR ''0'' # hex2 (of_char a) @ raw, r)) (scan_string t)"
    by (subst scan_string.simps(2)) (simp add: getu4_hex2 [OF n], simp add: hex2_def)
  with six show ?thesis by simp
next
  case one
  then show ?thesis by (simp add: scan_string.simps(2))
qed

lemma scan_appendString:
  "scan_string (appendString s @ t) = map_option (\<lambda>(raw, r). (appendString s @ raw, r)) (scan_string t)"
proof (induction s rule: appendString.induct)
  case (2 a s)
  have comp: "map_option (\<lambda>(raw, r). (u @ raw, r)) (map_option (\<lambda>(raw, r). (v @ raw, r)) x) = map_option (\<lambda>(raw, r). (u @ v @ raw, r)) x"
    for u v :: string and x :: "(string \<times> string) option"
    by (cases x) auto
  have esc: "scan_string (backslash # ''ufffd'' @ u) = map_option (\<lambda>(raw, r). (backslash # ''ufffd'' @ raw, r)) (scan_string u)"
    "scan_string (backslash # ''u2028'' @ u) = map_option (\<lambda>(raw, r). (backslash # ''u2028'' @ raw, r)) (scan_string u)"
    "scan_string (backslash # ''u2029'' @ u) = map_option (\<lambda>(raw, r). (backslash # ''u2029'' @ raw, r)) (scan_string u)" for u
    by (subst scan_string.simps(2), simp add: getu4_def hex_val_def)+
  let ?n = "rune_len (a # s)"
  show ?case
  proof (cases "byte_in 0 0x7F a")
    case True
    with 2 show ?thesis by (simp add: appendString.simps(2) scan_escape comp)
  next
    case False
    have "\<forall>c \<in> set (take ?n (a # s)). 128 \<le> (of_char c :: nat)" using rune_bytes [OF False] by blast
    note plain = scan_plain [OF this]
    show ?thesis
    proof (cases "?n = 0")
      case True
      with False 2(2) show ?thesis unfolding appendString.simps(2) [of a s] using comp [of "backslash # ''ufffd''"] esc(1) by (simp add: Let_def)
    next
      case pos: False
      let ?out = "if take ?n (a # s) = [CHR 0xE2, CHR 0x80, CHR 0xA8] then backslash # ''u2028''
        else if take ?n (a # s) = [CHR 0xE2, CHR 0x80, CHR 0xA9] then backslash # ''u2029'' else take ?n (a # s)"
      have out: "scan_string (?out @ u) = map_option (\<lambda>(raw, r). (?out @ raw, r)) (scan_string u)" for u
        using esc [of u] plain [of u] by simp
      have eq: "appendString (a # s) = ?out @ appendString (drop (?n - 1) s)"
        using False pos unfolding appendString.simps(2) [of a s] by (simp add: Let_def)
      show ?thesis unfolding eq append.assoc out 2(3) [OF False refl pos] comp ..
    qed
  qed
next
  case 1
  show ?case by (cases "scan_string t") auto
qed

lemma scan_quoted: "scan_string (appendString s @ quote # t) = Some (appendString s, t)"
  by (simp add: scan_appendString scan_string.simps(2) [of quote])

lemma scan_string_length: "scan_string s = Some (raw, r) \<Longrightarrow> length r < length s"
proof (induction s arbitrary: raw r rule: scan_string.induct)
  case (2 c s)
  then show ?case
    by (simp add: scan_string.simps(2) [of c s] split: if_splits list.splits prod.splits option.splits) (force dest: less_trans)+
qed simp

section \<open>Tokens\<close>

datatype token = TObj | TEndObj | TArr | TEndArr | TColon | TComma | TString string | TNumber string | TTrue | TFalse | TNull

definition is_digit :: "char \<Rightarrow> bool" where
  "is_digit c \<longleftrightarrow> digit_val c \<noteq> None"

definition scan_int :: "string \<Rightarrow> (string \<times> string) option" where
  "scan_int s =
     (case s of
        [] \<Rightarrow> None
      | c # s1 \<Rightarrow>
          if c = CHR ''0'' then Some ([c], s1)
          else if is_digit c then Some (takeWhile is_digit s, dropWhile is_digit s) else None)"

definition scan_frac :: "string \<Rightarrow> (string \<times> string) option" where
  "scan_frac s =
     (case s of
        [] \<Rightarrow> Some ([], [])
      | c # s1 \<Rightarrow>
          if c = CHR ''.'' then
            (let ds = takeWhile is_digit s1 in if ds = [] then None else Some (c # ds, dropWhile is_digit s1))
          else Some ([], s))"

definition scan_exp :: "string \<Rightarrow> (string \<times> string) option" where
  "scan_exp s =
     (case s of
        [] \<Rightarrow> Some ([], [])
      | c # s1 \<Rightarrow>
          if c = CHR ''e'' \<or> c = CHR ''E'' then
            (let (sign, s2) =
               (case s1 of
                  [] \<Rightarrow> ([], [])
                | x # xs \<Rightarrow> if x = CHR ''+'' \<or> x = CHR ''-'' then ([x], xs) else ([], s1));
                 ds = takeWhile is_digit s2
             in if ds = [] then None else Some (c # sign @ ds, dropWhile is_digit s2))
          else Some ([], s))"

definition scan_number :: "string \<Rightarrow> (string \<times> string) option" where
  "scan_number s =
     (let (sign, s0) = (case s of [] \<Rightarrow> ([], []) | c # s1 \<Rightarrow> if c = CHR ''-'' then ([c], s1) else ([], s))
      in case scan_int s0 of
           None \<Rightarrow> None
         | Some (i, s1) \<Rightarrow>
             (case scan_frac s1 of
                None \<Rightarrow> None
              | Some (f, s2) \<Rightarrow>
                  (case scan_exp s2 of None \<Rightarrow> None | Some (e, s3) \<Rightarrow> Some (sign @ i @ f @ e, s3))))"

lemma scan_int_length: "scan_int s = Some (i, r) \<Longrightarrow> length r < length s"
  by (auto simp: scan_int_def intro: le_imp_less_Suc length_dropWhile_le split: list.splits if_splits)

lemma scan_frac_length: "scan_frac s = Some (f, r) \<Longrightarrow> length r \<le> length s"
  by (auto simp: scan_frac_def Let_def intro: le_SucI length_dropWhile_le split: list.splits if_splits)

lemma scan_exp_length: "scan_exp s = Some (e, r) \<Longrightarrow> length r \<le> length s"
  by (auto simp: scan_exp_def Let_def intro: le_SucI length_dropWhile_le split: list.splits if_splits)

lemma scan_number_length: "scan_number s = Some (n, r) \<Longrightarrow> length r < length s"
  using scan_int_length scan_frac_length scan_exp_length
  by (fastforce simp: scan_number_def Let_def split: list.splits if_splits option.splits)

abbreviation json_space :: "char \<Rightarrow> bool" where
  "json_space c \<equiv> c = CHR '' '' \<or> c = CHR 0x09 \<or> c = CHR 0x0D \<or> c = LF"

definition punctuation :: "char \<Rightarrow> token option" where
  "punctuation c =
     map_of [(CHR ''{'', TObj), (CHR ''}'', TEndObj), (CHR ''['', TArr), (CHR '']'', TEndArr), (CHR '':'', TColon), (CHR '','', TComma)] c"

function tokenize :: "string \<Rightarrow> token list option" where
  "tokenize [] = Some []"
| "tokenize (c # s) =
     (if json_space c then tokenize s
      else case punctuation c of
        Some t \<Rightarrow> map_option ((#) t) (tokenize s)
      | None \<Rightarrow>
          if c = quote then
            (case scan_string s of None \<Rightarrow> None | Some (raw, r) \<Rightarrow> map_option ((#) (TString raw)) (tokenize r))
          else if take 4 (c # s) = ''true'' then map_option ((#) TTrue) (tokenize (drop 3 s))
          else if take 5 (c # s) = ''false'' then map_option ((#) TFalse) (tokenize (drop 4 s))
          else if take 4 (c # s) = ''null'' then map_option ((#) TNull) (tokenize (drop 3 s))
          else (case scan_number (c # s) of None \<Rightarrow> None | Some (n, r) \<Rightarrow> map_option ((#) (TNumber n)) (tokenize r)))"
  by pat_completeness auto
termination tokenize
  by (relation "measure length") (auto dest: scan_string_length scan_number_length)

declare tokenize.simps(2) [simp del]

section \<open>Documents\<close>

datatype json = JNull | JBool bool | JNumber string | JString string | JArray "json list" | JObject "(string \<times> json) list"

text \<open>The open arrays and objects around the current value, innermost first: the items so far, or the members so
  far and the current key.\<close>

datatype frame = FArr "json list" | FObj "(string \<times> json) list" string

datatype pstate =
    WantValue "frame list" | WantFirst "frame list" | WantFirstKey "frame list"
  | WantKey "(string \<times> json) list" "frame list" | WantColon "(string \<times> json) list" string "frame list"
  | AfterItem "json list" "frame list" | AfterMember "(string \<times> json) list" "frame list"
  | Accept json

definition complete :: "json \<Rightarrow> frame list \<Rightarrow> pstate" where
  "complete v fs =
     (case fs of
        [] \<Rightarrow> Accept v
      | FArr vs # fs' \<Rightarrow> AfterItem (vs @ [v]) fs'
      | FObj ms k # fs' \<Rightarrow> AfterMember (ms @ [(k, v)]) fs')"

definition maxNestingDepth :: nat where "maxNestingDepth = 10000"

definition begin_value :: "token \<Rightarrow> frame list \<Rightarrow> pstate option" where
  "begin_value t fs =
     (case t of
        TObj \<Rightarrow> if length fs < maxNestingDepth then Some (WantFirstKey fs) else None
      | TArr \<Rightarrow> if length fs < maxNestingDepth then Some (WantFirst fs) else None
      | TString s \<Rightarrow> Some (complete (JString s) fs)
      | TNumber n \<Rightarrow> Some (complete (JNumber n) fs)
      | TTrue \<Rightarrow> Some (complete (JBool True) fs)
      | TFalse \<Rightarrow> Some (complete (JBool False) fs)
      | TNull \<Rightarrow> Some (complete JNull fs)
      | _ \<Rightarrow> None)"

definition step :: "pstate \<Rightarrow> token \<Rightarrow> pstate option" where
  "step st t =
     (case st of
        WantValue fs \<Rightarrow> begin_value t fs
      | WantFirst fs \<Rightarrow> if t = TEndArr then Some (complete (JArray []) fs) else begin_value t (FArr [] # fs)
      | WantFirstKey fs \<Rightarrow>
          (case t of TEndObj \<Rightarrow> Some (complete (JObject []) fs) | TString k \<Rightarrow> Some (WantColon [] k fs) | _ \<Rightarrow> None)
      | WantKey ms fs \<Rightarrow> (case t of TString k \<Rightarrow> Some (WantColon ms k fs) | _ \<Rightarrow> None)
      | WantColon ms k fs \<Rightarrow> if t = TColon then Some (WantValue (FObj ms k # fs)) else None
      | AfterItem vs fs \<Rightarrow>
          if t = TComma then Some (WantValue (FArr vs # fs))
          else if t = TEndArr then Some (complete (JArray vs) fs) else None
      | AfterMember ms fs \<Rightarrow>
          if t = TComma then Some (WantKey ms fs)
          else if t = TEndObj then Some (complete (JObject ms) fs) else None
      | Accept v \<Rightarrow> None)"

fun run_tokens :: "pstate \<Rightarrow> token list \<Rightarrow> pstate option" where
  "run_tokens st [] = Some st"
| "run_tokens st (t # ts) = (case step st t of None \<Rightarrow> None | Some st' \<Rightarrow> run_tokens st' ts)"

definition parse_json :: "string \<Rightarrow> json option" where
  "parse_json s =
     (case tokenize s of
        None \<Rightarrow> None
      | Some ts \<Rightarrow> (case run_tokens (WantValue []) ts of Some (Accept v) \<Rightarrow> Some v | _ \<Rightarrow> None))"

section \<open>Printing\<close>

definition json_string :: "string \<Rightarrow> string" where
  "json_string s = quote # appendString s @ [quote]"

text \<open>A struct: its fields with their names, in the order of the declaration.\<close>

fun json_fields :: "(string \<times> string) list \<Rightarrow> string" where
  "json_fields [] = []"
| "json_fields [(k, v)] = json_string k @ CHR '':'' # v"
| "json_fields ((k, v) # kv # fields) = json_string k @ CHR '':'' # v @ CHR '','' # json_fields (kv # fields)"

definition json_struct :: "(string \<times> string) list \<Rightarrow> string" where
  "json_struct fields = CHR ''{'' # json_fields fields @ ''}''"

subsection \<open>Printed documents are read back\<close>

text \<open>\<open>s\<close> is a text of the value \<open>v\<close>, wherever it stands: the end of the document or a comma or a closing brace
  follows it, and at most \<open>maxNestingDepth - d\<close> arrays and objects are around it.\<close>

definition ends_value :: "string \<Rightarrow> bool" where
  "ends_value s \<longleftrightarrow> s = [] \<or> hd s = CHR '','' \<or> hd s = CHR ''}''"

definition lexes :: "string \<Rightarrow> token list \<Rightarrow> bool" where
  "lexes s ts \<longleftrightarrow> (\<forall>r. ends_value r \<longrightarrow> tokenize (s @ r) = map_option ((@) ts) (tokenize r))"

definition reads :: "nat \<Rightarrow> token list \<Rightarrow> json \<Rightarrow> bool" where
  "reads d ts v \<longleftrightarrow>
     (\<forall>fs r. length fs + d \<le> maxNestingDepth \<longrightarrow> run_tokens (WantValue fs) (ts @ r) = run_tokens (complete v fs) r)"

definition denotes :: "nat \<Rightarrow> string \<Rightarrow> json \<Rightarrow> bool" where
  "denotes d s v \<longleftrightarrow> (\<exists>ts. lexes s ts \<and> reads d ts v)"

lemma parse_denotes: "denotes d s v \<Longrightarrow> d \<le> maxNestingDepth \<Longrightarrow> parse_json s = Some v"
proof -
  assume "denotes d s v" "d \<le> maxNestingDepth"
  then obtain ts where ts: "lexes s ts" "reads d ts v" by (auto simp: denotes_def)
  have "tokenize s = Some ts" using ts(1) [unfolded lexes_def, rule_format, of "[]"] by (simp add: ends_value_def)
  moreover have "run_tokens (WantValue []) ts = Some (Accept v)"
    using ts(2) [unfolded reads_def, rule_format, of "[]" "[]"] \<open>d \<le> maxNestingDepth\<close> by (simp add: complete_def)
  ultimately show ?thesis by (simp add: parse_json_def)
qed

lemma denotes_mono: "denotes d s v \<Longrightarrow> d \<le> d' \<Longrightarrow> denotes d' s v"
  unfolding denotes_def reads_def by (meson add_left_mono order_trans)

lemma lex_string: "tokenize (json_string s @ r) = map_option ((#) (TString (appendString s))) (tokenize r)"
  unfolding json_string_def by (simp add: tokenize.simps(2) [of quote] punctuation_def scan_quoted)

lemma lex_punctuation: "punctuation c = Some t \<Longrightarrow> tokenize (c # r) = map_option ((#) t) (tokenize r)"
  by (auto simp: tokenize.simps(2) [of c] punctuation_def split: if_splits)

lemma append_one: "(@) [x] = (#) x"
  by (simp add: fun_eq_iff)

lemma denotes_string: "denotes 0 (json_string s) (JString (appendString s))"
  unfolding denotes_def lexes_def reads_def
  by (intro exI [of _ "[TString (appendString s)]"] conjI allI impI) (simp_all add: append_one lex_string step_def begin_value_def)

lemma denotes_null: "denotes 0 ''null'' JNull"
  unfolding denotes_def lexes_def reads_def
  by (intro exI [of _ "[TNull]"] conjI allI impI) (simp_all add: tokenize.simps(2) [of "CHR ''n''"] append_one punctuation_def step_def begin_value_def)

lemma is_digit_show: "c \<in> set (show_nat n) \<Longrightarrow> is_digit c"
  using show_nat_digits by (simp add: is_digit_def)

lemma show_nat_hd: "show_nat n = c # s \<Longrightarrow> c = CHR ''0'' \<longleftrightarrow> n = 0"
proof (induction n arbitrary: s rule: show_nat.induct)
  case (1 n)
  show ?case
  proof (cases "n < 10")
    case True
    then have "c = char_of (48 + n)" using "1.prems" by (subst (asm) show_nat.simps) simp
    then show ?thesis using True by (simp add: of_char_eq_iff [where 'a = nat, symmetric] del: of_char_eq_iff)
  next
    case False
    then obtain s' where "show_nat (n div 10) = c # s'"
      using "1.prems" by (subst (asm) show_nat.simps) (auto simp: append_eq_Cons_conv)
    then show ?thesis using "1.IH" False by (auto simp: div_eq_0_iff)
  qed
qed

lemma ends_value_number: "ends_value r \<Longrightarrow> dropWhile is_digit r = r \<and> takeWhile is_digit r = [] \<and> scan_frac r = Some ([], r) \<and> scan_exp r = Some ([], r)"
  by (cases r) (auto simp: ends_value_def scan_frac_def scan_exp_def is_digit_def digit_val_def)

lemma scan_int_show:
  assumes "ends_value r"
  shows "scan_int (show_nat n @ r) = Some (show_nat n, r)"
proof (cases "show_nat n")
  case (Cons c s)
  note hd = show_nat_hd [OF Cons] and digits = is_digit_show [of _ n]
  have all: "takeWhile is_digit (show_nat n @ r) = show_nat n" "dropWhile is_digit (show_nat n @ r) = r"
    using digits ends_value_number [OF assms] by (simp_all add: takeWhile_append2 dropWhile_append2)
  show ?thesis
  proof (cases "n = 0")
    case True
    then show ?thesis by (simp add: scan_int_def show_nat.simps of_char_eq_iff [where 'a = nat, symmetric] del: of_char_eq_iff)
  next
    case False
    then show ?thesis using hd digits all Cons by (simp add: scan_int_def)
  qed
qed simp

lemma scan_number_show: "ends_value r \<Longrightarrow> scan_number (show_int i @ r) = Some (show_int i, r)"
proof -
  assume r: "ends_value r"
  have "scan_number (show_nat n @ r) = Some (show_nat n, r)" for n
  proof (cases "show_nat n")
    case (Cons c s)
    then have "c \<noteq> CHR ''-''" using show_nat_no_sign [of c n] by simp
    with Cons scan_int_show [OF r, of n] ends_value_number [OF r] show ?thesis by (simp add: scan_number_def Let_def)
  qed simp
  then show ?thesis using scan_int_show [OF r] ends_value_number [OF r] by (simp add: show_int_def scan_number_def Let_def)
qed

lemma lex_number: "ends_value r \<Longrightarrow> tokenize (show_int i @ r) = map_option ((#) (TNumber (show_int i))) (tokenize r)"
proof (cases "show_int i")
  case (Cons c s)
  assume r: "ends_value r"
  have c: "is_digit c \<or> c = CHR ''-''"
    using Cons is_digit_show [of c "nat i"] by (cases "i < 0") (auto simp: show_int_def)
  then have "\<not> json_space c" "punctuation c = None" "c \<noteq> quote" "c \<notin> {CHR ''t'', CHR ''f'', CHR ''n''}"
    by (auto simp: is_digit_def digit_val_def punctuation_def)
  with scan_number_show [OF r, of i] Cons show ?thesis by (simp add: tokenize.simps(2) [of c])
qed (simp add: show_int_def split: if_splits)

lemma denotes_int: "denotes 0 (show_int i) (JNumber (show_int i))"
  unfolding denotes_def lexes_def reads_def
  by (intro exI [of _ "[TNumber (show_int i)]"] conjI allI impI) (simp_all add: append_one lex_number step_def begin_value_def)

fun field_tokens :: "(string \<times> token list) list \<Rightarrow> token list" where
  "field_tokens [] = []"
| "field_tokens [(k, ts)] = TString (appendString k) # TColon # ts"
| "field_tokens ((k, ts) # kv # fields) = TString (appendString k) # TColon # ts @ TComma # field_tokens (kv # fields)"

lemma lexes_fields:
  assumes "\<forall>(k, s, ts) \<in> set fields. lexes s ts" and "ends_value r"
  shows "tokenize (json_fields (map (\<lambda>(k, s, ts). (k, s)) fields) @ r) =
    map_option ((@) (field_tokens (map (\<lambda>(k, s, ts). (k, ts)) fields))) (tokenize r)"
  using assms
proof (induction fields rule: induct_list012)
  case 1
  then show ?case by (cases "tokenize r") simp_all
next
  case (2 x)
  obtain k s ts where x: "x = (k, s, ts)" by (cases x)
  with 2 have "tokenize (s @ r) = map_option ((@) ts) (tokenize r)" by (simp add: lexes_def)
  then show ?case by (simp add: x lex_string lex_punctuation punctuation_def option.map_comp comp_def)
next
  case (3 x y zs)
  obtain k s ts where x: "x = (k, s, ts)" by (cases x)
  obtain k' s' ts' where y: "y = (k', s', ts')" by (cases y)
  have "tokenize (s @ CHR '','' # u) = map_option ((@) ts) (tokenize (CHR '','' # u))" for u
    using 3 x by (simp add: lexes_def ends_value_def)
  with 3 show ?case by (simp add: x y lex_string lex_punctuation punctuation_def option.map_comp comp_def)
qed

lemma complete_member: "complete v (FObj ms k # fs) = AfterMember (ms @ [(k, v)]) fs"
  by (simp add: complete_def)

lemma reads_fields:
  assumes "\<forall>(k, ts, v) \<in> set fields. reads d ts v" and "fields \<noteq> []" and "length fs + Suc d \<le> maxNestingDepth"
  shows "run_tokens (WantKey ms fs) (field_tokens (map (\<lambda>(k, ts, v). (k, ts)) fields) @ TEndObj # r) =
    run_tokens (complete (JObject (ms @ map (\<lambda>(k, ts, v). (appendString k, v)) fields)) fs) r"
  using assms
proof (induction fields arbitrary: ms rule: induct_list012)
  case (2 x)
  obtain k ts v where x: "x = (k, ts, v)" by (cases x)
  with 2 have "run_tokens (WantValue (FObj ms (appendString k) # fs)) (ts @ u) = run_tokens (complete v (FObj ms (appendString k) # fs)) u" for u
    by (simp add: reads_def)
  then show ?case by (simp add: x step_def complete_member)
next
  case (3 x y zs)
  obtain k ts v where x: "x = (k, ts, v)" by (cases x)
  obtain k' ts' v' where y: "y = (k', ts', v')" by (cases y)
  have "run_tokens (WantValue (FObj ms (appendString k) # fs)) (ts @ u) = run_tokens (complete v (FObj ms (appendString k) # fs)) u" for u
    using 3(3,5) x by (simp add: reads_def)
  with 3 show ?case by (simp add: x y step_def complete_member)
qed simp

lemma denotes_struct:
  assumes "\<forall>(k, s, v) \<in> set fields. denotes d s v" and "fields \<noteq> []"
  shows "denotes (Suc d) (json_struct (map (\<lambda>(k, s, v). (k, s)) fields)) (JObject (map (\<lambda>(k, s, v). (appendString k, v)) fields))"
proof -
  have "\<forall>x \<in> set fields. \<exists>ts. lexes (fst (snd x)) ts \<and> reads d ts (snd (snd x))"
    using assms(1) by (fastforce simp: denotes_def)
  then obtain T where T: "\<forall>x \<in> set fields. lexes (fst (snd x)) (T x) \<and> reads d (T x) (snd (snd x))" by metis
  let ?A = "map (\<lambda>x. (fst x, fst (snd x), T x)) fields" and ?B = "map (\<lambda>x. (fst x, T x, snd (snd x))) fields"
  let ?ts = "field_tokens (map (\<lambda>x. (fst x, T x)) fields)"
  have lex: "tokenize (json_fields (map (\<lambda>(k, s, v). (k, s)) fields) @ r) = map_option ((@) ?ts) (tokenize r)" if "ends_value r" for r
    using lexes_fields [of ?A, OF _ that] T by (simp add: split_def comp_def)
  have run: "run_tokens (WantKey [] fs) (?ts @ TEndObj # r) =
      run_tokens (complete (JObject (map (\<lambda>(k, s, v). (appendString k, v)) fields)) fs) r" if "length fs + Suc d \<le> maxNestingDepth" for fs r
    using reads_fields [of ?B d fs "[]" r] T assms(2) that by (simp add: split_def comp_def)
  have first: "run_tokens (WantFirstKey fs) (?ts @ u) = run_tokens (WantKey [] fs) (?ts @ u)" for fs u
    using assms(2) by (cases fields; cases "tl fields") (simp_all add: step_def)
  have "lexes (json_struct (map (\<lambda>(k, s, v). (k, s)) fields)) (TObj # ?ts @ [TEndObj])"
    unfolding lexes_def json_struct_def
  proof (intro allI impI)
    fix r
    show "tokenize ((CHR ''{'' # json_fields (map (\<lambda>(k, s, v). (k, s)) fields) @ ''}'') @ r) =
        map_option ((@) (TObj # ?ts @ [TEndObj])) (tokenize r)"
      using lex [of "CHR ''}'' # r"] by (cases "tokenize r") (simp_all add: lex_punctuation punctuation_def ends_value_def)
  qed
  moreover have "reads (Suc d) (TObj # ?ts @ [TEndObj]) (JObject (map (\<lambda>(k, s, v). (appendString k, v)) fields))"
    unfolding reads_def using run first by (simp add: step_def begin_value_def)
  ultimately show ?thesis unfolding denotes_def by blast
qed

section \<open>Decoding\<close>

text \<open>A decoder turns a document and the current value of a variable into its new value. \<open>null\<close> leaves strings,
  numbers and structs as they are. All errors are one: the callers only ask whether there is one.\<close>

definition json_error :: go_error where
  "json_error = ErrNew ''json: cannot unmarshal''"

definition decode_string :: "json \<Rightarrow> string \<Rightarrow> go_error + string" where
  "decode_string v cur = (case v of JNull \<Rightarrow> Inr cur | JString raw \<Rightarrow> Inr (unquote raw) | _ \<Rightarrow> Inl json_error)"

definition decode_int :: "json \<Rightarrow> i64 \<Rightarrow> go_error + i64" where
  "decode_int v cur =
     (case v of
        JNull \<Rightarrow> Inr cur
      | JNumber n \<Rightarrow> (case ParseInt n of None \<Rightarrow> Inl json_error | Some i \<Rightarrow> Inr i)
      | _ \<Rightarrow> Inl json_error)"

text \<open>The names of fields match without regard to case. The two runes outside ASCII that fold to a letter, the
  long s and the Kelvin sign, count as that letter.\<close>

fun fold_name :: "string \<Rightarrow> string" where
  "fold_name (a # b # c # s) =
     (if [a, b, c] = [CHR 0xE2, CHR 0x84, CHR 0xAA] then CHR ''K'' # fold_name s
      else if [a, b] = [CHR 0xC5, CHR 0xBF] then CHR ''S'' # fold_name (c # s)
      else ascii_upper a # fold_name (b # c # s))"
| "fold_name [a, b] = (if [a, b] = [CHR 0xC5, CHR 0xBF] then ''S'' else [ascii_upper a, ascii_upper b])"
| "fold_name [a] = [ascii_upper a]"
| "fold_name [] = []"

definition same_name :: "string \<Rightarrow> string \<Rightarrow> bool" where
  "same_name key name \<longleftrightarrow> fold_name (unquote key) = fold_name name"

text \<open>The members of an object, one after another; \<open>field\<close> decodes the member with a given name.\<close>

fun decode_members :: "(string \<Rightarrow> json \<Rightarrow> 'a \<Rightarrow> go_error + 'a) \<Rightarrow> (string \<times> json) list \<Rightarrow> 'a \<Rightarrow> go_error + 'a" where
  "decode_members field [] cur = Inr cur"
| "decode_members field ((k, v) # ms) cur =
     (case field k v cur of Inl err \<Rightarrow> Inl err | Inr cur' \<Rightarrow> decode_members field ms cur')"

definition decode_struct :: "(string \<Rightarrow> json \<Rightarrow> 'a \<Rightarrow> go_error + 'a) \<Rightarrow> json \<Rightarrow> 'a \<Rightarrow> go_error + 'a" where
  "decode_struct field v cur =
     (case v of JNull \<Rightarrow> Inr cur | JObject ms \<Rightarrow> decode_members field ms cur | _ \<Rightarrow> Inl json_error)"

definition map_result :: "('a \<Rightarrow> 'b) \<Rightarrow> go_error + 'a \<Rightarrow> go_error + 'b" where
  "map_result f r = (case r of Inl err \<Rightarrow> Inl err | Inr a \<Rightarrow> Inr (f a))"

lemma map_result_simps [simp]: "map_result f (Inl err) = Inl err" "map_result f (Inr a) = Inr (f a)"
  by (simp_all add: map_result_def)

lemma decode_string_printed: "utf8_valid s \<Longrightarrow> decode_string (JString (appendString s)) cur = Inr s"
  using unquote_appendString [of s "[]"] by (simp add: decode_string_def)

lemma decode_int_printed: "decode_int (JNumber (show_int (sint n))) cur = Inr n"
  by (simp add: decode_int_def ParseInt_show_int)

lemma decode_string_valid: "decode_string v cur = Inr s \<Longrightarrow> utf8_valid cur \<Longrightarrow> utf8_valid s"
  by (auto simp: decode_string_def unquote_valid split: json.splits)

end
