(* ===== verification/Rfc3339.thy ===== *)
theory Rfc3339
  imports Json
begin

text \<open>
  The text of a \<open>time.Time\<close>: \<open>Format(time.RFC3339Nano)\<close>, \<open>MarshalJSON\<close> and \<open>UnmarshalJSON\<close>. An instant is printed
  in a time zone, given as its offset from UTC in seconds.
\<close>

section \<open>The calendar\<close>

definition leap :: "int \<Rightarrow> bool" where
  "leap y \<longleftrightarrow> y mod 4 = 0 \<and> (y mod 100 \<noteq> 0 \<or> y mod 400 = 0)"

text \<open>The days from 1 January of year 0 to 1 January of year \<open>y\<close>.\<close>

definition days_before_year :: "int \<Rightarrow> int" where
  "days_before_year y = 365 * y + (y + 3) div 4 - (y + 99) div 100 + (y + 399) div 400"

definition days_in :: "int \<Rightarrow> int \<Rightarrow> int" where
  "days_in y m = (if m = 2 then (if leap y then 29 else 28) else if m \<in> {4, 6, 9, 11} then 30 else 31)"

fun days_before_month :: "int \<Rightarrow> nat \<Rightarrow> int" where
  "days_before_month y 0 = 0"
| "days_before_month y (Suc m) = days_before_month y m + days_in y (int m + 1)"

text \<open>The day with number \<open>n\<close> counted from 1 January of year 0, and back.\<close>

definition year_of :: "int \<Rightarrow> int" where
  "year_of n =
     (let y = 400 * n div 146097
      in if n < days_before_year y then y - 1 else if days_before_year (y + 1) \<le> n then y + 1 else y)"

fun month_of :: "int \<Rightarrow> int list \<Rightarrow> int \<Rightarrow> int \<times> int" where
  "month_of y [] d = (12, d + 1)"
| "month_of y (m # ms) d = (if d < days_in y m then (m, d + 1) else month_of y ms (d - days_in y m))"

definition date_of :: "int \<Rightarrow> int \<times> int \<times> int" where
  "date_of n = (let y = year_of n; (m, d) = month_of y (map int [1..<13]) (n - days_before_year y) in (y, m, d))"

definition day_number :: "int \<Rightarrow> int \<Rightarrow> int \<Rightarrow> int" where
  "day_number y m d = days_before_year y + days_before_month y (nat (m - 1)) + d - 1"

text \<open>Division rounded up.\<close>

definition cdiv :: "int \<Rightarrow> int \<Rightarrow> int" where
  "cdiv m y = (y + (m - 1)) div m"

lemma days_before_year_cdiv: "days_before_year y = 365 * y + cdiv 4 y - cdiv 100 y + cdiv 400 y"
  by (simp add: days_before_year_def cdiv_def)

lemma cdiv_bounds:
  assumes "0 < m"
  shows "y \<le> m * cdiv m y" "m * cdiv m y \<le> y + (m - 1)"
proof -
  define z where "z = y + (m - 1)"
  have "m * (z div m) = z - z mod m" "0 \<le> z mod m" "z mod m < m" using assms by (simp_all add: minus_mod_eq_mult_div)
  then show "y \<le> m * cdiv m y" "m * cdiv m y \<le> y + (m - 1)" unfolding cdiv_def z_def by linarith+
qed

lemma cdiv_step:
  assumes "0 < m"
  shows "cdiv m (y + 1) = cdiv m y + (if y mod m = 0 then 1 else 0)"
proof -
  let ?r = "y mod m" and ?q = "y div m"
  have r: "0 \<le> ?r" "?r < m" "y = ?q * m + ?r" using assms by simp_all
  have up: "cdiv m (?q * m + x) = ?q + cdiv m x" for x
    using assms div_mult_self1 [of m "x + (m - 1)" ?q] by (simp add: cdiv_def algebra_simps)
  have one: "cdiv m x = 1" if "1 \<le> x" "x \<le> m" for x
    using that div_add_self2 [of m "x - 1"] div_pos_pos_trivial [of "x - 1" m] by (simp add: cdiv_def algebra_simps)
  have zero: "cdiv m 0 = 0" using assms by (simp add: cdiv_def div_pos_pos_trivial)
  have "cdiv m (y + 1) = ?q + 1" using up [of "?r + 1"] one [of "?r + 1"] r by (simp add: add.assoc)
  moreover have "cdiv m y = ?q + (if ?r = 0 then 0 else 1)" using up [of ?r] one [of ?r] zero r by simp
  ultimately show ?thesis by simp
qed

lemma days_before_Suc: "days_before_year (y + 1) = days_before_year y + (if leap y then 366 else 365)"
proof -
  have d: "4 dvd (100 :: int)" "100 dvd (400 :: int)" by simp_all
  have m: "y mod 100 = 0 \<Longrightarrow> y mod 4 = 0" "y mod 400 = 0 \<Longrightarrow> y mod 100 = 0"
    unfolding dvd_eq_mod_eq_0 [symmetric] using dvd_trans [OF d(1)] dvd_trans [OF d(2)] by blast+
  define A B C where "A \<longleftrightarrow> y mod 4 = 0" and "B \<longleftrightarrow> y mod 100 = 0" and "C \<longleftrightarrow> y mod 400 = 0"
  have "leap y \<longleftrightarrow> A \<and> (\<not> B \<or> C)" "B \<Longrightarrow> A" "C \<Longrightarrow> B" using m by (simp_all add: leap_def A_def B_def C_def)
  moreover have "cdiv 4 (y + 1) = cdiv 4 y + (if A then 1 else 0)" "cdiv 100 (y + 1) = cdiv 100 y + (if B then 1 else 0)"
    "cdiv 400 (y + 1) = cdiv 400 y + (if C then 1 else 0)"
    unfolding A_def B_def C_def by (rule cdiv_step, simp)+
  ultimately show ?thesis unfolding days_before_year_cdiv by (cases A; cases B; cases C) simp_all
qed

lemma days_in_pos: "28 \<le> days_in y m"
  by (simp add: days_in_def)

lemma days_in_year: "days_before_month y 12 = (if leap y then 366 else 365)"
  by (simp add: days_in_def numeral_eq_Suc)

lemma month_of_spec:
  assumes "month_of y (map int [Suc k..<13]) z = (m, d)" and "0 \<le> z" and "z < days_before_month y 12 - days_before_month y k" and "k < 12"
  shows "1 \<le> m \<and> m \<le> 12 \<and> 1 \<le> d \<and> d \<le> days_in y m \<and> days_before_month y (nat (m - 1)) + d - 1 = days_before_month y k + z"
  using assms
proof (induction "12 - k" arbitrary: k z)
  case (Suc j)
  have upt: "[Suc k..<13] = Suc k # [Suc (Suc k)..<13]" using Suc.prems(4) by (simp add: upt_rec)
  show ?case
  proof (cases "z < days_in y (int (Suc k))")
    case True
    then show ?thesis using Suc.prems unfolding upt by auto
  next
    case False
    then have md: "month_of y (map int [Suc (Suc k)..<13]) (z - days_in y (int (Suc k))) = (m, d)"
      using Suc.prems(1) unfolding upt by simp
    have suc: "days_before_month y (Suc k) = days_before_month y k + days_in y (int (Suc k))" by (simp add: add.commute)
    show ?thesis
    proof (cases "Suc k < 12")
      case True
      with Suc.hyps(1) [of "Suc k", OF _ md] Suc.hyps(2) Suc.prems False suc show ?thesis by simp
    next
      case False
      then have "k = 11" using Suc.prems(4) by simp
      with suc Suc.prems(3) \<open>\<not> z < days_in y (int (Suc k))\<close> show ?thesis by simp
    qed
  qed
qed simp

lemma year_of_bounds: "days_before_year (year_of n) \<le> n \<and> n < days_before_year (year_of n + 1)"
proof -
  define y where "y = 400 * n div 146097"
  have "146097 * y = 400 * n - 400 * n mod 146097" "0 \<le> 400 * n mod 146097" "400 * n mod 146097 < 146097"
    unfolding y_def by (simp_all add: minus_mod_eq_mult_div)
  then have b: "146097 * y \<le> 400 * n" "400 * n < 146097 * y + 146097" by linarith+
  have e: "400 * days_before_year y \<le> 146097 * y + 1200 \<and> 146097 * y - 1200 \<le> 400 * days_before_year y" for y
  proof -
    define a b c where "a = cdiv 4 y" and "b = cdiv 100 y" and "c = cdiv 400 y"
    have "y \<le> 4 * a" "4 * a \<le> y + 3" "y \<le> 100 * b" "100 * b \<le> y + 99" "y \<le> 400 * c" "400 * c \<le> y + 399"
      unfolding a_def b_def c_def
      using cdiv_bounds [of 4 y, simplified] cdiv_bounds [of 100 y, simplified] cdiv_bounds [of 400 y, simplified] by blast+
    moreover have "days_before_year y = 365 * y + a - b + c" by (simp add: days_before_year_cdiv a_def b_def c_def)
    ultimately show ?thesis by linarith
  qed
  have lin: "400 * p \<le> z - 144897 \<Longrightarrow> z \<le> 400 * n \<Longrightarrow> p \<le> n" "z + 290994 \<le> 400 * p \<Longrightarrow> 400 * n < z + 146097 \<Longrightarrow> n < p" for p z
    by linarith+
  have "p \<le> n" if "400 * p \<le> 146097 * (y - 1) + 1200" for p using lin(1) [of p "146097 * y"] that b(1) by simp
  moreover have "n < p" if "146097 * (y + 1 + 1) - 1200 \<le> 400 * p" for p using lin(2) [of "146097 * y" p] that b(2) by simp
  ultimately have "days_before_year (y - 1) \<le> n" "n < days_before_year (y + 1 + 1)" using e by blast+
  then show ?thesis unfolding year_of_def y_def [symmetric] Let_def by simp
qed

lemma date_of_spec:
  assumes "date_of n = (y, m, d)"
  shows "day_number y m d = n" "1 \<le> m" "m \<le> 12" "1 \<le> d" "d \<le> days_in y m" "y = year_of n"
proof -
  define z where "z = n - days_before_year y"
  have y: "y = year_of n" and md: "(m, d) = month_of y (map int [1..<13]) z"
    using assms by (auto simp: date_of_def Let_def z_def split: prod.splits)
  have z: "0 \<le> z" "z < (if leap y then 366 else 365)"
    using year_of_bounds [of n] days_before_Suc [of y] unfolding z_def y by linarith+
  have "1 \<le> m \<and> m \<le> 12 \<and> 1 \<le> d \<and> d \<le> days_in y m \<and> days_before_month y (nat (m - 1)) + d - 1 = z"
    using month_of_spec [of y 0 z m d] md z days_in_year [of y] by (simp split: if_splits)
  then show "day_number y m d = n" "1 \<le> m" "m \<le> 12" "1 \<le> d" "d \<le> days_in y m" by (simp_all add: day_number_def z_def)
  show "y = year_of n" by (rule y)
qed

section \<open>Printing\<close>

text \<open>A number with leading zeros.\<close>

fun pad :: "nat \<Rightarrow> nat \<Rightarrow> string" where
  "pad 0 n = []"
| "pad (Suc k) n = pad k (n div 10) @ [char_of (48 + n mod 10)]"

definition trim_zeros :: "string \<Rightarrow> string" where
  "trim_zeros s = rev (dropWhile (\<lambda>c. c = CHR ''0'') (rev s))"

definition frac_text :: "nat \<Rightarrow> string" where
  "frac_text ns = (if ns = 0 then [] else CHR ''.'' # trim_zeros (pad 9 ns))"

definition zone_text :: "int \<Rightarrow> string" where
  "zone_text off =
     (let z = nat \<bar>off\<bar> div 60
      in if off = 0 then ''Z''
         else (if off \<le> - 60 then CHR ''-'' else CHR ''+'') # pad 2 (z div 60) @ CHR '':'' # pad 2 (z mod 60))"

definition clock_of :: "nat \<Rightarrow> string" where
  "clock_of sod = pad 2 (sod div 3600) @ CHR '':'' # pad 2 (sod div 60 mod 60) @ CHR '':'' # pad 2 (sod mod 60)"

text \<open>The days from 1 January of year 0 to the Unix epoch.\<close>

definition epoch :: int where "epoch = 719528"

definition year_text :: "int \<Rightarrow> string" where
  "year_text y = (if y < 0 then ''-'' else []) @ (if \<bar>y\<bar> < 10000 then pad 4 (nat \<bar>y\<bar>) else show_nat (nat \<bar>y\<bar>))"

text \<open>\<open>Format(time.RFC3339Nano)\<close>.\<close>

definition RFC3339Nano :: "int \<Rightarrow> instant \<Rightarrow> string" where
  "RFC3339Nano off t =
     (let secs = t div 1000000000 + off; (y, m, d) = date_of (secs div 86400 + epoch)
      in year_text y @ CHR ''-'' # pad 2 (nat m) @ CHR ''-'' # pad 2 (nat d) @ CHR ''T'' #
           clock_of (nat (secs mod 86400)) @ frac_text (nat (t mod 1000000000)) @ zone_text off)"

text \<open>\<open>MarshalJSON\<close>: an error outside the years 0 to 9999 and for a zone a day or more away from UTC.\<close>

definition format_time :: "int \<Rightarrow> instant \<Rightarrow> string option" where
  "format_time off t =
     (let y = fst (date_of ((t div 1000000000 + off) div 86400 + epoch))
      in if y < 0 \<or> 9999 < y \<or> 24 \<le> nat \<bar>off\<bar> div 3600 then None else Some (RFC3339Nano off t))"

section \<open>Reading\<close>

definition num :: "string \<Rightarrow> nat \<Rightarrow> nat \<Rightarrow> nat option" where
  "num s lo hi =
     (case parse_digits 0 s of None \<Rightarrow> None | Some n \<Rightarrow> if lo \<le> n \<and> n \<le> hi then Some n else None)"

definition read_frac :: "string \<Rightarrow> nat \<times> string" where
  "read_frac s =
     (case s of
        c # d # _ \<Rightarrow>
          if c = CHR ''.'' \<and> is_digit d then
            (let ds = takeWhile is_digit (tl s)
             in (case parse_digits 0 (take 9 (ds @ replicate 9 (CHR ''0''))) of None \<Rightarrow> 0 | Some n \<Rightarrow> n, dropWhile is_digit (tl s)))
          else (0, s)
      | _ \<Rightarrow> (0, s))"

definition read_zone :: "string \<Rightarrow> int option" where
  "read_zone s =
     (if s = ''Z'' then Some 0
      else if length s \<noteq> 6 then None
      else case (num (take 2 (drop 1 s)) 0 23, num (take 2 (drop 4 s)) 0 59) of
             (Some hr, Some mm) \<Rightarrow>
               if (hd s = CHR ''-'' \<or> hd s = CHR ''+'') \<and> s ! 3 = CHR '':''
               then Some ((if hd s = CHR ''-'' then - 1 else 1) * int ((hr * 60 + mm) * 60))
               else None
           | _ \<Rightarrow> None)"

definition read_date :: "string \<Rightarrow> int option" where
  "read_date s =
     (case (num (take 4 s) 0 9999, num (take 2 (drop 5 s)) 1 12) of
        (Some y, Some m) \<Rightarrow>
          (case num (take 2 (drop 8 s)) 1 (nat (days_in (int y) (int m))) of
             None \<Rightarrow> None
           | Some d \<Rightarrow>
               if s ! 4 = CHR ''-'' \<and> s ! 7 = CHR ''-''
               then Some (day_number (int y) (int m) (int d) - epoch) else None)
      | _ \<Rightarrow> None)"

definition read_clock :: "string \<Rightarrow> int option" where
  "read_clock s =
     (case (num (take 2 s) 0 23, num (take 2 (drop 3 s)) 0 59, num (take 2 (drop 6 s)) 0 59) of
        (Some h, Some m, Some sec) \<Rightarrow>
          if s ! 2 = CHR '':'' \<and> s ! 5 = CHR '':'' then Some (int ((h * 60 + m) * 60 + sec)) else None
      | _ \<Rightarrow> None)"

text \<open>\<open>parseStrictRFC3339\<close>.\<close>

definition parse_time :: "string \<Rightarrow> instant option" where
  "parse_time s =
     (if length s < 19 \<or> s ! 10 \<noteq> CHR ''T'' then None
      else let (ns, z) = read_frac (drop 19 s)
           in case (read_date (take 10 s), read_clock (take 8 (drop 11 s)), read_zone z) of
                (Some day, Some clock, Some off) \<Rightarrow> Some ((day * 86400 + clock - off) * 1000000000 + int ns)
              | _ \<Rightarrow> None)"

section \<open>A printed time is read back\<close>

lemma pad_length [simp]: "length (pad k n) = k"
  by (induction k arbitrary: n) simp_all

lemma pad_digits: "c \<in> set (pad k n) \<Longrightarrow> is_digit c"
  by (induction k arbitrary: n) (auto simp: is_digit_def digit_val_digit)

lemma parse_pad: "n < 10 ^ k \<Longrightarrow> parse_digits 0 (pad k n) = Some n"
proof (induction k arbitrary: n)
  case (Suc k)
  have "n div 10 < 10 ^ k" using Suc.prems by (simp add: less_mult_imp_div_less mult.commute)
  from Suc.IH [OF this] show ?case by (simp add: parse_digits_append digit_val_digit)
qed simp

lemma num_pad: "n < 10 ^ k \<Longrightarrow> lo \<le> n \<Longrightarrow> n \<le> hi \<Longrightarrow> num (pad k n) lo hi = Some n"
  by (simp add: num_def parse_pad)

lemma trim_zeros_restore: "trim_zeros s @ replicate (length s - length (trim_zeros s)) (CHR ''0'') = s"
proof -
  let ?P = "\<lambda>c. c = CHR ''0''"
  have "takeWhile ?P (rev s) = replicate (length (takeWhile ?P (rev s))) (CHR ''0'')"
    by (rule replicate_eqI) (auto dest: set_takeWhileD)
  moreover have "length s = length (takeWhile ?P (rev s)) + length (trim_zeros s)"
    unfolding trim_zeros_def by (metis length_append length_rev takeWhile_dropWhile_id)
  moreover have "s = trim_zeros s @ rev (takeWhile ?P (rev s))"
    unfolding trim_zeros_def by (metis rev_append rev_rev_ident takeWhile_dropWhile_id)
  ultimately show ?thesis by (metis add_diff_cancel_right' rev_replicate)
qed

lemma trim_zeros_length: "length (trim_zeros s) \<le> length s"
  using arg_cong [OF trim_zeros_restore [of s], of length] by simp

lemma zone_text_start: "takeWhile is_digit (zone_text off) = [] \<and> dropWhile is_digit (zone_text off) = zone_text off"
  by (simp add: zone_text_def Let_def is_digit_def digit_val_def)

lemma read_frac_text:
  assumes "ns < 10 ^ 9"
  shows "read_frac (frac_text ns @ zone_text off) = (ns, zone_text off)"
proof (cases "ns = 0")
  case True
  then show ?thesis by (simp add: frac_text_def read_frac_def zone_text_def Let_def split: list.split)
next
  case False
  let ?s = "pad 9 ns" and ?t = "trim_zeros (pad 9 ns)"
  have parse: "parse_digits 0 ?s = Some ns" using assms by (rule parse_pad)
  have nonempty: "?t \<noteq> []"
  proof
    assume "?t = []"
    then have "?s = replicate 9 (CHR ''0'')" using trim_zeros_restore [of ?s] by simp
    with parse have "parse_digits 0 (replicate 9 (CHR ''0'')) = Some ns" by simp
    with False show False by (simp add: numeral_eq_Suc digit_val_def)
  qed
  have digits: "is_digit c" if "c \<in> set ?t" for c
    using that trim_zeros_restore [of ?s] pad_digits [of c 9 ns] by (metis UnCI set_append)
  have "take 9 (?t @ replicate 9 (CHR ''0'')) = ?s"
    using trim_zeros_restore [of ?s] trim_zeros_length [of ?s] by simp
  moreover have "takeWhile is_digit (?t @ zone_text off) = ?t" "dropWhile is_digit (?t @ zone_text off) = zone_text off"
    using digits zone_text_start by (simp_all add: takeWhile_append2 dropWhile_append2)
  moreover obtain d r where "?t = d # r" using nonempty by (cases ?t) auto
  ultimately show ?thesis using False parse digits by (simp add: frac_text_def read_frac_def Let_def)
qed

lemma read_zone_text:
  assumes "off mod 60 = 0" and "nat \<bar>off\<bar> div 3600 < 24"
  shows "read_zone (zone_text off) = Some off"
proof (cases "off = 0")
  case True
  then show ?thesis by (simp add: zone_text_def read_zone_def)
next
  case False
  let ?z = "nat \<bar>off\<bar> div 60"
  have z: "?z div 60 < 24" "?z mod 60 < 60" using assms(2) by (simp_all add: div_mult2_eq [symmetric])
  have "num (pad 2 (?z div 60)) 0 23 = Some (?z div 60)" "num (pad 2 (?z mod 60)) 0 59 = Some (?z mod 60)"
    using z by (auto intro!: num_pad)
  moreover have "int ((?z div 60 * 60 + ?z mod 60) * 60) = \<bar>off\<bar>"
  proof -
    have "60 dvd nat \<bar>off\<bar>" using assms(1) by (simp add: mod_eq_0_iff_dvd)
    then show ?thesis by (simp del: of_nat_mult)
  qed
  moreover have "off \<le> - 60 \<longleftrightarrow> off < 0" using assms(1) False by presburger
  ultimately show ?thesis using False by (simp add: zone_text_def read_zone_def Let_def nth_append)
qed

lemma read_date_text:
  assumes "date_of n = (y, m, d)" and "0 \<le> y" and "y \<le> 9999"
  shows "read_date (pad 4 (nat y) @ CHR ''-'' # pad 2 (nat m) @ CHR ''-'' # pad 2 (nat d)) = Some (n - epoch)"
proof -
  note spec = date_of_spec [OF assms(1)]
  have "d \<le> 31" using spec(5) by (simp add: days_in_def split: if_splits)
  then have "num (pad 4 (nat y)) 0 9999 = Some (nat y)" "num (pad 2 (nat m)) 1 12 = Some (nat m)"
    "num (pad 2 (nat d)) 1 (nat (days_in y m)) = Some (nat d)"
    using assms(2,3) spec by (auto intro!: num_pad)
  then show ?thesis using assms(2) spec by (simp add: read_date_def nth_append)
qed

lemma read_clock_text:
  assumes "sod < 86400"
  shows "read_clock (clock_of sod) = Some (int sod)"
proof -
  have "sod div 3600 < 24" using assms by (simp add: less_mult_imp_div_less)
  then have "num (pad 2 (sod div 3600)) 0 23 = Some (sod div 3600)" "num (pad 2 (sod div 60 mod 60)) 0 59 = Some (sod div 60 mod 60)"
    "num (pad 2 (sod mod 60)) 0 59 = Some (sod mod 60)"
    by (auto intro!: num_pad)
  moreover have "(sod div 3600 * 60 + sod div 60 mod 60) * 60 + sod mod 60 = sod"
    using div_mult_mod_eq [of "sod div 60" 60] div_mult_mod_eq [of sod 60] by (simp add: div_mult2_eq [symmetric])
  ultimately show ?thesis by (simp add: read_clock_def clock_of_def nth_append del: of_nat_add of_nat_mult)
qed

lemma parse_format_time:
  assumes "format_time off t = Some s" and "off mod 60 = 0"
  shows "parse_time s = Some t"
proof -
  define secs where "secs = t div 1000000000 + off"
  obtain y m d where ymd: "date_of (secs div 86400 + epoch) = (y, m, d)" by (metis prod_cases3)
  define date where "date = pad 4 (nat y) @ CHR ''-'' # pad 2 (nat m) @ CHR ''-'' # pad 2 (nat d)"
  let ?clock = "clock_of (nat (secs mod 86400))" and ?rest = "frac_text (nat (t mod 1000000000)) @ zone_text off"
  have ok: "0 \<le> y" "y \<le> 9999" "nat \<bar>off\<bar> div 3600 < 24" and s: "s = date @ CHR ''T'' # ?clock @ ?rest"
    using assms(1) ymd unfolding format_time_def RFC3339Nano_def secs_def [symmetric] Let_def date_def
    by (auto simp: year_text_def split: if_splits)
  have len: "length date = 10" "length ?clock = 8" by (simp_all add: date_def clock_of_def)
  have "take 10 s = date" "take 8 (drop 11 s) = ?clock" "drop 19 s = ?rest" "s ! 10 = CHR ''T''" "\<not> length s < 19"
    unfolding s using len by (simp_all add: nth_append)
  moreover have "read_date date = Some (secs div 86400)"
    using read_date_text [OF ymd ok(1,2)] by (simp add: date_def)
  moreover have "read_clock ?clock = Some (secs mod 86400)" using read_clock_text [of "nat (secs mod 86400)"] by simp
  moreover have "read_frac ?rest = (nat (t mod 1000000000), zone_text off)" by (rule read_frac_text) simp
  moreover have "read_zone (zone_text off) = Some off" by (rule read_zone_text [OF assms(2) ok(3)])
  ultimately show ?thesis by (simp add: parse_time_def Let_def secs_def)
qed

lemma days_before_mono: "a \<le> b \<Longrightarrow> days_before_year a \<le> days_before_year b"
proof (induction rule: int_ge_induct)
  case (step i)
  then show ?case using days_before_Suc [of i] by (simp split: if_splits)
qed simp

text \<open>A clock reading with a year of four digits has a text in UTC.\<close>

lemma format_time_clock:
  assumes "- 62135596800000000000 \<le> t" and "t < 253402300800000000000"
  shows "format_time 0 t = Some (RFC3339Nano 0 t)"
proof -
  define n where "n = t div 1000000000 div 86400 + epoch"
  have "- 719162 \<le> t div 1000000000 div 86400" "t div 1000000000 div 86400 < 2932897"
    using zdiv_mono1 [OF assms(1), of "1000000000 * 86400"] assms(2) by (simp_all add: zdiv_zmult2_eq [symmetric] div_less_iff_less_mult)
  then have n: "0 \<le> n" "n < 3652425" by (simp_all add: n_def epoch_def)
  have d: "days_before_year 0 = 0" "days_before_year 10000 = 3652425" by (simp_all add: days_before_year_def)
  have "0 \<le> year_of n" "year_of n \<le> 9999"
    using year_of_bounds [of n] days_before_mono [of "year_of n + 1" 0] days_before_mono [of 10000 "year_of n"] n d by linarith+
  moreover have "fst (date_of n) = year_of n" by (simp add: date_of_def Let_def split: prod.split)
  ultimately show ?thesis unfolding format_time_def by (simp add: n_def [symmetric])
qed

end
