(* ===== verification/Record_Json.thy ===== *)
theory Record_Json
  imports Rfc3339 Wal_Frames
begin

text \<open>
  \<open>json.Marshal\<close> and \<open>json.Unmarshal\<close> on the structs of the program: \<open>task.Task\<close>, \<open>wal.Record\<close> and
  \<open>queue.DeadTask\<close>, with the names their tags give the fields. \<open>go_json\<close> is the payload encoding of the journal;
  it keeps the contract the journal asks of it. A time is printed in the zone in effect at that instant: \<open>zone t\<close> is
  its offset from UTC in seconds, a whole number of minutes.
\<close>

section \<open>Byte slices\<close>

text \<open>\<open>base64.StdEncoding\<close>, which \<open>encoding/json\<close> uses for a byte slice. Decoding passes over line breaks.\<close>

definition b64_digit :: "nat \<Rightarrow> char" where
  "b64_digit n =
     (if n < 26 then char_of (65 + n) else if n < 52 then char_of (71 + n)
      else if n < 62 then char_of (n - 4) else if n = 62 then CHR ''+'' else CHR ''/'')"

definition b64_val :: "char \<Rightarrow> nat option" where
  "b64_val c =
     (let n = of_char c :: nat in
      if 65 \<le> n \<and> n \<le> 90 then Some (n - 65) else if 97 \<le> n \<and> n \<le> 122 then Some (n - 71)
      else if 48 \<le> n \<and> n \<le> 57 then Some (n + 4) else if c = CHR ''+'' then Some 62 else if c = CHR ''/'' then Some 63
      else None)"

fun base64 :: "bytes \<Rightarrow> string" where
  "base64 [] = []"
| "base64 [a] = [b64_digit (of_char a div 4), b64_digit (of_char a mod 4 * 16), CHR ''='', CHR ''='']"
| "base64 [a, b] =
     [b64_digit (of_char a div 4), b64_digit (of_char a mod 4 * 16 + of_char b div 16),
      b64_digit (of_char b mod 16 * 4), CHR ''='']"
| "base64 (a # b # c # bs) =
     [b64_digit (of_char a div 4), b64_digit (of_char a mod 4 * 16 + of_char b div 16),
      b64_digit (of_char b mod 16 * 4 + of_char c div 64), b64_digit (of_char c mod 64)] @ base64 bs"

fun base64_quanta :: "string \<Rightarrow> bytes option" where
  "base64_quanta [] = Some []"
| "base64_quanta (a # b # c # d # s) =
     (case (b64_val a, b64_val b) of
        (Some x, Some y) \<Rightarrow>
          if c = CHR ''='' then (if d = CHR ''='' \<and> s = [] then Some [char_of (x * 4 + y div 16)] else None)
          else (case b64_val c of
            None \<Rightarrow> None
          | Some z \<Rightarrow>
              if d = CHR ''='' then
                (if s = [] then Some [char_of (x * 4 + y div 16), char_of (y mod 16 * 16 + z div 4)] else None)
              else (case b64_val d of
                None \<Rightarrow> None
              | Some w \<Rightarrow>
                  map_option (\<lambda>bs. char_of (x * 4 + y div 16) # char_of (y mod 16 * 16 + z div 4) # char_of (z mod 4 * 64 + w) # bs)
                    (base64_quanta s)))
      | _ \<Rightarrow> None)"
| "base64_quanta _ = None"

definition base64_decode :: "string \<Rightarrow> bytes option" where
  "base64_decode s = base64_quanta (filter (\<lambda>c. c \<noteq> LF \<and> c \<noteq> CHR 0x0D) s)"

lemma b64_val_digit: "n < 64 \<Longrightarrow> b64_val (b64_digit n) = Some n"
  by (auto simp: b64_val_def b64_digit_def Let_def of_char_eq_iff [where 'a = nat, symmetric] simp del: of_char_eq_iff)

lemma b64_digit_chars: "n < 64 \<Longrightarrow> b64_digit n \<noteq> CHR ''=''"
  using b64_val_digit [of n] by (auto simp: b64_val_def)

lemma byte_parts:
  fixes a b c :: nat
  assumes "a < 256" and "b < 256" and "c < 256"
  shows "a div 4 < 64" "a mod 4 * 16 + b div 16 < 64" "b mod 16 * 4 + c div 64 < 64" "c mod 64 < 64"
    "a div 4 * 4 + (a mod 4 * 16 + b div 16) div 16 = a"
    "(a mod 4 * 16 + b div 16) mod 16 * 16 + (b mod 16 * 4 + c div 64) div 4 = b"
    "(b mod 16 * 4 + c div 64) mod 4 * 64 + c mod 64 = c"
proof -
  have h: "a div 4 < 64" "b div 16 < 16" "c div 64 < 4" "a mod 4 < 4" "b mod 16 < 16" "c mod 64 < 64" using assms by simp_all
  then show "a div 4 < 64" "a mod 4 * 16 + b div 16 < 64" "b mod 16 * 4 + c div 64 < 64" "c mod 64 < 64" by linarith+
  show "a div 4 * 4 + (a mod 4 * 16 + b div 16) div 16 = a" using h(2) by simp
  show "(a mod 4 * 16 + b div 16) mod 16 * 16 + (b mod 16 * 4 + c div 64) div 4 = b" using h(2,3) by simp
  show "(b mod 16 * 4 + c div 64) mod 4 * 64 + c mod 64 = c" using h(3) by simp
qed

lemma base64_quanta_base64: "base64_quanta (base64 p) = Some p"
proof (induction p rule: base64.induct)
  case (2 a)
  have "(of_char a :: nat) < 256" by simp
  note parts = byte_parts [OF this, of 0 0, simplified]
  from parts show ?case by (simp add: b64_val_digit)
next
  case (3 a b)
  have "(of_char a :: nat) < 256" "(of_char b :: nat) < 256" by simp_all
  note parts = byte_parts [OF this, of 0, simplified]
  from parts show ?case by (simp add: b64_val_digit b64_digit_chars)
next
  case (4 a b c p)
  have "(of_char a :: nat) < 256" "(of_char b :: nat) < 256" "(of_char c :: nat) < 256" by simp_all
  note parts = byte_parts [OF this]
  from parts 4 show ?case by (simp add: b64_val_digit b64_digit_chars)
qed simp

text \<open>The characters that a JSON string holds as they are.\<close>

definition plain :: "char \<Rightarrow> bool" where
  "plain c \<longleftrightarrow> byte_in 0x20 0x7F c \<and> c \<notin> {quote, backslash, CHR ''<'', CHR ''>'', CHR ''&''}"

lemma appendString_plain: "\<forall>c \<in> set s. plain c \<Longrightarrow> appendString s = s"
proof (induction s)
  case (Cons c s)
  then have c: "plain c" and s: "appendString s = s" by simp_all
  have "byte_in 0 0x7F c" "escape_byte c = [c]"
    using c by (auto simp: plain_def byte_in_def escape_byte_def Let_def)
  with s show ?case by (simp add: appendString.simps(2))
qed simp

lemma unquote_plain: "\<forall>c \<in> set s. plain c \<Longrightarrow> unquote s = s"
proof (induction s)
  case (Cons c s)
  then have "byte_in 0 0x7F c" "c \<noteq> backslash" by (auto simp: plain_def byte_in_def)
  with Cons show ?case by (simp add: unquote.simps(2))
qed simp

lemma denotes_plain: "\<forall>c \<in> set s. plain c \<Longrightarrow> denotes 0 (quote # s @ [quote]) (JString s)"
  using denotes_string [of s] by (simp add: json_string_def appendString_plain)

lemma b64_digit_plain: "n < 64 \<Longrightarrow> plain (b64_digit n)"
  by (auto simp: plain_def b64_digit_def byte_in_def of_char_eq_iff [where 'a = nat, symmetric] simp del: of_char_eq_iff)

lemma base64_plain: "c \<in> set (base64 p) \<Longrightarrow> plain c"
proof -
  have pad: "plain (CHR ''='')" by (simp add: plain_def byte_in_def)
  have "\<forall>c \<in> set (base64 p). plain c"
  proof (induction p rule: base64.induct)
    case (2 a)
    have "(of_char a :: nat) < 256" by simp
    from byte_parts [OF this, of 0 0, simplified] show ?case by (simp add: b64_digit_plain pad)
  next
    case (3 a b)
    have "(of_char a :: nat) < 256" "(of_char b :: nat) < 256" by simp_all
    from byte_parts [OF this, of 0, simplified] show ?case by (simp add: b64_digit_plain pad)
  next
    case (4 a b c p)
    have "(of_char a :: nat) < 256" "(of_char b :: nat) < 256" "(of_char c :: nat) < 256" by simp_all
    from byte_parts [OF this] 4 show ?case by (simp add: b64_digit_plain)
  qed simp
  then show "c \<in> set (base64 p) \<Longrightarrow> plain c" by blast
qed

lemma base64_decode_base64: "base64_decode (base64 p) = Some p"
proof -
  have "filter (\<lambda>c. c \<noteq> LF \<and> c \<noteq> CHR 0x0D) (base64 p) = base64 p"
    using base64_plain [of LF p] base64_plain [of "CHR 0x0D" p] by (intro filter_True) (auto simp: plain_def byte_in_def)
  then show ?thesis by (simp add: base64_decode_def base64_quanta_base64)
qed

text \<open>An array of numbers also fills a byte slice; its elements are numbers below 256 or \<open>null\<close>.\<close>

fun decode_byte_items :: "json list \<Rightarrow> bytes option" where
  "decode_byte_items [] = Some []"
| "decode_byte_items (v # vs) =
     (case (case v of
              JNull \<Rightarrow> Some 0
            | JNumber n \<Rightarrow> (case parse_digits 0 n of Some i \<Rightarrow> if i < 256 then Some i else None | None \<Rightarrow> None)
            | _ \<Rightarrow> None) of
        None \<Rightarrow> None
      | Some b \<Rightarrow> map_option ((#) (char_of b)) (decode_byte_items vs))"

definition decode_bytes :: "json \<Rightarrow> bytes option \<Rightarrow> go_error + bytes option" where
  "decode_bytes v cur =
     (case v of
        JNull \<Rightarrow> Inr None
      | JString raw \<Rightarrow> (case base64_decode (unquote raw) of None \<Rightarrow> Inl json_error | Some p \<Rightarrow> Inr (Some p))
      | JArray vs \<Rightarrow> (case decode_byte_items vs of None \<Rightarrow> Inl json_error | Some p \<Rightarrow> Inr (Some p))
      | _ \<Rightarrow> Inl json_error)"

definition json_bytes :: "bytes option \<Rightarrow> string" where
  "json_bytes p = (case p of None \<Rightarrow> ''null'' | Some b \<Rightarrow> quote # base64 b @ [quote])"

definition json_of_bytes :: "bytes option \<Rightarrow> json" where
  "json_of_bytes p = (case p of None \<Rightarrow> JNull | Some b \<Rightarrow> JString (base64 b))"

lemma denotes_bytes: "denotes 0 (json_bytes p) (json_of_bytes p)"
  using base64_plain by (auto simp: json_bytes_def json_of_bytes_def denotes_null intro: denotes_plain split: option.split)

lemma decode_bytes_printed: "decode_bytes (json_of_bytes p) cur = Inr p"
proof (cases p)
  case (Some b)
  have "unquote (base64 b) = base64 b" using base64_plain by (intro unquote_plain) blast
  with Some show ?thesis by (simp add: decode_bytes_def json_of_bytes_def base64_decode_base64)
qed (simp add: decode_bytes_def json_of_bytes_def)

section \<open>Times\<close>

definition json_time :: "(instant \<Rightarrow> int) \<Rightarrow> instant \<Rightarrow> string option" where
  "json_time zone t = map_option (\<lambda>s. quote # s @ [quote]) (format_time (zone t) t)"

definition decode_time :: "json \<Rightarrow> instant \<Rightarrow> go_error + instant" where
  "decode_time v cur =
     (case v of
        JNull \<Rightarrow> Inr cur
      | JString raw \<Rightarrow> (case parse_time raw of None \<Rightarrow> Inl json_error | Some t \<Rightarrow> Inr t)
      | _ \<Rightarrow> Inl json_error)"

definition zone_ok :: "(instant \<Rightarrow> int) \<Rightarrow> bool" where
  "zone_ok zone \<longleftrightarrow> (\<forall>t. zone t mod 60 = 0)"

lemma digit_plain: "is_digit c \<Longrightarrow> plain c"
  by (auto simp: is_digit_def digit_val_def plain_def byte_in_def Let_def split: if_splits)

lemma format_time_plain:
  assumes "format_time off t = Some s" and "c \<in> set s"
  shows "plain c"
proof -
  have pad: "plain c" if "c \<in> set (pad k n)" for c k n using that pad_digits digit_plain by blast
  have lit: "plain (CHR ''-'')" "plain (CHR '':'')" "plain (CHR ''T'')" "plain (CHR ''Z'')" "plain (CHR ''.'')" "plain (CHR ''+'')"
    by (simp_all add: plain_def byte_in_def)
  have clock: "plain c" if "c \<in> set (clock_of n)" for c n using that pad lit by (auto simp: clock_of_def simp del: pad.simps)
  have "set (trim_zeros (pad 9 n)) \<subseteq> set (pad 9 n)" for n
    using arg_cong [OF trim_zeros_restore [of "pad 9 n"], of set] by (auto simp del: pad.simps)
  then have "plain c" if "c \<in> set (trim_zeros (pad 9 n))" for c n using that pad by blast
  then have frac: "plain c" if "c \<in> set (frac_text n)" for c n
    using that lit by (auto simp: frac_text_def split: if_splits)
  have zone: "plain c" if "c \<in> set (zone_text off)" for c
    using that pad lit by (auto simp: zone_text_def Let_def simp del: pad.simps split: if_splits)
  show ?thesis
    using assms pad lit clock frac zone by (auto simp: format_time_def RFC3339Nano_def year_text_def Let_def simp del: pad.simps split: if_splits prod.splits)
qed

lemma denotes_time:
  assumes "json_time zone t = Some s"
  obtains raw where "denotes 0 s (JString raw)" "zone_ok zone \<Longrightarrow> decode_time (JString raw) cur = Inr t"
proof -
  obtain raw where raw: "format_time (zone t) t = Some raw" "s = quote # raw @ [quote]"
    using assms by (auto simp: json_time_def)
  have "denotes 0 s (JString raw)" unfolding raw(2) using format_time_plain [OF raw(1)] by (intro denotes_plain) blast
  moreover have "zone_ok zone \<Longrightarrow> decode_time (JString raw) cur = Inr t"
    using parse_format_time [OF raw(1)] by (simp add: decode_time_def zone_ok_def)
  ultimately show thesis by (rule that)
qed

section \<open>Structs\<close>

definition marshal_Task :: "task \<Rightarrow> string" where
  "marshal_Task t =
     json_struct [(''id'', json_string (task_ID t)), (''payload'', json_bytes (task_Payload t)),
       (''attempts'', show_int (sint (task_Attempts t)))]"

definition task_field :: "string \<Rightarrow> json \<Rightarrow> task \<Rightarrow> go_error + task" where
  "task_field k v t =
     (if same_name k ''id'' then map_result (\<lambda>x. t\<lparr>task_ID := x\<rparr>) (decode_string v (task_ID t))
      else if same_name k ''payload'' then map_result (\<lambda>x. t\<lparr>task_Payload := x\<rparr>) (decode_bytes v (task_Payload t))
      else if same_name k ''attempts'' then map_result (\<lambda>x. t\<lparr>task_Attempts := x\<rparr>) (decode_int v (task_Attempts t))
      else Inr t)"

definition decode_Task :: "json \<Rightarrow> task \<Rightarrow> go_error + task" where
  "decode_Task = decode_struct task_field"

definition unmarshal :: "(json \<Rightarrow> 'a \<Rightarrow> go_error + 'a) \<Rightarrow> string \<Rightarrow> 'a \<Rightarrow> go_error + 'a" where
  "unmarshal decode s cur = (case parse_json s of None \<Rightarrow> Inl json_error | Some v \<Rightarrow> decode v cur)"

definition marshal_Record :: "(instant \<Rightarrow> int) \<Rightarrow> wal_record \<Rightarrow> go_error + bytes" where
  "marshal_Record zone r =
     (case (json_time zone (wr_CreatedAt r), json_time zone (wr_ExpiresAt r)) of
        (Some created, Some expires) \<Rightarrow>
          Inr (json_struct [(''op'', json_string (wr_Op r)), (''lease_id'', json_string (wr_LeaseID r)),
            (''task'', marshal_Task (wr_Task r)), (''created_at'', created), (''expires_at'', expires)])
      | _ \<Rightarrow> Inl (ErrNew ''json: error calling MarshalJSON for type time.Time''))"

definition record_field :: "string \<Rightarrow> json \<Rightarrow> wal_record \<Rightarrow> go_error + wal_record" where
  "record_field k v r =
     (if same_name k ''op'' then map_result (\<lambda>x. r\<lparr>wr_Op := x\<rparr>) (decode_string v (wr_Op r))
      else if same_name k ''lease_id'' then map_result (\<lambda>x. r\<lparr>wr_LeaseID := x\<rparr>) (decode_string v (wr_LeaseID r))
      else if same_name k ''task'' then map_result (\<lambda>x. r\<lparr>wr_Task := x\<rparr>) (decode_Task v (wr_Task r))
      else if same_name k ''created_at'' then map_result (\<lambda>x. r\<lparr>wr_CreatedAt := x\<rparr>) (decode_time v (wr_CreatedAt r))
      else if same_name k ''expires_at'' then map_result (\<lambda>x. r\<lparr>wr_ExpiresAt := x\<rparr>) (decode_time v (wr_ExpiresAt r))
      else Inr r)"

definition dead_field :: "string \<Rightarrow> json \<Rightarrow> dead_task \<Rightarrow> go_error + dead_task" where
  "dead_field k v d =
     (if same_name k ''task'' then map_result (\<lambda>x. d\<lparr>dead_Task := x\<rparr>) (decode_Task v (dead_Task d))
      else if same_name k ''reason'' then map_result (\<lambda>x. d\<lparr>dead_Reason := x\<rparr>) (decode_string v (dead_Reason d))
      else if same_name k ''dead_at'' then map_result (\<lambda>x. d\<lparr>dead_DeadAt := x\<rparr>) (decode_time v (dead_DeadAt d))
      else Inr d)"

definition zero_record :: wal_record where
  "zero_record = close_record [] []"

definition zero_dead :: dead_task where
  "zero_dead = \<lparr>dead_Task = zero_task, dead_Reason = [], dead_DeadAt = zero_time\<rparr>"

definition go_json :: "(instant \<Rightarrow> int) \<Rightarrow> wal_codec" where
  "go_json zone =
     \<lparr>json_Marshal = marshal_Record zone, json_Unmarshal = (\<lambda>s. unmarshal (decode_struct record_field) s zero_record)\<rparr>"

subsection \<open>A struct is read back\<close>

lemma same_name_literals:
  "same_name ''id'' ''id''" "\<not> same_name ''payload'' ''id''" "same_name ''payload'' ''payload''"
  "\<not> same_name ''attempts'' ''id''" "\<not> same_name ''attempts'' ''payload''" "same_name ''attempts'' ''attempts''"
  "same_name ''op'' ''op''" "\<not> same_name ''lease_id'' ''op''" "same_name ''lease_id'' ''lease_id''"
  "\<not> same_name ''task'' ''op''" "\<not> same_name ''task'' ''lease_id''" "same_name ''task'' ''task''"
  "\<not> same_name ''created_at'' ''op''" "\<not> same_name ''created_at'' ''lease_id''" "\<not> same_name ''created_at'' ''task''"
  "same_name ''created_at'' ''created_at''"
  "\<not> same_name ''expires_at'' ''op''" "\<not> same_name ''expires_at'' ''lease_id''" "\<not> same_name ''expires_at'' ''task''"
  "\<not> same_name ''expires_at'' ''created_at''" "same_name ''expires_at'' ''expires_at''"
  "\<not> same_name ''reason'' ''task''" "same_name ''reason'' ''reason''"
  "\<not> same_name ''dead_at'' ''task''" "\<not> same_name ''dead_at'' ''reason''" "same_name ''dead_at'' ''dead_at''"
  by code_simp+

lemma appendString_names:
  "appendString ''id'' = ''id''" "appendString ''payload'' = ''payload''" "appendString ''attempts'' = ''attempts''"
  "appendString ''op'' = ''op''" "appendString ''lease_id'' = ''lease_id''" "appendString ''task'' = ''task''"
  "appendString ''created_at'' = ''created_at''" "appendString ''expires_at'' = ''expires_at''"
  "appendString ''reason'' = ''reason''" "appendString ''dead_at'' = ''dead_at''"
  by (rule appendString_plain, simp add: plain_def byte_in_def)+

definition json_of_Task :: "task \<Rightarrow> json" where
  "json_of_Task t =
     JObject [(''id'', JString (appendString (task_ID t))), (''payload'', json_of_bytes (task_Payload t)),
       (''attempts'', JNumber (show_int (sint (task_Attempts t))))]"

lemma denotes_Task: "denotes 1 (marshal_Task t) (json_of_Task t)"
  using denotes_struct [of "[(''id'', json_string (task_ID t), JString (appendString (task_ID t))),
      (''payload'', json_bytes (task_Payload t), json_of_bytes (task_Payload t)),
      (''attempts'', show_int (sint (task_Attempts t)), JNumber (show_int (sint (task_Attempts t))))]" 0]
  by (simp add: marshal_Task_def json_of_Task_def denotes_string denotes_bytes denotes_int appendString_names)

lemma decode_Task_printed:
  assumes "utf8_valid (task_ID t)"
  shows "decode_Task (json_of_Task t) cur = Inr t"
  by (simp add: decode_Task_def json_of_Task_def decode_struct_def task_field_def same_name_literals
      decode_string_printed [OF assms] decode_bytes_printed decode_int_printed)

lemma task_text_roundtrip:
  assumes "utf8_valid (task_ID t)"
  shows "unmarshal decode_Task (marshal_Task t) zero_task = Inr t"
  using parse_denotes [OF denotes_Task] decode_Task_printed [OF assms] by (simp add: unmarshal_def maxNestingDepth_def)

lemma record_text_roundtrip:
  assumes "record_text r" and "zone_ok zone" and "marshal_Record zone r = Inr p"
  shows "p \<noteq> [] \<and> unmarshal (decode_struct record_field) p zero_record = Inr r"
proof -
  obtain c e where ce: "json_time zone (wr_CreatedAt r) = Some c" "json_time zone (wr_ExpiresAt r) = Some e"
    and p: "p = json_struct [(''op'', json_string (wr_Op r)), (''lease_id'', json_string (wr_LeaseID r)),
      (''task'', marshal_Task (wr_Task r)), (''created_at'', c), (''expires_at'', e)]"
    using assms(3) by (auto simp: marshal_Record_def split: option.splits)
  obtain rc where rc: "denotes 0 c (JString rc)" "decode_time (JString rc) zero_time = Inr (wr_CreatedAt r)"
    using denotes_time [OF ce(1)] assms(2) by metis
  obtain re where re: "denotes 0 e (JString re)" "decode_time (JString re) zero_time = Inr (wr_ExpiresAt r)"
    using denotes_time [OF ce(2)] assms(2) by metis
  have one: "denotes (Suc 0) (json_string s) (JString (appendString s))" "denotes (Suc 0) (marshal_Task t) (json_of_Task t)"
    "denotes (Suc 0) c (JString rc)" "denotes (Suc 0) e (JString re)" for s t
    using denotes_Task denotes_string rc(1) re(1) by (simp_all add: denotes_mono [of 0])
  let ?v = "JObject [(''op'', JString (appendString (wr_Op r))), (''lease_id'', JString (appendString (wr_LeaseID r))),
    (''task'', json_of_Task (wr_Task r)), (''created_at'', JString rc), (''expires_at'', JString re)]"
  have "denotes 2 p ?v"
    using denotes_struct [of "[(''op'', json_string (wr_Op r), JString (appendString (wr_Op r))),
        (''lease_id'', json_string (wr_LeaseID r), JString (appendString (wr_LeaseID r))),
        (''task'', marshal_Task (wr_Task r), json_of_Task (wr_Task r)), (''created_at'', c, JString rc), (''expires_at'', e, JString re)]" 1]
    by (simp add: p one appendString_names numeral_2_eq_2)
  then have "parse_json p = Some ?v" by (rule parse_denotes) (simp add: maxNestingDepth_def)
  moreover have "decode_struct record_field ?v zero_record = Inr r"
    using assms(1) rc(2) re(2)
    by (simp add: decode_struct_def record_field_def same_name_literals decode_string_printed decode_Task_printed record_text_def
        zero_record_def close_record_def)
  moreover have "p \<noteq> []" by (simp add: p json_struct_def)
  ultimately show ?thesis by (simp add: unmarshal_def)
qed

text \<open>What is decoded is always valid text.\<close>

lemma decode_members_inv:
  assumes "\<And>k v cur cur'. P cur \<Longrightarrow> field k v cur = Inr cur' \<Longrightarrow> P cur'" and "P cur" and "decode_members field ms cur = Inr cur'"
  shows "P cur'"
  using assms(2,3)
proof (induction ms arbitrary: cur)
  case (Cons kv ms)
  obtain k v where kv: "kv = (k, v)" by (cases kv)
  with Cons.prems obtain cur1 where "field k v cur = Inr cur1" "decode_members field ms cur1 = Inr cur'"
    by (auto split: sum.splits)
  with Cons assms(1) show ?case by blast
qed simp

lemma decode_struct_inv:
  assumes "\<And>k v cur cur'. P cur \<Longrightarrow> field k v cur = Inr cur' \<Longrightarrow> P cur'" and "P cur" and "decode_struct field v cur = Inr cur'"
  shows "P cur'"
proof (cases v)
  case (JObject ms)
  then have "decode_members field ms cur = Inr cur'" using assms(3) by (simp add: decode_struct_def)
  then show ?thesis using decode_members_inv [of P field cur ms cur'] assms(1,2) by blast
qed (use assms(2,3) in \<open>simp_all add: decode_struct_def\<close>)

lemma map_result_Inr: "map_result f r = Inr y \<longleftrightarrow> (\<exists>x. r = Inr x \<and> y = f x)"
  by (auto simp: map_result_def split: sum.splits)

lemma decode_Task_valid: "decode_Task v t = Inr t' \<Longrightarrow> utf8_valid (task_ID t) \<Longrightarrow> utf8_valid (task_ID t')"
  unfolding decode_Task_def
  by (rule decode_struct_inv [of "\<lambda>t. utf8_valid (task_ID t)" task_field])
    (auto simp: task_field_def map_result_Inr split: if_splits intro: decode_string_valid)

lemma decode_Record_valid:
  assumes "unmarshal (decode_struct record_field) s zero_record = Inr r"
  shows "record_text r"
proof -
  have field: "record_text r'" if "record_text r" "record_field k v r = Inr r'" for k v r r'
    using that decode_string_valid [of v "wr_Op r"] decode_string_valid [of v "wr_LeaseID r"] decode_Task_valid [of v "wr_Task r"]
    unfolding record_field_def record_text_def by (auto simp: map_result_Inr split: if_splits)
  obtain v where v: "decode_struct record_field v zero_record = Inr r"
    using assms by (auto simp: unmarshal_def split: option.splits)
  have "record_text zero_record" by (simp add: zero_record_def record_text_close)
  then show ?thesis using decode_struct_inv [of record_text record_field zero_record v r] field v by blast
qed

lemma go_json_ok: "zone_ok zone \<Longrightarrow> codec_ok (go_json zone)"
  unfolding codec_ok_def go_json_def wal_codec.simps using record_text_roundtrip decode_Record_valid by blast

end
