(* ===== verification/Redis_Queue.thy ===== *)
theory Redis_Queue
  imports Record_Json "HOL-Library.Log_Nat"
begin

text \<open>
  \<open>internal/queue/redis.go\<close> and \<open>internal/queue/redis_scripts.go\<close>: the Redis backend.

  The Lua scripts and the Go methods are translated; what they call outside the repository is a parameter:

  \<^item> the Redis commands, a record \<open>redis_api\<close> of functions on the server's state \<open>'r\<close>;
  \<^item> the \<open>cjson\<close> library of the server, a record \<open>cjson\<close> with its two functions;
  \<^item> the network, a list of what happens to the coming calls: how often the server runs the command
    without its reply arriving, and whether a reply arrives in the end. A client that sends a command again
    after a lost reply, as go-redis does, makes the server run it more than once.

  A script runs as one step of the server. A command that fails ends the script with an error and what the
  script has done so far stays done.
\<close>

section \<open>Keys\<close>

record redisQueueKeys =
  rk_ready :: string
  rk_processing :: string
  rk_processingLeases :: string
  rk_dead :: string

definition newRedisQueueKeys :: "string \<Rightarrow> redisQueueKeys" where
  "newRedisQueueKeys queueName =
     (let hashTag = ''{'' @ queueName @ ''}'';
          prefix = ''moxy:'' @ hashTag
      in \<lparr>rk_ready = prefix @ '':ready'', rk_processing = prefix @ '':processing'',
          rk_processingLeases = prefix @ '':processing:leases'', rk_dead = prefix @ '':dead''\<rparr>)"

text \<open>\<open>strings.IndexByte\<close>, with \<open>None\<close> for -1.\<close>

fun IndexByte :: "string \<Rightarrow> char \<Rightarrow> nat option" where
  "IndexByte [] c = None"
| "IndexByte (x # xs) c = (if x = c then Some 0 else map_option Suc (IndexByte xs c))"

definition redisHashTag :: "string \<Rightarrow> string" where
  "redisHashTag key =
     (case (IndexByte key (CHR ''{''), IndexByte key (CHR ''}'')) of
        (Some start, Some end) \<Rightarrow> if end \<le> start then [] else take (end + 1 - start) (drop start key)
      | _ \<Rightarrow> [])"

section \<open>Lua\<close>

text \<open>Lua values, as far as the scripts meet them: \<open>cjson.null\<close> is a value of its own, tables have string
  keys, numbers are the integers among the doubles.\<close>

datatype lua = LNil | LNull | LBool bool | LNum int | LStr string | LTab "string \<Rightarrow> lua option"

type_synonym ('r, 'a) script = "'r \<Rightarrow> (string + 'a) \<times> 'r"

definition lua_return :: "'a \<Rightarrow> ('r, 'a) script" where
  "lua_return a = (\<lambda>r. (Inr a, r))"

definition lua_bind :: "('r, 'a) script \<Rightarrow> ('a \<Rightarrow> ('r, 'b) script) \<Rightarrow> ('r, 'b) script" where
  "lua_bind m f = (\<lambda>r. case m r of (Inl msg, r') \<Rightarrow> (Inl msg, r') | (Inr a, r') \<Rightarrow> f a r')"

definition lua_lift :: "string + 'a \<Rightarrow> ('r, 'a) script" where
  "lua_lift v = (\<lambda>r. (v, r))"

text \<open>\<open>v[k]\<close> and \<open>v[k] = x\<close>.\<close>

definition lua_index :: "lua \<Rightarrow> string \<Rightarrow> string + lua" where
  "lua_index v k =
     (case v of
        LTab t \<Rightarrow> Inr (case t k of None \<Rightarrow> LNil | Some x \<Rightarrow> x)
      | LStr _ \<Rightarrow> Inr LNil
      | _ \<Rightarrow> Inl ''attempt to index a value'')"

definition lua_set :: "lua \<Rightarrow> string \<Rightarrow> lua \<Rightarrow> string + lua" where
  "lua_set v k x =
     (case v of
        LTab t \<Rightarrow> Inr (LTab (t(k := (if x = LNil then None else Some x))))
      | _ \<Rightarrow> Inl ''attempt to index a value'')"

text \<open>\<open>v or d\<close>.\<close>

definition lua_or :: "lua \<Rightarrow> lua \<Rightarrow> lua" where
  "lua_or v d = (if v = LNil \<or> v = LBool False then d else v)"

text \<open>The integer nearest to \<open>n\<close> among the doubles, ties to even, and the addition of doubles. A string in
  an addition is an error here; Lua would read a number from it, but no entry has a string there.\<close>

definition round53 :: "int \<Rightarrow> int" where
  "round53 n =
     (if \<bar>n\<bar> \<le> 2 ^ 53 then n
      else let k = nat (bitlen \<bar>n\<bar> - 53); q = \<bar>n\<bar> div 2 ^ k; m = \<bar>n\<bar> mod 2 ^ k; half = 2 ^ (k - 1);
               q' = (if m > half \<or> m = half \<and> odd q then q + 1 else q)
           in sgn n * q' * 2 ^ k)"

definition lua_add :: "lua \<Rightarrow> lua \<Rightarrow> string + lua" where
  "lua_add a b =
     (case (a, b) of
        (LNum m, LNum n) \<Rightarrow> Inr (LNum (round53 (m + n)))
      | _ \<Rightarrow> Inl ''attempt to perform arithmetic on a value'')"

text \<open>An argument of \<open>redis.call\<close>.\<close>

definition lua_arg :: "lua \<Rightarrow> string + string" where
  "lua_arg v =
     (case v of
        LStr s \<Rightarrow> Inr s
      | LNum n \<Rightarrow> Inr (show_int n)
      | _ \<Rightarrow> Inl ''Lua redis lib command arguments must be strings or integers'')"

section \<open>What the backend calls\<close>

record 'r redis_api =
  rd_RPOP :: "string \<Rightarrow> ('r, string option) script"
  rd_LPUSH :: "string \<Rightarrow> string \<Rightarrow> ('r, nat) script"
  rd_HSET :: "string \<Rightarrow> string \<Rightarrow> string \<Rightarrow> ('r, nat) script"
  rd_HGET :: "string \<Rightarrow> string \<Rightarrow> ('r, string option) script"
  rd_HDEL :: "string \<Rightarrow> string \<Rightarrow> ('r, nat) script"
  rd_HGETALL :: "string \<Rightarrow> ('r, string list) script"
  rd_LLEN :: "string \<Rightarrow> ('r, nat) script"
  rd_HLEN :: "string \<Rightarrow> ('r, nat) script"

record cjson =
  cj_decode :: "string \<Rightarrow> string + lua"
  cj_encode :: "lua \<Rightarrow> string + string"

section \<open>The scripts\<close>

definition acquireTaskScript ::
  "'r redis_api \<Rightarrow> cjson \<Rightarrow> string \<Rightarrow> string \<Rightarrow> string \<Rightarrow> string \<Rightarrow> ('r, string option) script" where
  "acquireTaskScript rd js ready processing leases lease_id =
     lua_bind (rd_RPOP rd ready) (\<lambda>popped.
       case popped of
         None \<Rightarrow> lua_return None
       | Some encoded \<Rightarrow>
           lua_bind (lua_lift (cj_decode js encoded)) (\<lambda>task.
           lua_bind (lua_lift (lua_index task ''id'')) (\<lambda>task_id.
           lua_bind (lua_lift (lua_arg task_id)) (\<lambda>tid.
           lua_bind (rd_HSET rd processing tid encoded) (\<lambda>_.
           lua_bind (rd_HSET rd leases tid lease_id) (\<lambda>_.
           lua_return (Some encoded)))))))"

text \<open>The lookups the three fenced scripts begin with, and the two deletions they go on with.\<close>

definition fenced_script ::
  "'r redis_api \<Rightarrow> string \<Rightarrow> string \<Rightarrow> string \<Rightarrow> string \<Rightarrow> (string \<Rightarrow> ('r, int) script) \<Rightarrow> ('r, int) script" where
  "fenced_script rd processing leases tid lease_id rest =
     lua_bind (rd_HGET rd processing tid) (\<lambda>found.
       case found of
         None \<Rightarrow> lua_return 0
       | Some encoded \<Rightarrow>
           lua_bind (rd_HGET rd leases tid) (\<lambda>fence.
             if fence \<noteq> Some lease_id then lua_return (- 1)
             else
               lua_bind (rd_HDEL rd processing tid) (\<lambda>_.
               lua_bind (rd_HDEL rd leases tid) (\<lambda>_.
               rest encoded))))"

definition completeTaskScript ::
  "'r redis_api \<Rightarrow> string \<Rightarrow> string \<Rightarrow> string \<Rightarrow> string \<Rightarrow> ('r, int) script" where
  "completeTaskScript rd processing leases tid lease_id =
     fenced_script rd processing leases tid lease_id (\<lambda>_. lua_return 1)"

text \<open>\<open>task["attempts"] = (task["attempts"] or 0) + 1\<close> on the decoded entry.\<close>

definition bumped_entry :: "cjson \<Rightarrow> string \<Rightarrow> ('r, lua) script" where
  "bumped_entry js encoded =
     lua_bind (lua_lift (cj_decode js encoded)) (\<lambda>task.
     lua_bind (lua_lift (lua_index task ''attempts'')) (\<lambda>attempts.
     lua_bind (lua_lift (lua_add (lua_or attempts (LNum 0)) (LNum 1))) (\<lambda>n.
     lua_lift (lua_set task ''attempts'' n))))"

definition requeueTaskScript ::
  "'r redis_api \<Rightarrow> cjson \<Rightarrow> string \<Rightarrow> string \<Rightarrow> string \<Rightarrow> string \<Rightarrow> string \<Rightarrow> ('r, int) script" where
  "requeueTaskScript rd js processing leases ready tid lease_id =
     fenced_script rd processing leases tid lease_id (\<lambda>encoded.
       lua_bind (bumped_entry js encoded) (\<lambda>task.
       lua_bind (lua_lift (cj_encode js task)) (\<lambda>text.
       lua_bind (rd_LPUSH rd ready text) (\<lambda>_.
       lua_return 1))))"

definition dead_table :: "lua \<Rightarrow> string \<Rightarrow> string \<Rightarrow> lua" where
  "dead_table task reason dead_at =
     LTab [''task'' \<mapsto> task, ''reason'' \<mapsto> LStr reason, ''dead_at'' \<mapsto> LStr dead_at]"

definition deadLetterTaskScript ::
  "'r redis_api \<Rightarrow> cjson \<Rightarrow> string \<Rightarrow> string \<Rightarrow> string \<Rightarrow> string \<Rightarrow> string \<Rightarrow> string \<Rightarrow> string \<Rightarrow> ('r, int) script" where
  "deadLetterTaskScript rd js processing leases dead tid lease_id reason dead_at =
     fenced_script rd processing leases tid lease_id (\<lambda>encoded.
       lua_bind (bumped_entry js encoded) (\<lambda>task.
       lua_bind (lua_lift (cj_encode js (dead_table task reason dead_at))) (\<lambda>text.
       lua_bind (rd_LPUSH rd dead text) (\<lambda>_.
       lua_return 1))))"

text \<open>The keys of the table \<open>active\<close>: task id, a NUL byte, lease id.\<close>

definition fence_key :: "string \<Rightarrow> string \<Rightarrow> string" where
  "fence_key tid lease_id = tid @ CHR 0x00 # lease_id"

fun active_keys :: "string list \<Rightarrow> string list" where
  "active_keys (tid # lease_id # argv) = fence_key tid lease_id # active_keys argv"
| "active_keys _ = []"

datatype redis_reply = RNil | RInt int | RStr string

fun recover_entries ::
  "'r redis_api \<Rightarrow> string \<Rightarrow> string \<Rightarrow> string \<Rightarrow> string list \<Rightarrow> string list \<Rightarrow> int \<Rightarrow> string list \<Rightarrow>
   ('r, int \<times> string list) script" where
  "recover_entries rd processing leases ready active (tid # encoded # entries) moved matched =
     lua_bind (rd_HGET rd leases tid) (\<lambda>fence.
       if (case fence of None \<Rightarrow> False | Some lease_id \<Rightarrow> fence_key tid lease_id \<in> set active)
       then recover_entries rd processing leases ready active entries moved (matched @ [the fence])
       else
         lua_bind (rd_HDEL rd processing tid) (\<lambda>_.
         lua_bind (rd_HDEL rd leases tid) (\<lambda>_.
         lua_bind (rd_LPUSH rd ready encoded) (\<lambda>_.
         recover_entries rd processing leases ready active entries (moved + 1) matched))))"
| "recover_entries rd processing leases ready active _ moved matched = lua_return (moved, matched)"

definition recoverOrphanedProcessingScript ::
  "'r redis_api \<Rightarrow> string \<Rightarrow> string \<Rightarrow> string \<Rightarrow> string list \<Rightarrow> ('r, redis_reply list) script" where
  "recoverOrphanedProcessingScript rd processing leases ready argv =
     lua_bind (rd_HGETALL rd processing) (\<lambda>entries.
     lua_bind (recover_entries rd processing leases ready (active_keys argv) entries 0 []) (\<lambda>(moved, matched).
     lua_return (RInt moved # map RStr matched)))"

section \<open>The client\<close>

text \<open>What happens to one call: the server runs the command \<open>ft_lost\<close> times without the reply arriving; then
  it runs it once more and the reply arrives, or the caller gets an error.\<close>

record fate =
  ft_lost :: nat
  ft_error :: "go_error option"

definition answered :: fate where
  "answered = \<lparr>ft_lost = 0, ft_error = None\<rparr>"

definition redis_call :: "fate \<Rightarrow> ('r, 'a) script \<Rightarrow> 'r \<Rightarrow> (go_error + 'a) \<times> 'r" where
  "redis_call f cmd r =
     (let r' = ((\<lambda>r. snd (cmd r)) ^^ ft_lost f) r
      in case ft_error f of
           Some err \<Rightarrow> (Inl err, r')
         | None \<Rightarrow>
             (case cmd r' of
                (Inl msg, r'') \<Rightarrow> (Inl (ErrNew msg), r'')
              | (Inr a, r'') \<Rightarrow> (Inr a, r'')))"

section \<open>The queue\<close>

record 'r RedisQueue =
  rq_readyKey :: string
  rq_processingKey :: string
  rq_processingLeaseKey :: string
  rq_deadKey :: string
  rq_server :: 'r
  rq_net :: "fate list"

definition NewRedisQueue :: "'r \<Rightarrow> fate list \<Rightarrow> string \<Rightarrow> 'r RedisQueue" where
  "NewRedisQueue server net queueName =
     (let keys = newRedisQueueKeys queueName
      in \<lparr>rq_readyKey = rk_ready keys, rq_processingKey = rk_processing keys,
          rq_processingLeaseKey = rk_processingLeases keys, rq_deadKey = rk_dead keys,
          rq_server = server, rq_net = net\<rparr>)"

text \<open>A call meets the next fate of the list; when the list is empty it is answered.\<close>

definition fate_at :: "nat \<Rightarrow> 'r RedisQueue \<Rightarrow> fate" where
  "fate_at i q = (if i < length (rq_net q) then rq_net q ! i else answered)"

definition redis_run :: "('r, 'a) script \<Rightarrow> 'r RedisQueue \<Rightarrow> (go_error + 'a) \<times> 'r RedisQueue" where
  "redis_run cmd q =
     (case redis_call (fate_at 0 q) cmd (rq_server q) of
        (res, server) \<Rightarrow> (res, q\<lparr>rq_server := server, rq_net := tl (rq_net q)\<rparr>))"

text \<open>\<open>json.Marshal\<close> has no error for a task.\<close>

definition encodeTask :: "task \<Rightarrow> go_error + string" where
  "encodeTask item = Inr (marshal_Task (cloneTask item))"

definition decodeTask :: "string \<Rightarrow> go_error + task" where
  "decodeTask encoded =
     (case unmarshal decode_Task encoded zero_task of Inl err \<Rightarrow> Inl err | Inr decoded \<Rightarrow> Inr (cloneTask decoded))"

definition decodeDeadTask :: "string \<Rightarrow> go_error + dead_task" where
  "decodeDeadTask encoded =
     (case unmarshal (decode_struct dead_field) encoded zero_dead of
        Inl err \<Rightarrow> Inl err
      | Inr decoded \<Rightarrow> Inr (decoded\<lparr>dead_Task := cloneTask (dead_Task decoded)\<rparr>))"

definition transitionResultError :: "int \<Rightarrow> go_error + unit" where
  "transitionResultError result =
     (if result = 1 then Inr ()
      else if result = 0 then Inl ErrTaskNotProcessing
      else if result = - 1 then Inl ErrLeaseFenceMismatch
      else Inl (ErrNew (''redis script returned unexpected transition result '' @ show_int result)))"

text \<open>\<open>%T\<close> of a reply.\<close>

definition reply_type :: "redis_reply \<Rightarrow> string" where
  "reply_type v = (case v of RNil \<Rightarrow> ''<nil>'' | RInt _ \<Rightarrow> ''int64'' | RStr _ \<Rightarrow> ''string'')"

fun decode_matched :: "redis_reply list \<Rightarrow> (string, unit) gomap \<Rightarrow> go_error + (string, unit) gomap" where
  "decode_matched [] matched = Inr matched"
| "decode_matched (item # items) matched =
     (case item of
        RStr leaseID \<Rightarrow> decode_matched items (gm_put leaseID () matched)
      | _ \<Rightarrow> Inl (ErrNew (''redis recovery lease id has type '' @ reply_type item)))"

definition decodeRecoveryResult :: "redis_reply list \<Rightarrow> go_error + recovery_result" where
  "decodeRecoveryResult items =
     (case items of
        [] \<Rightarrow> Inl (ErrNew ''redis recovery script returned no result'')
      | item # rest \<Rightarrow>
          (case item of
             RInt moved \<Rightarrow>
               (case decode_matched rest [] of
                  Inl err \<Rightarrow> Inl err
                | Inr matched \<Rightarrow> Inr \<lparr>rr_Moved = nat moved, rr_MatchedLeaseIDs = matched\<rparr>)
           | _ \<Rightarrow> Inl (ErrNew (''redis recovery moved count has type '' @ reply_type item))))"

definition redis_Enqueue ::
  "'r redis_api \<Rightarrow> task \<Rightarrow> 'r RedisQueue \<Rightarrow> (go_error + unit) \<times> 'r RedisQueue" where
  "redis_Enqueue rd t q =
     (case encodeTask t of
        Inl err \<Rightarrow> (Inl err, q)
      | Inr encoded \<Rightarrow>
          (case redis_run (rd_LPUSH rd (rq_readyKey q) encoded) q of
             (Inl err, q') \<Rightarrow> (Inl err, q')
           | (Inr _, q') \<Rightarrow> (Inr (), q')))"

definition redis_Acquire ::
  "'r redis_api \<Rightarrow> cjson \<Rightarrow> string \<Rightarrow> 'r RedisQueue \<Rightarrow> (go_error + task) \<times> 'r RedisQueue" where
  "redis_Acquire rd js leaseID q =
     (case redis_run (acquireTaskScript rd js (rq_readyKey q) (rq_processingKey q) (rq_processingLeaseKey q) leaseID) q of
        (Inl err, q') \<Rightarrow> (Inl err, q')
      | (Inr None, q') \<Rightarrow> (Inl ErrQueueEmpty, q')
      | (Inr (Some encoded), q') \<Rightarrow> (decodeTask encoded, q'))"

definition runTaskScript :: "('r, int) script \<Rightarrow> 'r RedisQueue \<Rightarrow> (go_error + unit) \<times> 'r RedisQueue" where
  "runTaskScript script q =
     (case redis_run script q of
        (Inl err, q') \<Rightarrow> (Inl err, q')
      | (Inr result, q') \<Rightarrow> (transitionResultError result, q'))"

definition redis_Complete ::
  "'r redis_api \<Rightarrow> string \<Rightarrow> string \<Rightarrow> 'r RedisQueue \<Rightarrow> (go_error + unit) \<times> 'r RedisQueue" where
  "redis_Complete rd taskID leaseID q =
     runTaskScript (completeTaskScript rd (rq_processingKey q) (rq_processingLeaseKey q) taskID leaseID) q"

definition redis_Requeue ::
  "'r redis_api \<Rightarrow> cjson \<Rightarrow> string \<Rightarrow> string \<Rightarrow> 'r RedisQueue \<Rightarrow> (go_error + unit) \<times> 'r RedisQueue" where
  "redis_Requeue rd js taskID leaseID q =
     runTaskScript
       (requeueTaskScript rd js (rq_processingKey q) (rq_processingLeaseKey q) (rq_readyKey q) taskID leaseID) q"

definition redis_DeadLetter ::
  "'r redis_api \<Rightarrow> cjson \<Rightarrow> string \<Rightarrow> string \<Rightarrow> string \<Rightarrow> instant \<Rightarrow> 'r RedisQueue \<Rightarrow>
   (go_error + unit) \<times> 'r RedisQueue" where
  "redis_DeadLetter rd js taskID leaseID reason now q =
     runTaskScript
       (deadLetterTaskScript rd js (rq_processingKey q) (rq_processingLeaseKey q) (rq_deadKey q) taskID leaseID
          reason (RFC3339Nano 0 now)) q"

fun fence_args :: "lease_fence list \<Rightarrow> string list" where
  "fence_args [] = []"
| "fence_args (l # ls) = fence_TaskID l # fence_LeaseID l # fence_args ls"

definition redis_RecoverOrphanedProcessing ::
  "'r redis_api \<Rightarrow> lease_fence list \<Rightarrow> 'r RedisQueue \<Rightarrow> (go_error + recovery_result) \<times> 'r RedisQueue" where
  "redis_RecoverOrphanedProcessing rd activeLeases q =
     (case redis_run (recoverOrphanedProcessingScript rd (rq_processingKey q) (rq_processingLeaseKey q) (rq_readyKey q)
                        (fence_args activeLeases)) q of
        (Inl err, q') \<Rightarrow> (Inl err, q')
      | (Inr items, q') \<Rightarrow> (decodeRecoveryResult items, q'))"

text \<open>\<open>Val()\<close> of a failed call is zero. The three calls only read, so the queue stays as it is.\<close>

definition redis_val :: "nat \<Rightarrow> ('r, nat) script \<Rightarrow> 'r RedisQueue \<Rightarrow> nat" where
  "redis_val i cmd q = (case redis_call (fate_at i q) cmd (rq_server q) of (Inl _, _) \<Rightarrow> 0 | (Inr n, _) \<Rightarrow> n)"

definition redis_Stats :: "'r redis_api \<Rightarrow> 'r RedisQueue \<Rightarrow> queue_stats" where
  "redis_Stats rd q =
     \<lparr>qs_Ready = redis_val 0 (rd_LLEN rd (rq_readyKey q)) q,
      qs_Processing = redis_val 1 (rd_HLEN rd (rq_processingKey q)) q,
      qs_Dead = redis_val 2 (rd_LLEN rd (rq_deadKey q)) q\<rparr>"

definition redis_ops :: "'r redis_api \<Rightarrow> cjson \<Rightarrow> 'r RedisQueue backend_ops" where
  "redis_ops rd js =
     \<lparr>be_Enqueue = redis_Enqueue rd, be_Acquire = redis_Acquire rd js, be_Complete = redis_Complete rd,
      be_Requeue = redis_Requeue rd js, be_DeadLetter = redis_DeadLetter rd js,
      be_RecoverOrphanedProcessing = redis_RecoverOrphanedProcessing rd, be_Stats = redis_Stats rd\<rparr>"

end
