(* ===== verification/Daemon.thy ===== *)
theory Daemon
  imports Server Flags Redis_Queue
begin

text \<open>
  \<open>cmd/moxy/main.go\<close>: the flags and exit codes of the daemon, the choice of the backend, the journal file of
  a queue, the service the daemon runs and what it closes at the end. \<open>path/filepath\<close> (Unix) and \<open>net.IP\<close> are modelled;
  \<open>net.ResolveTCPAddr\<close>, which asks the resolver, is an argument.
\<close>

section \<open>Paths\<close>

fun split_slash :: "string \<Rightarrow> string list" where
  "split_slash [] = [[]]"
| "split_slash (c # cs) =
     (if c = CHR ''/'' then [] # split_slash cs
      else case split_slash cs of [] \<Rightarrow> [[c]] | x # xs \<Rightarrow> (c # x) # xs)"

fun join_slash :: "string list \<Rightarrow> string" where
  "join_slash [] = []"
| "join_slash [e] = e"
| "join_slash (e # f # es) = e @ CHR ''/'' # join_slash (f # es)"

text \<open>\<open>filepath.Clean\<close>: empty and \<open>.\<close> elements go, \<open>..\<close> removes the element before it. The elements kept so
  far are in reverse order.\<close>

definition clean_elem :: "bool \<Rightarrow> string \<Rightarrow> string list \<Rightarrow> string list" where
  "clean_elem rooted e acc =
     (if e = [] \<or> e = ''.'' then acc
      else if e = ''..'' then
        (case acc of
           [] \<Rightarrow> if rooted then [] else [''..'']
         | p # ps \<Rightarrow> if p = ''..'' then ''..'' # acc else ps)
      else e # acc)"

definition clean_elems :: "string \<Rightarrow> string list" where
  "clean_elems path = rev (fold (clean_elem (hd path = CHR ''/'')) (split_slash path) [])"

definition filepath_Clean :: "string \<Rightarrow> string" where
  "filepath_Clean path =
     (if path = [] then ''.''
      else let body = join_slash (clean_elems path)
           in if hd path = CHR ''/'' then CHR ''/'' # body else if body = [] then ''.'' else body)"

definition filepath_Join :: "string \<Rightarrow> string \<Rightarrow> string" where
  "filepath_Join dir name =
     (if dir = [] then (if name = [] then [] else filepath_Clean name)
      else if name = [] then filepath_Clean dir
      else filepath_Clean (dir @ CHR ''/'' # name))"

section \<open>Journals\<close>

text \<open>\<open>quoted\<close> is the \<open>%q\<close> verb on a string, which escapes what the Unicode tables call unprintable.\<close>

definition journalFileName :: "(string \<Rightarrow> string) \<Rightarrow> string \<Rightarrow> go_error + string" where
  "journalFileName quoted queueName =
     (if queueName = [] then Inl (ErrNew ''queue name must not be empty'')
      else if list_all name_char queueName then Inr (queueName @ ''.wal'')
      else Inl (ErrNew (''queue '' @ quoted queueName @
                '' cannot be journalled: names may use letters, digits, hyphen and underscore'')))"

text \<open>The world the journal factory is called in: the files, the faults of the system calls that open a
  journal, and those of the appends to come.\<close>

record disk_world =
  dw_disk :: disk
  dw_open :: io_env
  dw_appends :: "io_env list"

definition open_journal ::
  "wal_codec \<Rightarrow> (string \<Rightarrow> string) \<Rightarrow> string \<Rightarrow> 'w disk_world_scheme \<Rightarrow> string \<Rightarrow> go_error + (wal_state \<times> wal_record list)" where
  "open_journal c quoted dir w queueName =
     (case journalFileName quoted queueName of
        Inl err \<Rightarrow> Inl err
      | Inr name \<Rightarrow>
          (case Open c (dw_open w) (filepath_Join dir name) (dw_disk w) of
             (Inl err, _) \<Rightarrow> Inl err
           | (Inr lg, d) \<Rightarrow>
               Inr (\<lparr>ws_log = lg, ws_disk = d, ws_envs = dw_appends w\<rparr>, Recovered lg)))"

definition buildJournalFactory ::
  "wal_codec \<Rightarrow> (string \<Rightarrow> string) \<Rightarrow> string \<Rightarrow> ('w disk_world_scheme \<Rightarrow> string \<Rightarrow> go_error + (wal_state \<times> wal_record list)) option" where
  "buildJournalFactory c quoted dir = (if dir = [] then None else Some (open_journal c quoted dir))"

text \<open>The second result of \<open>buildJournalFactory\<close>: it closes the journals in the order they were opened, the \<open>i\<close>-th in
  the environment \<open>env i\<close>, and logs the errors.\<close>

fun closeJournals :: "(nat \<Rightarrow> io_env) \<Rightarrow> nat \<Rightarrow> Log list \<Rightarrow> go_error list \<times> Log list" where
  "closeJournals env i [] = ([], [])"
| "closeJournals env i (lg # logs) =
     (case Close (env i) lg of (res, lg') \<Rightarrow>
        (case closeJournals env (Suc i) logs of (errs, logs') \<Rightarrow>
           ((case res of Inl err \<Rightarrow> err # errs | Inr _ \<Rightarrow> errs), lg' # logs')))"

lemma closeJournals_all:
  "list_all (\<lambda>lg. log_file lg = None) (snd (closeJournals env i logs)) \<and> length (snd (closeJournals env i logs)) = length logs"
proof (induction logs arbitrary: i)
  case (Cons lg logs)
  have "log_file (snd (Close (env i) lg)) = None" by (simp add: Close_def Let_def split: option.split)
  with Cons [of "Suc i"] show ?case by (auto split: prod.splits)
qed simp

section \<open>The backend\<close>

text \<open>Which backend the daemon uses; \<open>None\<close> is \<open>os.Exit(1)\<close>. Redis must answer a ping.\<close>

datatype backend_kind = MemoryBackend | RedisBackend

definition backend_choice :: "string \<Rightarrow> bool \<Rightarrow> backend_kind option" where
  "backend_choice backend redis_answers =
     (if backend = ''memory'' then Some MemoryBackend
      else if backend = ''redis'' then (if redis_answers then Some RedisBackend else None)
      else None)"

definition memory_factory :: "'w \<Rightarrow> string \<Rightarrow> MemoryQueue" where
  "memory_factory w queueName = NewMemoryQueue"

text \<open>The queues of the Redis backend share one client. \<open>rw_server\<close> is the server and \<open>rw_net\<close> the fate of the coming
  calls when a queue is opened.\<close>

record 'r redis_world = disk_world +
  rw_server :: 'r
  rw_net :: "fate list"

definition redis_factory :: "('r, 'w) redis_world_scheme \<Rightarrow> string \<Rightarrow> 'r RedisQueue" where
  "redis_factory w queueName = NewRedisQueue (rw_server w) (rw_net w) queueName"

section \<open>The process\<close>

record daemon_flags =
  fl_addr :: string
  fl_maxConns :: i64
  fl_backend :: string
  fl_redisAddr :: string
  fl_walDir :: string
  fl_maxAttempts :: i64
  fl_version :: bool

definition defaultDaemonMaxAttempts :: i64 where "defaultDaemonMaxAttempts = 3"

definition default_flags :: daemon_flags where
  "default_flags = \<lparr>fl_addr = ''127.0.0.1:6380'', fl_maxConns = 1024, fl_backend = ''memory'',
     fl_redisAddr = ''localhost:6379'', fl_walDir = [], fl_maxAttempts = defaultDaemonMaxAttempts, fl_version = False\<rparr>"

text \<open>The flags \<open>run\<close> declares, and what it parses from the arguments.\<close>

definition formal_flags :: "string \<Rightarrow> flag_kind option" where
  "formal_flags =
     map_of [(''addr'', StringFlag), (''max-conns'', IntFlag), (''backend'', StringFlag), (''redis-addr'', StringFlag),
       (''wal-dir'', StringFlag), (''max-attempts'', IntFlag), (''version'', BoolFlag)]"

definition assign_flag :: "string \<times> flag_value \<Rightarrow> daemon_flags \<Rightarrow> daemon_flags" where
  "assign_flag nv fl =
     (case nv of
        (name, FString v) \<Rightarrow>
          if name = ''addr'' then fl\<lparr>fl_addr := v\<rparr>
          else if name = ''backend'' then fl\<lparr>fl_backend := v\<rparr>
          else if name = ''redis-addr'' then fl\<lparr>fl_redisAddr := v\<rparr>
          else if name = ''wal-dir'' then fl\<lparr>fl_walDir := v\<rparr>
          else fl
      | (name, FInt n) \<Rightarrow>
          if name = ''max-conns'' then fl\<lparr>fl_maxConns := n\<rparr>
          else if name = ''max-attempts'' then fl\<lparr>fl_maxAttempts := n\<rparr>
          else fl
      | (name, FBool b) \<Rightarrow> if name = ''version'' then fl\<lparr>fl_version := b\<rparr> else fl)"

definition parse_args :: "string list \<Rightarrow> daemon_flags option" where
  "parse_args args = map_option (\<lambda>vs. fold assign_flag vs default_flags) (parse_flags formal_flags args)"

text \<open>The service and the server of the daemon.\<close>

definition daemon_config :: "wal_codec \<Rightarrow> (string \<Rightarrow> string) \<Rightarrow> daemon_flags \<Rightarrow> (wal_state, 'w disk_world_scheme) ServiceConfig" where
  "daemon_config c quoted fl =
     \<lparr>sc_Engine = \<lparr>cfg_MaxAttempts = fl_maxAttempts fl, cfg_RequeueRetryDelay = 0\<rparr>,
      sc_Journal = buildJournalFactory c quoted (fl_walDir fl), sc_MaxQueues = 0\<rparr>"

definition daemon_service :: "wal_codec \<Rightarrow> (string \<Rightarrow> string) \<Rightarrow> daemon_flags \<Rightarrow> (MemoryQueue, wal_state, disk_world) Service" where
  "daemon_service c quoted fl = NewWithConfig memory_factory (daemon_config c quoted fl)"

definition daemon_redis_service ::
  "wal_codec \<Rightarrow> (string \<Rightarrow> string) \<Rightarrow> daemon_flags \<Rightarrow> ('r RedisQueue, wal_state, 'r redis_world) Service" where
  "daemon_redis_service c quoted fl = NewWithConfig redis_factory (daemon_config c quoted fl)"

definition daemon_server :: "daemon_flags \<Rightarrow> server_config" where
  "daemon_server fl = \<lparr>scfg_Addr = fl_addr fl, scfg_MaxConns = fl_maxConns fl\<rparr>"

text \<open>The exit code of \<open>run\<close>, from its arguments, whether Redis answers, and what \<open>ListenAndServe\<close> returns.\<close>

definition run_exit :: "string list \<Rightarrow> bool \<Rightarrow> serve_error option \<Rightarrow> nat" where
  "run_exit args redis_answers served =
     (case parse_args args of
        None \<Rightarrow> 2
      | Some fl \<Rightarrow>
          if fl_version fl then 0
          else if sint (fl_maxAttempts fl) < 0 then 2
          else case backend_choice (fl_backend fl) redis_answers of
                 None \<Rightarrow> 1
               | Some _ \<Rightarrow> (case served of Some _ \<Rightarrow> 1 | None \<Rightarrow> 0))"

text \<open>\<open>net.IP.To4\<close> and \<open>net.IP.IsLoopback\<close>; an IP address is its bytes.\<close>

definition ip_To4 :: "bytes \<Rightarrow> bytes option" where
  "ip_To4 ip =
     (if length ip = 4 then Some ip
      else if length ip = 16 \<and> take 10 ip = replicate 10 (CHR 0x00) \<and> take 2 (drop 10 ip) = [CHR 0xFF, CHR 0xFF]
      then Some (drop 12 ip) else None)"

definition ip_IsLoopback :: "bytes \<Rightarrow> bool" where
  "ip_IsLoopback ip =
     (case ip_To4 ip of
        Some ip4 \<Rightarrow> hd ip4 = CHR 0x7F
      | None \<Rightarrow> ip = replicate 15 (CHR 0x00) @ [CHR 0x01])"

definition shouldWarnUnauthenticatedBind :: "(string \<Rightarrow> go_error + bytes option) \<Rightarrow> string \<Rightarrow> bool" where
  "shouldWarnUnauthenticatedBind resolve addr =
     (if addr = [] then False
      else case resolve addr of
             Inl _ \<Rightarrow> False
           | Inr None \<Rightarrow> False
           | Inr (Some ip) \<Rightarrow> \<not> ip_IsLoopback ip)"

section \<open>Facts on the command line\<close>

definition print_args :: "daemon_flags \<Rightarrow> string list" where
  "print_args fl =
     [''--addr='' @ fl_addr fl, ''-max-conns'', show_int (sint (fl_maxConns fl)), ''--backend'', fl_backend fl,
      ''--redis-addr='' @ fl_redisAddr fl, ''-wal-dir='' @ fl_walDir fl,
      ''--max-attempts='' @ show_int (sint (fl_maxAttempts fl)), ''-version='' @ (if fl_version fl then ''true'' else ''false'')]"

lemma parse_print_args: "parse_args (print_args fl) = Some fl"
  by (simp add: print_args_def parse_args_def split_flag_def flag_name_def formal_flags_def flag_set_def ParseInt0_show_int
      ParseBool_def assign_flag_def default_flags_def)

section \<open>Facts on journal files\<close>

lemma split_slash_plain: "CHR ''/'' \<notin> set s \<Longrightarrow> split_slash s = [s]"
  by (induction s) auto

lemma split_slash_nonempty [simp]: "split_slash s \<noteq> []"
  by (induction s) (auto split: list.splits)

lemma split_slash_append: "split_slash (s @ CHR ''/'' # t) = split_slash s @ split_slash t"
proof (induction s)
  case (Cons c s)
  then show ?case by (cases "split_slash s") auto
qed simp

lemma join_slash_snoc: "es \<noteq> [] \<Longrightarrow> join_slash (es @ [e]) = join_slash es @ CHR ''/'' # e"
  by (induction es rule: join_slash.induct) auto

definition plain_elem :: "string \<Rightarrow> bool" where
  "plain_elem e \<longleftrightarrow> CHR ''/'' \<notin> set e \<and> e \<noteq> [] \<and> e \<noteq> ''.'' \<and> e \<noteq> ''..''"

lemma clean_elems_Join:
  assumes "dir \<noteq> []" and "plain_elem e"
  shows "clean_elems (dir @ CHR ''/'' # e) = clean_elems dir @ [e]"
  using assms by (simp add: clean_elems_def plain_elem_def split_slash_append split_slash_plain clean_elem_def)

text \<open>The last element of a path.\<close>

definition path_base :: "string \<Rightarrow> string" where
  "path_base p = rev (takeWhile (\<lambda>c. c \<noteq> CHR ''/'') (rev p))"

lemma path_base_elem: "CHR ''/'' \<notin> set e \<Longrightarrow> path_base (p @ CHR ''/'' # e) = e \<and> path_base e = e"
proof -
  assume a: "CHR ''/'' \<notin> set e"
  then have "takeWhile (\<lambda>c. c \<noteq> CHR ''/'') (rev e @ CHR ''/'' # rev p) = rev e"
    by (subst takeWhile_append2) auto
  moreover have "takeWhile (\<lambda>c. c \<noteq> CHR ''/'') (rev e) = rev e" using a by (intro takeWhile_eq_all_conv [THEN iffD2]) auto
  ultimately show ?thesis by (simp only: path_base_def rev_append rev.simps append_assoc append.simps rev_rev_ident simp_thms)
qed

lemma path_base_Join:
  assumes "dir \<noteq> []" and "plain_elem e"
  shows "path_base (filepath_Join dir e) = e"
proof -
  have slash: "CHR ''/'' \<notin> set e" and ne: "e \<noteq> []" using assms(2) by (simp_all add: plain_elem_def)
  have elems: "clean_elems (dir @ CHR ''/'' # e) = clean_elems dir @ [e]" by (rule clean_elems_Join [OF assms])
  show ?thesis
  proof (cases "clean_elems dir")
    case Nil
    with elems ne assms(1) path_base_elem [OF slash, of "[]"] show ?thesis
      by (simp add: filepath_Join_def filepath_Clean_def Let_def)
  next
    case (Cons a as)
    then have "join_slash (clean_elems (dir @ CHR ''/'' # e)) = join_slash (clean_elems dir) @ CHR ''/'' # e"
      using elems join_slash_snoc [of "clean_elems dir" e] by simp
    with ne assms(1) path_base_elem [OF slash, of "join_slash (clean_elems dir)"]
      path_base_elem [OF slash, of "CHR ''/'' # join_slash (clean_elems dir)"] show ?thesis
      by (simp add: filepath_Join_def filepath_Clean_def Let_def)
  qed
qed

lemma journalFileName_plain:
  assumes "journalFileName quoted q = Inr name"
  shows "name = q @ ''.wal'' \<and> plain_elem name"
proof -
  have q: "q \<noteq> []" "list_all name_char q" "name = q @ ''.wal''"
    using assms by (auto simp: journalFileName_def split: if_splits)
  have "\<not> name_char (CHR ''/'')" by (simp add: name_char_def)
  with q(2) have "CHR ''/'' \<notin> set q" by (auto simp: list_all_iff)
  with q show ?thesis by (cases q) (auto simp: plain_elem_def)
qed

lemma journalFileName_valid: "validQueueName q \<Longrightarrow> journalFileName quoted q = Inr (q @ ''.wal'')"
  by (simp add: journalFileName_def validQueueName_def)

text \<open>What the daemon's factories give an engine meets the conditions of a run.\<close>

lemma open_journal_ok:
  assumes "codec_ok c" and "list_all untorn (dw_appends w)" and "io_fault (dw_open w) = no_faults"
    and "open_journal c quoted dir w q = Inr (j, rs)"
  shows "wal_invar c j \<and> wal_records c j = rs \<and> list_all record_text rs"
proof -
  obtain path l d where op: "Open c (dw_open w) path (dw_disk w) = (Inr l, d)"
    and j: "j = \<lparr>ws_log = l, ws_disk = d, ws_envs = dw_appends w\<rparr>" and rs: "rs = Recovered l"
    using assms(4) by (auto simp: open_journal_def split: sum.splits prod.splits)
  have "log_ok c (Recovered l) (l, d)"
    using OpenWith_ok [OF op [unfolded Open_def] assms(3)] by blast
  with assms(1,2) j rs wal_records_log_ok [of c rs j] show ?thesis
    by (auto simp: wal_invar_def log_ok_def intro: intact_text)
qed

lemma daemon_factory_ok:
  assumes "codec_ok c" and "list_all untorn (dw_appends w)" and "io_fault (dw_open w) = no_faults"
    and "svc_factory s = memory_factory" and "svc_config s = daemon_config c quoted fl" and "range_order ord"
  shows "factory_ok mem_abs (mem_inv ord) (wal_records c) (wal_invar c) s w q"
  using assms open_journal_ok [OF assms(1-3)]
  by (auto simp: factory_ok_def memory_factory_def daemon_config_def buildJournalFactory_def mem_inv_def
      aq_distinct_def task_ids_def aq_empty_def split: if_splits)

end
