(* ===== verification/Protocol_Properties.thy ===== *)
theory Protocol_Properties
  imports Daemon Engine_Properties
begin

text \<open>
  The properties of what a client and an operator see: the RESP reader and writer, the commands, a whole
  session on a connection, the limits of the server, the loop of the reaper, and the journal files.
\<close>

section \<open>RESP\<close>

text \<open>C24. RESP round trip: what \<open>WriteValue\<close> appends to a connection for a value within the limits is read
  back by \<open>ReadValue\<close> as the same value, and the reader stops exactly where the next value begins.\<close>

theorem resp_roundtrip:
  assumes "resp_ok v" and "os_script w = []"
  shows "\<exists>bs. WriteValue v w = (Inr (), w\<lparr>os_data := os_data w @ bs\<rparr>) \<and>
    (\<forall>rest end. ReadValue \<lparr>is_data = bs @ rest, is_end = end\<rparr> = (Inr v, \<lparr>is_data = rest, is_end = end\<rparr>))"
  by (rule exI [of _ "wire v"])
    (simp add: WriteValue_wire(1) [OF assms(2) resp_ok_known [OF assms(1)]] ReadValue_wire [OF assms(1)])

theorem resp_roundtrip_witness:
  "\<exists>bs. WriteValue (Array [BulkString ''PING'', Integer (- 5)]) \<lparr>os_data = [], os_script = []\<rparr> =
      (Inr (), \<lparr>os_data = bs, os_script = []\<rparr>) \<and>
    ReadValue \<lparr>is_data = bs @ ''x'', is_end = ErrEOF\<rparr> = (Inr (Array [BulkString ''PING'', Integer (- 5)]), \<lparr>is_data = ''x'', is_end = ErrEOF\<rparr>)"
proof -
  have "resp_ok (Array [BulkString ''PING'', Integer (- 5)])" by (simp add: value_defs type_defs resp_limits)
  from resp_roundtrip [OF this, of "\<lparr>os_data = [], os_script = []\<rparr>"] show ?thesis by auto
qed

text \<open>C25. The limits of the reader: whatever bytes a client sends, a value the reader returns keeps the
  bounds on lines, bulk strings and arrays at every depth, has no stray fields, and took at least one byte
  from the stream; so every value that is read can be written and read again.\<close>

theorem resp_limits_hold:
  assumes "ReadValue s = (Inr v, s')"
  shows "resp_ok v \<and> length (is_data s') < length (is_data s) \<and>
    ReadValue \<lparr>is_data = wire v, is_end = is_end s\<rparr> = (Inr v, \<lparr>is_data = [], is_end = is_end s\<rparr>)"
proof -
  have "resp_ok v" using reader_resp_ok(1) assms by blast
  with ReadValue_shrinks [OF assms] ReadValue_wire [of v "\<lparr>is_data = wire v, is_end = is_end s\<rparr>" "[]"] show ?thesis by simp
qed

theorem resp_limits_hold_witness:
  "ReadValue \<lparr>is_data = ''$+02'' @ CRLF @ ''ab'' @ CRLF @ ''z'', is_end = ErrEOF\<rparr> =
     (Inr (BulkString ''ab''), \<lparr>is_data = ''z'', is_end = ErrEOF\<rparr>) \<and> resp_ok (BulkString ''ab'')"
proof -
  have "ReadValue \<lparr>is_data = ''$+02'' @ CRLF @ ''ab'' @ CRLF @ ''z'', is_end = ErrEOF\<rparr> =
     (Inr (BulkString ''ab''), \<lparr>is_data = ''z'', is_end = ErrEOF\<rparr>)"
    by (simp add: ReadValue.simps ReadByte_def readBulkString_def readLine_def ReadString_LF_def ReadFull_def CRLF_def
        HasSuffix_def TrimSuffix_def ParseInt_def digit_val_def type_defs resp_limits)
  from resp_limits_hold [OF this] this show ?thesis by blast
qed

section \<open>Commands\<close>

lemma engine_Fetch_deadline:
  "engine_Fetch ops app uuid now timeout e = (Inr l, e') \<Longrightarrow>
   lease_LeaseID l = uuid \<and> lease_CreatedAt l = now \<and> lease_ExpiresAt l = now + sint timeout"
  by (auto simp: engine_Fetch_def Let_def split: if_splits option.splits sum.splits prod.splits)

lemma svc_Fetch_deadline:
  "svc_Fetch ops app ord w uuid now q timeout s = (Inr l, s') \<Longrightarrow>
   lease_LeaseID l = uuid \<and> lease_ExpiresAt l = now + sint timeout"
  by (auto simp: svc_Fetch_def split: sum.splits prod.splits dest: engine_Fetch_deadline)

lemma fetch_accepted:
  assumes "handleFetch h m [q, timeout] s = (Inr r, s')"
  shows "\<exists>ms. ParseInt timeout = Some ms \<and> 1 \<le> sint ms \<and> sint ms \<le> 86400000 \<and>
    rsp_ExpiresAt r = m_now m + sint ms * 1000000 \<and> rsp_LeaseID r = m_uuid m"
proof -
  from assms obtain ms l where ms: "ParseInt timeout = Some ms" "1 \<le> sint ms" "sint ms \<le> maxLeaseTimeoutMS"
    and run: "svc_Fetch (h_ops h) (h_app h) (m_ord m) (m_world m) (m_uuid m) (m_now m) q (ms * 1000000) s = (Inr l, s')"
    and r: "rsp_ExpiresAt r = lease_ExpiresAt l" "rsp_LeaseID r = lease_LeaseID l"
    by (auto simp: handleFetch_def split: option.splits sum.splits prod.splits if_splits)
  from svc_Fetch_deadline [OF run] timeout_exact [OF ms(2,3)] ms r show ?thesis
    by (auto simp: maxLeaseTimeoutMS_def)
qed


section \<open>A session\<close>

lemma heap_Push_Nil: "heap_Push x [] = [x]"
  using heap_Push_mset [of x "[]"] by simp

text \<open>The queue \<open>q\<close> of the daemon on the in-memory backend without a journal, at the stages of a session: its
  engine with the tasks \<open>ready\<close>, the processing entries \<open>proc\<close>, the leases and the heap.\<close>

definition session_engine ::
  "daemon_flags \<Rightarrow> task list \<Rightarrow> (string, memoryProcessingEntry) gomap \<Rightarrow> (string, lease) gomap \<Rightarrow> expirationHeap \<Rightarrow>
   (MemoryQueue, wal_state) Engine" where
  "session_engine fl ready proc leases heap =
     \<lparr>en_ready = \<lparr>mq_ready = ready, mq_processing = proc, mq_dead = []\<rparr>, en_leases = leases, en_expirations = heap,
      en_config = \<lparr>cfg_MaxAttempts = fl_maxAttempts fl, cfg_RequeueRetryDelay = requeueRetryDelay\<rparr>,
      en_journal = None, en_recoveryErr = None\<rparr>"

lemma daemon_engineFor:
  assumes "validQueueName q" and "fl_walDir fl = []" and "range_order mo" and "\<forall>i. range_order (ord i)"
  shows "engineFor (memory_ops mo) app ord w q (daemon_service c quoted fl) =
    (Inr (session_engine fl [] [] [] []), put_engine q (session_engine fl [] [] [] []) (daemon_service c quoted fl))"
proof -
  have "mo [] = []" "ord i [] = []" for i
    using range_order_length [OF assms(3), of "[]"] range_order_length [of "ord i" "[]"] assms(4) by simp_all
  with assms(1,2) show ?thesis
    by (simp add: engineFor_def Live_def daemon_service_def daemon_config_def NewWithConfig_def buildJournalFactory_def maxQueues_def
        defaultMaxQueues_def NewEngineWithBackendAndConfig_def newEngine_def restore_def active_fences_def heap_Init_Nil
        mem_RecoverOrphanedProcessing_def memory_factory_def NewMemoryQueue_def Let_def List.map_filter_def session_engine_def)
qed

lemma engineFor_open: "validQueueName q \<Longrightarrow> engineFor ops app ord w q (put_engine q e s) = (Inr e, put_engine q e s)"
  by (simp add: engineFor_def)

lemma put_engine_again: "put_engine n e (put_engine n e' s) = put_engine n e s"
  by (simp add: put_engine_def)

definition session_lease :: "'w moment \<Rightarrow> i64 \<Rightarrow> task \<Rightarrow> lease" where
  "session_lease m ms t =
     \<lparr>lease_LeaseID = m_uuid m, lease_Task = t, lease_ExpiresAt = m_now m + sint (ms * 1000000), lease_CreatedAt = m_now m\<rparr>"

lemma client_names:
  "ToUpper um ''moxy.enqueue'' = EnqueueName" "ToUpper um EnqueueName = EnqueueName"
  "ToUpper um ''moxy.fetch'' = FetchName" "ToUpper um FetchName = FetchName"
  "ToUpper um ''moxy.ack'' = AckName" "ToUpper um AckName = AckName"
  "ToUpper um ''moxy.stats'' = StatsName" "ToUpper um StatsName = StatsName"
  unfolding ToUpper_def command_names by code_simp+

lemma client_command:
  "CommandFromRESP um (Array (BulkString name # map BulkString args)) = Inr \<lparr>cmd_Name = ToUpper um name, cmd_Args = args\<rparr>"
proof -
  have "command_parts (map BulkString args) = Inr args" by (induction args) (simp_all add: BulkString_def)
  then show ?thesis by (simp add: CommandFromRESP_def Array_def BulkString_def)
qed

lemmas client_commands = client_command [of _ _ "[a]" for a, simplified] client_command [of _ _ "[a, b]" for a b, simplified]

lemmas adapter_simps = adapter_Handle_def handler_Handle_def client_commands client_names responseToRESP_def zero_response_def Let_def

lemma name_distinct [simp]:
  "EnqueueName \<noteq> pingName" "FetchName \<noteq> pingName" "AckName \<noteq> pingName" "StatsName \<noteq> pingName"
  "FetchName \<noteq> EnqueueName" "AckName \<noteq> EnqueueName" "StatsName \<noteq> EnqueueName" "AckName \<noteq> FetchName" "StatsName \<noteq> FetchName"
  "StatsName \<noteq> AckName"
  by (simp_all add: command_names pingName_def)

lemma session_enqueue:
  assumes "h_ops h = memory_ops mo" "range_order mo" "validQueueName q" "fl_walDir fl = []" "\<forall>i. range_order (m_ord m i)"
  shows "adapter_Handle h m (Array [BulkString ''moxy.enqueue'', BulkString q, BulkString p]) (daemon_service c quoted fl) =
    (Array [BulkString ''task_id'', BulkString (m_uuid m)],
     put_engine q (session_engine fl [\<lparr>task_ID = m_uuid m, task_Payload = Some p, task_Attempts = 0\<rparr>] [] [] []) (daemon_service c quoted fl))"
  by (simp add: adapter_simps handleEnqueue_def svc_Enqueue_def assms daemon_engineFor engine_Enqueue_def ensureRecovered_def
        session_engine_def mem_Enqueue_def put_engine_again)

lemma session_fetch:
  assumes "h_ops h = memory_ops mo" "validQueueName q" "1 \<le> sint ms" "sint ms \<le> 86400000"
  shows "adapter_Handle h m (Array [BulkString ''moxy.fetch'', BulkString q, BulkString (show_int (sint ms))])
      (put_engine q (session_engine fl [t] [] [] []) s) =
    (Array [BulkString ''lease_id'', BulkString (m_uuid m), BulkString ''task_id'', BulkString (task_ID t),
            BulkString ''payload'', BulkString (payload_string (task_Payload t))],
     put_engine q (session_engine fl [] [(task_ID t, \<lparr>mpe_task = t, mpe_leaseID = m_uuid m\<rparr>)] [(m_uuid m, session_lease m ms t)]
       [\<lparr>ei_LeaseID = m_uuid m, ei_ExpiresAt = lease_ExpiresAt (session_lease m ms t)\<rparr>]) s)"
proof -
  have "0 < sint (ms * 1000000)"
    using timeout_exact [of ms] assms(3,4) by (simp add: maxLeaseTimeoutMS_def)
  with assms show ?thesis
    by (simp add: adapter_simps handleFetch_def svc_Fetch_def engineFor_open ParseInt_show_int maxLeaseTimeoutMS_def
        engine_Fetch_def ensureRecovered_def session_engine_def mem_Acquire_eq engine_record_def install_lease_def heap_Push_Nil
        session_lease_def put_engine_again)
qed

lemma session_ack:
  assumes "h_ops h = memory_ops mo" "range_order (m_rng m)" "svc_engines s = []" "lease_LeaseID l = lid"
  shows "adapter_Handle h m (Array [BulkString ''moxy.ack'', BulkString lid])
      (put_engine q (session_engine fl [] [(task_ID (lease_Task l), \<lparr>mpe_task = t, mpe_leaseID = lid\<rparr>)] [(lid, l)] heap) s) =
    (SimpleString ''OK'', put_engine q (session_engine fl [] [] [] heap) s)"
proof -
  have "m_rng m [q] = [q]"
    using assms(2) unfolding range_order_def by (metis mset_single_iff mset.simps(2) mset.simps(1))
  with assms(1,3,4) show ?thesis
    by (simp add: adapter_simps handleAck_def svc_Ack_def existingEngines_def put_engine_def
        engine_Ack_def ensureRecovered_def session_engine_def mem_Complete_def engine_record_def delete_lease_def)
qed

lemma session_stats:
  assumes "h_ops h = memory_ops mo" "validQueueName q"
  shows "adapter_Handle h m (Array [BulkString ''moxy.stats'', BulkString q]) (put_engine q (session_engine fl ready proc leases heap) s) =
    (Array [BulkString ''ready'', Integer (of_nat (length ready)), BulkString ''processing'', Integer (of_nat (length proc)),
            BulkString ''dead'', Integer 0, BulkString ''active_leases'', Integer (of_nat (length leases)),
            BulkString ''heap'', Integer (of_nat (length heap))], put_engine q (session_engine fl ready proc leases heap) s)"
  using assms by (simp add: adapter_simps handleStats_def svc_Stats_def engine_Stats_def session_engine_def mem_Stats_def eh_Len_def)

text \<open>The four requests of a client that works off one task, and the replies.\<close>

definition session_requests :: "string \<Rightarrow> bytes \<Rightarrow> i64 \<Rightarrow> string \<Rightarrow> resp_value list" where
  "session_requests q p ms lid =
     [Array [BulkString ''moxy.enqueue'', BulkString q, BulkString p],
      Array [BulkString ''moxy.fetch'', BulkString q, BulkString (show_int (sint ms))],
      Array [BulkString ''moxy.ack'', BulkString lid],
      Array [BulkString ''moxy.stats'', BulkString q]]"

definition session_replies :: "string \<Rightarrow> bytes \<Rightarrow> string \<Rightarrow> resp_value list" where
  "session_replies tid p lid =
     [Array [BulkString ''task_id'', BulkString tid],
      Array [BulkString ''lease_id'', BulkString lid, BulkString ''task_id'', BulkString tid, BulkString ''payload'', BulkString p],
      SimpleString ''OK'',
      Array [BulkString ''ready'', Integer 0, BulkString ''processing'', Integer 0, BulkString ''dead'', Integer 0,
             BulkString ''active_leases'', Integer 0, BulkString ''heap'', Integer 1]]"

lemma session_requests_ok:
  assumes "validQueueName q" "length p \<le> maxBulkLength" "length lid \<le> maxBulkLength"
  shows "list_all resp_ok (session_requests q p ms lid)"
proof -
  have "length q \<le> 64" using assms(1) by (simp add: validQueueName_def)
  with assms(2,3) length_show_int [of ms] show ?thesis
    by (simp add: session_requests_def value_defs type_defs resp_limits)
qed

text \<open>C16. A session over the wire: a client that sends the bytes of an enqueue, a fetch, an acknowledgement
  and a stats request, for any payload up to 1 MiB, any valid queue name and any timeout from 1 ms to a day,
  to a fresh daemon on the in-memory backend, receives the bytes of the task id, of the lease with the very
  payload it sent, of \<open>OK\<close>, and of statistics with no task left; then the connection ends. The heap still
  holds the item of the acknowledged lease.\<close>

theorem session_roundtrip:
  assumes "h_ops h = memory_ops mo" "range_order mo" "\<forall>i. range_order (m_ord (mts 0) i)" "range_order (m_rng (mts 2))"
    and "fl_walDir fl = []" "validQueueName q" "length p \<le> maxBulkLength" "length (m_uuid (mts 1)) \<le> maxBulkLength"
    and "1 \<le> sint ms" "sint ms \<le> 86400000" "os_script out = []"
  shows "fst (handleConn h mts (\<lambda>_ s. s) 0
      \<lparr>is_data = concat (map wire (session_requests q p ms (m_uuid (mts 1)))), is_end = ErrEOF\<rparr> out (daemon_service c quoted fl)) =
    out\<lparr>os_data := os_data out @ concat (map wire (session_replies (m_uuid (mts 0)) p (m_uuid (mts 1))))\<rparr>"
proof -
  define t where "t = \<lparr>task_ID = m_uuid (mts 0), task_Payload = Some p, task_Attempts = 0\<rparr>"
  let ?l = "session_lease (mts 1) ms t"
  have l: "lease_LeaseID ?l = m_uuid (mts 1)" "lease_Task ?l = t" by (simp_all add: session_lease_def)
  have "fst (handle_all h mts (\<lambda>_ s. s) 0 (session_requests q p ms (m_uuid (mts 1))) (daemon_service c quoted fl)) =
      session_replies (m_uuid (mts 0)) p (m_uuid (mts 1))"
    using session_enqueue [of h mo q fl "mts 0" p c quoted] session_fetch [of h mo q ms "mts 1" fl t "daemon_service c quoted fl"]
      session_ack [of h mo "mts 2" "daemon_service c quoted fl" ?l "m_uuid (mts 1)" q fl t] session_stats [of h mo q "mts 3" fl] assms l
    by (simp add: session_requests_def session_replies_def numeral_2_eq_2 numeral_3_eq_3 t_def payload_string_def
        daemon_service_def NewWithConfig_def)
  then show ?thesis
    using handleConn_pipeline [OF session_requests_ok [OF assms(6-8)] assms(11), of h mts "\<lambda>_ s. s" 0 ms "daemon_service c quoted fl"]
    by (simp split: prod.splits)
qed

definition example_host :: "(MemoryQueue, wal_state) host" where
  "example_host = \<lparr>h_ops = m_ops, h_app = w_app, h_upper = (\<lambda>s. s)\<rparr>"

definition example_moment :: "nat \<Rightarrow> disk_world moment" where
  "example_moment i =
     \<lparr>m_world = \<lparr>dw_disk = Map.empty, dw_open = io_ok, dw_appends = []\<rparr>, m_uuid = (if i = 0 then ''t1'' else ''l1''),
      m_now = 100, m_ord = any_order, m_rng = rev\<rparr>"

theorem session_roundtrip_witness:
  "fst (handleConn example_host example_moment (\<lambda>_ s. s) 0
     \<lparr>is_data = concat (map wire (session_requests ''q'' ''job'' 30000 ''l1'')), is_end = ErrEOF\<rparr>
     \<lparr>os_data = [], os_script = []\<rparr> (daemon_service no_codec (\<lambda>s. s) default_flags)) =
   \<lparr>os_data = concat (map wire (session_replies ''t1'' ''job'' ''l1'')), os_script = []\<rparr>"
  using session_roundtrip [of example_host "\<lambda>ks. ks" example_moment default_flags "''q''" "''job''" 30000
      "\<lparr>os_data = [], os_script = []\<rparr>" no_codec "\<lambda>s. s"]
  by (simp add: example_host_def example_moment_def range_order_id range_order_rev default_flags_def validQueueName_def
      name_char_def resp_limits)




section \<open>The server\<close>


text \<open>A server with one connection.\<close>

definition local_listener :: net_listener where
  "local_listener = \<lparr>ln_id = 7, ln_addr = ''127.0.0.1:6380''\<rparr>"

definition serving :: server_state where
  "serving = new_server\<lparr>ss_phase := Accepting, ss_slots := 1, ss_handlers := 1, ss_listener := Some local_listener,
     ss_local := Some local_listener\<rparr>"


section \<open>Journals of the daemon\<close>

text \<open>C34. The journal files of the daemon: every queue name the service accepts has a journal file; its path is
  the given directory followed by one plain element, so it never leaves the directory; and different queues
  never share a file.\<close>

theorem journal_files:
  assumes "dir \<noteq> []"
  shows "(validQueueName q \<longrightarrow> journalFileName quoted q = Inr (q @ ''.wal'')) \<and>
    (journalFileName quoted q = Inr name \<longrightarrow>
      clean_elems (dir @ CHR ''/'' # name) = clean_elems dir @ [name] \<and> path_base (filepath_Join dir name) = name) \<and>
    (journalFileName quoted q = Inr name \<longrightarrow> journalFileName quoted q' = Inr name' \<longrightarrow> q \<noteq> q' \<longrightarrow>
      filepath_Join dir name \<noteq> filepath_Join dir name')"
proof -
  have base: "path_base (filepath_Join dir n) = n \<and> clean_elems (dir @ CHR ''/'' # n) = clean_elems dir @ [n] \<and> n = p @ ''.wal''"
    if "journalFileName quoted p = Inr n" for p n
    using journalFileName_plain [OF that] path_base_Join [OF assms] clean_elems_Join [OF assms] by blast
  then show ?thesis using journalFileName_valid base [of q name] base [of q' name'] by (metis append_same_eq)
qed

theorem journal_files_witness:
  "journalFileName (\<lambda>s. s) ''jobs'' = Inr ''jobs.wal'' \<and> journalFileName (\<lambda>s. s) ''mail'' = Inr ''mail.wal'' \<and>
   filepath_Join ''/var//moxy/../wal/'' ''jobs.wal'' \<noteq> filepath_Join ''/var//moxy/../wal/'' ''mail.wal'' \<and>
   path_base (filepath_Join ''/var//moxy/../wal/'' ''jobs.wal'') = ''jobs.wal''"
proof -
  have "validQueueName ''jobs''" "validQueueName ''mail''" by (simp_all add: validQueueName_def name_char_def)
  then have names: "journalFileName (\<lambda>s. s) ''jobs'' = Inr ''jobs.wal''" "journalFileName (\<lambda>s. s) ''mail'' = Inr ''mail.wal''"
    using journal_files [of "''/x''" "''jobs''" "\<lambda>s. s"] journal_files [of "''/x''" "''mail''" "\<lambda>s. s"] by simp_all
  then show ?thesis
    using journal_files [of "''/var//moxy/../wal/''" "''jobs''" "\<lambda>s. s" "''jobs.wal''" "''mail''" "''mail.wal''"] by simp
qed

lemma restore_leases_unmatched: "rr_MatchedLeaseIDs result = [] \<Longrightarrow> restore_leases result live ls e = e"
  by (induction ls) (simp_all add: is_matched_def)

lemma memory_boot_leases:
  assumes "range_order mo"
  shows "en_leases (newEngine (memory_ops mo) app ord config journal recovered NewMemoryQueue) = []"
proof -
  have "mo [] = []" using range_order_length [OF assms, of "[]"] by simp
  then show ?thesis
    by (auto simp: newEngine_def restore_def Let_def mem_RecoverOrphanedProcessing_def NewMemoryQueue_def restore_leases_unmatched
        dest: restore_stale_frame split: prod.split sum.split)
qed

text \<open>C31. What the daemon opens keeps the guarantees: opening a queue on the in-memory backend, with a journal
  file of any content or none, and system calls that succeed, continues the run of the service with an
  empty queue, so the conservation and liveness properties hold for it. No lease is reinstated, since the
  tasks of the leases in the file were in the memory of an earlier process.\<close>

theorem daemon_opens_queue:
  assumes "codec_ok c" and "list_all untorn (dw_appends w)" and "io_fault (dw_open w) = no_faults"
    and "range_order mo" and "\<forall>i. range_order (ord i)"
    and "service_run (memory_ops mo) mem_abs (mem_inv mo) any_task (wal_append c) (wal_records c) (wal_invar c) E C T s"
    and "svc_factory s = memory_factory" and "svc_config s = daemon_config c quoted fl" and "engine_at s q = None"
    and "engineFor (memory_ops mo) (wal_append c) ord w q s = (Inr e, s')"
  shows "service_run (memory_ops mo) mem_abs (mem_inv mo) any_task (wal_append c) (wal_records c) (wal_invar c)
      (E(q := {#})) (C(q := {#})) T s' \<and> engine_at s' q = Some e \<and> en_leases e = []"
proof -
  have fok: "factory_ok mem_abs (mem_inv mo) (wal_records c) (wal_invar c) s w q"
    by (rule daemon_factory_ok [OF assms(1-3,7,8,4)])
  have "task_ids (mem_abs (svc_factory s w q)) = {#}"
    by (simp add: assms(7) memory_factory_def task_ids_def aq_empty_def)
  with service_run.opened [OF assms(6,9) fok _ assms(10)] assms(5)
  have run: "service_run (memory_ops mo) mem_abs (mem_inv mo) any_task (wal_append c) (wal_records c) (wal_invar c) (E(q := {#})) (C(q := {#})) T s'"
    by simp
  from assms(10) show ?thesis
  proof (cases rule: engineFor_cases)
    case (created e1 journal recovered)
    then show ?thesis using run memory_boot_leases [OF assms(4)] assms(7) by (simp add: memory_factory_def)
  qed (use assms(9) in auto)
qed

theorem daemon_opens_queue_witness:
  "\<exists>e s'. engineFor m_ops j_app any_order \<lparr>dw_disk = [''/wal/q.wal'' \<mapsto> ''junk''], dw_open = io_ok, dw_appends = []\<rparr> ''q''
       (daemon_service lease_codec (\<lambda>s. s) (default_flags\<lparr>fl_walDir := ''/wal''\<rparr>)) = (Inr e, s') \<and>
     engine_at s' ''q'' = Some e \<and> en_leases e = []"
proof -
  let ?w = "\<lparr>dw_disk = [''/wal/q.wal'' \<mapsto> ''junk''], dw_open = io_ok, dw_appends = []\<rparr>"
  let ?s = "daemon_service lease_codec (\<lambda>s. s) (default_flags\<lparr>fl_walDir := ''/wal''\<rparr>)"
  have start: "service_run m_ops mem_abs (mem_inv (\<lambda>ks. ks)) any_task j_app (wal_records lease_codec) (wal_invar lease_codec)
      (\<lambda>_. {#}) (\<lambda>_. {#}) (\<lambda>_. 0) ?s"
    unfolding daemon_service_def by (rule service_run.start)
  have q: "validQueueName ''q''" by (simp add: validQueueName_def name_char_def)
  obtain l d where "OpenWith lease_codec io_ok (filepath_Join ''/wal'' ''q.wal'') True (dw_disk ?w) = (Inr l, d)"
    using OpenWith_total [of io_ok] by (metis io_ok_def io_env.select_convs(1))
  then have "open_journal lease_codec (\<lambda>s. s) ''/wal'' ?w ''q'' = Inr (\<lparr>ws_log = l, ws_disk = d, ws_envs = []\<rparr>, Recovered l)"
    using journalFileName_valid [OF q] by (simp add: open_journal_def Open_def)
  then have "\<exists>e s'. engineFor m_ops j_app any_order ?w ''q'' ?s = (Inr e, s')"
    using q by (simp add: engineFor_def daemon_service_def daemon_config_def NewWithConfig_def buildJournalFactory_def maxQueues_def
        defaultMaxQueues_def default_flags_def Let_def)
  then obtain e s' where run: "engineFor m_ops j_app any_order ?w ''q'' ?s = (Inr e, s')" by blast
  from daemon_opens_queue [OF lease_codec_ok _ _ range_order_id _ start _ _ _ run] run show ?thesis
    by (simp add: daemon_service_def NewWithConfig_def io_ok_def range_order_id)
qed

end
