(* ===== verification/Redis_Contract.thy ===== *)
theory Redis_Contract
  imports Redis_Queue
begin

text \<open>
  What the Redis backend relies on (locale \<open>redis_server\<close>): the documented effect of the eight commands on the
  lists and hashes of the server, and that \<open>cjson\<close> reads the documents of \<open>encoding/json\<close> and writes such ones. From these the backend keeps the contract of the engine: \<open>reliable_backend\<close> when every call is
  answered, \<open>backend_contract\<close> when replies and requests get lost but no command runs twice.
\<close>

section \<open>Texts\<close>

text \<open>The tasks a text can carry through \<open>cjson\<close>, which keeps 14 digits of a number, and the table of a task.\<close>

definition task_fits :: "task \<Rightarrow> bool" where
  "task_fits t \<longleftrightarrow> utf8_valid (task_ID t) \<and> 0 \<le> sint (task_Attempts t) \<and> sint (task_Attempts t) < 10 ^ 14"

definition redis_room :: "task \<Rightarrow> bool" where
  "redis_room t \<longleftrightarrow> sint (task_Attempts t) + 1 < 10 ^ 14"

definition lua_task :: "task \<Rightarrow> lua" where
  "lua_task t =
     LTab [''id'' \<mapsto> LStr (task_ID t),
           ''payload'' \<mapsto> (case task_Payload t of None \<Rightarrow> LNull | Some p \<Rightarrow> LStr (base64 p)),
           ''attempts'' \<mapsto> LNum (sint (task_Attempts t))]"

text \<open>The documents that show a task and a dead task: objects with the fields in any order, their strings escaped in
  any way. The time of a dead letter is written without escapes.\<close>

definition shows_string :: "string \<Rightarrow> json \<Rightarrow> bool" where
  "shows_string s v \<longleftrightarrow> (\<exists>raw. v = JString raw \<and> unquote raw = s)"

definition shows_bytes :: "bytes option \<Rightarrow> json \<Rightarrow> bool" where
  "shows_bytes p v \<longleftrightarrow> (case p of None \<Rightarrow> v = JNull | Some b \<Rightarrow> shows_string (base64 b) v)"

definition shows_fields :: "(string \<times> (json \<Rightarrow> bool)) list \<Rightarrow> json \<Rightarrow> bool" where
  "shows_fields fs v \<longleftrightarrow>
     (\<exists>ms. v = JObject ms \<and> (unquote \<circ> fst) ` set ms = set (map fst fs) \<and>
        (\<forall>(k, x) \<in> set ms. \<exists>P. map_of fs (unquote k) = Some P \<and> P x))"

definition shows_task :: "task \<Rightarrow> json \<Rightarrow> bool" where
  "shows_task t =
     shows_fields [(''id'', shows_string (task_ID t)), (''payload'', shows_bytes (task_Payload t)),
       (''attempts'', \<lambda>v. v = JNumber (show_int (sint (task_Attempts t))))]"

definition shows_dead :: "dead_task \<Rightarrow> json \<Rightarrow> bool" where
  "shows_dead d =
     shows_fields [(''task'', shows_task (dead_Task d)), (''reason'', shows_string (dead_Reason d)),
       (''dead_at'', \<lambda>v. v = JString (RFC3339Nano 0 (dead_DeadAt d)))]"

text \<open>An entry of the queue: a text of a task, for Go and for the scripts.\<close>

definition entry :: "string \<Rightarrow> task \<Rightarrow> bool" where
  "entry s t \<longleftrightarrow> (\<exists>v. parse_json s = Some v \<and> shows_task t v) \<and> task_fits t \<and> CHR 0x00 \<notin> set (task_ID t)"

definition text_task :: "string \<Rightarrow> task" where
  "text_task s = (case decodeTask s of Inr t \<Rightarrow> t | Inl _ \<Rightarrow> zero_task)"

definition text_dead :: "string \<Rightarrow> dead_task" where
  "text_dead s = (case decodeDeadTask s of Inr d \<Rightarrow> d | Inl _ \<Rightarrow> zero_dead)"

subsection \<open>Go reads them\<close>

lemma decode_string_shown: "shows_string s v \<Longrightarrow> decode_string v cur = Inr s"
  by (auto simp: shows_string_def decode_string_def)

lemma decode_bytes_shown: "shows_bytes p v \<Longrightarrow> decode_bytes v cur = Inr p"
  by (auto simp: shows_bytes_def shows_string_def decode_bytes_def base64_decode_base64 split: option.splits)

definition over_task :: "string set \<Rightarrow> task \<Rightarrow> task \<Rightarrow> task" where
  "over_task K t cur =
     \<lparr>task_ID = (if ''id'' \<in> K then task_ID t else task_ID cur),
      task_Payload = (if ''payload'' \<in> K then task_Payload t else task_Payload cur),
      task_Attempts = (if ''attempts'' \<in> K then task_Attempts t else task_Attempts cur)\<rparr>"

lemma unquote_names:
  "unquote ''id'' = ''id''" "unquote ''payload'' = ''payload''" "unquote ''attempts'' = ''attempts''"
  "unquote ''task'' = ''task''" "unquote ''reason'' = ''reason''" "unquote ''dead_at'' = ''dead_at''"
  by (rule unquote_plain, simp add: plain_def byte_in_def)+

lemma task_field_shown:
  assumes "map_of [(''id'', shows_string (task_ID t)), (''payload'', shows_bytes (task_Payload t)),
      (''attempts'', \<lambda>v. v = JNumber (show_int (sint (task_Attempts t))))] (unquote k) = Some P" and "P v"
  shows "task_field k v cur = Inr (over_task {unquote k} t cur)"
proof -
  consider "unquote k = ''id''" | "unquote k = ''payload''" | "unquote k = ''attempts''"
    using assms(1) by (auto split: if_splits)
  then show ?thesis
  proof cases
    case 1
    then have "same_name k n = same_name ''id'' n" for n by (simp add: same_name_def unquote_names)
    with 1 assms show ?thesis by (cases cur) (auto simp: task_field_def same_name_literals decode_string_shown over_task_def)
  next
    case 2
    then have "same_name k n = same_name ''payload'' n" for n by (simp add: same_name_def unquote_names)
    with 2 assms show ?thesis by (cases cur) (auto simp: task_field_def same_name_literals decode_bytes_shown over_task_def)
  next
    case 3
    then have "same_name k n = same_name ''attempts'' n" for n by (simp add: same_name_def unquote_names)
    with 3 assms show ?thesis by (cases cur) (auto simp: task_field_def same_name_literals decode_int_printed over_task_def)
  qed
qed

lemma decode_Task_shown:
  assumes "shows_task t v"
  shows "decode_Task v cur = Inr t"
proof -
  let ?f = "[(''id'', shows_string (task_ID t)), (''payload'', shows_bytes (task_Payload t)),
      (''attempts'', \<lambda>v. v = JNumber (show_int (sint (task_Attempts t))))]"
  obtain ms where v: "v = JObject ms" and keys: "(unquote \<circ> fst) ` set ms = {''id'', ''payload'', ''attempts''}"
    and vals: "\<forall>(k, x) \<in> set ms. \<exists>P. map_of ?f (unquote k) = Some P \<and> P x"
    using assms unfolding shows_task_def shows_fields_def by auto
  have "decode_members task_field ms cur = Inr (over_task ((unquote \<circ> fst) ` set ms) t cur)"
    using vals
  proof (induction ms arbitrary: cur)
    case (Cons kv ms)
    obtain k x where kv: "kv = (k, x)" by (cases kv)
    with Cons.prems obtain P where "map_of ?f (unquote k) = Some P" "P x" by auto
    note this = task_field_shown [OF this]
    with Cons kv show ?case by (simp add: over_task_def)
  qed (simp add: over_task_def)
  then show ?thesis unfolding keys v by (simp add: decode_Task_def decode_struct_def over_task_def)
qed

definition over_dead :: "string set \<Rightarrow> dead_task \<Rightarrow> dead_task \<Rightarrow> dead_task" where
  "over_dead K d cur =
     \<lparr>dead_Task = (if ''task'' \<in> K then dead_Task d else dead_Task cur),
      dead_Reason = (if ''reason'' \<in> K then dead_Reason d else dead_Reason cur),
      dead_DeadAt = (if ''dead_at'' \<in> K then dead_DeadAt d else dead_DeadAt cur)\<rparr>"

lemma decode_time_clock: "clock_text t \<Longrightarrow> decode_time (JString (RFC3339Nano 0 t)) cur = Inr t"
  using parse_format_time [OF format_time_clock, of t] by (simp add: clock_text_def decode_time_def)

lemma dead_field_shown:
  assumes "map_of [(''task'', shows_task (dead_Task d)), (''reason'', shows_string (dead_Reason d)),
      (''dead_at'', \<lambda>v. v = JString (RFC3339Nano 0 (dead_DeadAt d)))] (unquote k) = Some P" and "P v"
    and "clock_text (dead_DeadAt d)"
  shows "dead_field k v cur = Inr (over_dead {unquote k} d cur)"
proof -
  consider "unquote k = ''task''" | "unquote k = ''reason''" | "unquote k = ''dead_at''"
    using assms(1) by (auto split: if_splits)
  then show ?thesis
  proof cases
    case 1
    then have "same_name k n = same_name ''task'' n" for n by (simp add: same_name_def unquote_names)
    with 1 assms show ?thesis by (cases cur) (auto simp: dead_field_def same_name_literals decode_Task_shown over_dead_def)
  next
    case 2
    then have "same_name k n = same_name ''reason'' n" for n by (simp add: same_name_def unquote_names)
    with 2 assms show ?thesis by (cases cur) (auto simp: dead_field_def same_name_literals decode_string_shown over_dead_def)
  next
    case 3
    then have "same_name k n = same_name ''dead_at'' n" for n by (simp add: same_name_def unquote_names)
    with 3 assms show ?thesis by (cases cur) (auto simp: dead_field_def same_name_literals decode_time_clock over_dead_def)
  qed
qed

lemma decode_Dead_shown:
  assumes "shows_dead d v" and "clock_text (dead_DeadAt d)"
  shows "decode_struct dead_field v cur = Inr d"
proof -
  let ?f = "[(''task'', shows_task (dead_Task d)), (''reason'', shows_string (dead_Reason d)),
      (''dead_at'', \<lambda>v. v = JString (RFC3339Nano 0 (dead_DeadAt d)))]"
  obtain ms where v: "v = JObject ms" and keys: "(unquote \<circ> fst) ` set ms = {''task'', ''reason'', ''dead_at''}"
    and vals: "\<forall>(k, x) \<in> set ms. \<exists>P. map_of ?f (unquote k) = Some P \<and> P x"
    using assms unfolding shows_dead_def shows_fields_def by auto
  have "decode_members dead_field ms cur = Inr (over_dead ((unquote \<circ> fst) ` set ms) d cur)"
    using vals
  proof (induction ms arbitrary: cur)
    case (Cons kv ms)
    obtain k x where kv: "kv = (k, x)" by (cases kv)
    with Cons.prems obtain P where "map_of ?f (unquote k) = Some P" "P x" by auto
    note this = dead_field_shown [OF this assms(2)]
    with Cons kv show ?case by (simp add: over_dead_def)
  qed (simp add: over_dead_def)
  then show ?thesis unfolding keys v by (simp add: decode_struct_def over_dead_def)
qed

lemma entry_decode: "entry s t \<Longrightarrow> decodeTask s = Inr t"
  by (auto simp: entry_def decodeTask_def unmarshal_def decode_Task_shown)

lemma entry_task: "entry s t \<Longrightarrow> text_task s = t"
  by (simp add: entry_decode text_task_def)

lemma text_dead_shown: "parse_json s = Some v \<Longrightarrow> shows_dead d v \<Longrightarrow> clock_text (dead_DeadAt d) \<Longrightarrow> text_dead s = d"
  by (simp add: text_dead_def decodeDeadTask_def unmarshal_def decode_Dead_shown)

lemma marshal_entry:
  assumes "task_fits t" and "CHR 0x00 \<notin> set (task_ID t)"
  shows "entry (marshal_Task t) t"
proof -
  have "unquote (appendString (task_ID t)) = task_ID t"
    using unquote_appendString [of "task_ID t" "[]"] assms(1) by (simp add: task_fits_def)
  moreover have "shows_bytes p (json_of_bytes p)" for p
    using unquote_plain [of "base64 b" for b] base64_plain by (auto simp: shows_bytes_def shows_string_def json_of_bytes_def split: option.split)
  ultimately have "shows_task t (json_of_Task t)"
    by (simp add: shows_task_def shows_fields_def json_of_Task_def unquote_names shows_string_def)
  moreover have "parse_json (marshal_Task t) = Some (json_of_Task t)"
    by (rule parse_denotes [OF denotes_Task]) (simp add: maxNestingDepth_def)
  ultimately show ?thesis using assms by (auto simp: entry_def)
qed

section \<open>The queue in the server\<close>

definition store_abs ::
  "('r \<Rightarrow> string \<Rightarrow> string list) \<Rightarrow> ('r \<Rightarrow> string \<Rightarrow> string \<rightharpoonup> string) \<Rightarrow> redisQueueKeys \<Rightarrow> 'r \<Rightarrow> aqueue" where
  "store_abs rlist rhash K r =
     \<lparr>aq_ready = rev (map (text_task) (rlist r (rk_ready K))),
      aq_proc = (\<lambda>tid. case rhash r (rk_processing K) tid of
          None \<Rightarrow> None
        | Some s \<Rightarrow> map_option (\<lambda>l. (text_task s, l)) (rhash r (rk_processingLeases K) tid)),
      aq_dead = rev (map (text_dead) (rlist r (rk_dead K)))\<rparr>"

definition keys_ok :: "redisQueueKeys \<Rightarrow> bool" where
  "keys_ok K \<longleftrightarrow> distinct [rk_ready K, rk_processing K, rk_processingLeases K, rk_dead K]"

text \<open>What the other keys of the server hold: \<open>W k\<close> is the list and the hash under \<open>k\<close>.\<close>

type_synonym other_keys = "string \<Rightarrow> string list \<times> (string \<rightharpoonup> string)"

definition own_keys :: "redisQueueKeys \<Rightarrow> string set" where
  "own_keys K = {rk_ready K, rk_processing K, rk_processingLeases K, rk_dead K}"

lemma own_keys [simp]:
  "rk_ready K \<in> own_keys K" "rk_processing K \<in> own_keys K" "rk_processingLeases K \<in> own_keys K" "rk_dead K \<in> own_keys K"
  by (simp_all add: own_keys_def)

definition store_ok ::
  "('r \<Rightarrow> string \<Rightarrow> string list) \<Rightarrow> ('r \<Rightarrow> string \<Rightarrow> string \<rightharpoonup> string) \<Rightarrow> other_keys \<Rightarrow> redisQueueKeys \<Rightarrow> 'r \<Rightarrow> bool" where
  "store_ok rlist rhash W K r \<longleftrightarrow>
     rhash r (rk_ready K) = Map.empty \<and> rhash r (rk_dead K) = Map.empty \<and>
     rlist r (rk_processing K) = [] \<and> rlist r (rk_processingLeases K) = [] \<and>
     (\<forall>s \<in> set (rlist r (rk_ready K)). \<exists>t. entry s t) \<and>
     (\<forall>tid s. rhash r (rk_processing K) tid = Some s \<longrightarrow> (\<exists>t. entry s t \<and> task_ID t = tid)) \<and>
     dom (rhash r (rk_processingLeases K)) = dom (rhash r (rk_processing K)) \<and>
     (\<forall>tid l. rhash r (rk_processingLeases K) tid = Some l \<longrightarrow> CHR 0x00 \<notin> set l) \<and>
     (\<forall>k. k \<notin> own_keys K \<longrightarrow> (rlist r k, rhash r k) = W k)"

definition queue_keys :: "'r RedisQueue \<Rightarrow> redisQueueKeys" where
  "queue_keys q =
     \<lparr>rk_ready = rq_readyKey q, rk_processing = rq_processingKey q,
      rk_processingLeases = rq_processingLeaseKey q, rk_dead = rq_deadKey q\<rparr>"

text \<open>The server runs the command of a call at most once.\<close>

definition fate_once :: "fate \<Rightarrow> bool" where
  "fate_once f \<longleftrightarrow>
     (case ft_error f of None \<Rightarrow> ft_lost f = 0 | Some err \<Rightarrow> transport_error err \<and> ft_lost f \<le> 1)"

definition redis_abs ::
  "('r \<Rightarrow> string \<Rightarrow> string list) \<Rightarrow> ('r \<Rightarrow> string \<Rightarrow> string \<rightharpoonup> string) \<Rightarrow> 'r RedisQueue \<Rightarrow> aqueue" where
  "redis_abs rlist rhash q = store_abs rlist rhash (queue_keys q) (rq_server q)"

definition redis_inv ::
  "('r \<Rightarrow> string \<Rightarrow> string list) \<Rightarrow> ('r \<Rightarrow> string \<Rightarrow> string \<rightharpoonup> string) \<Rightarrow> other_keys \<Rightarrow> (fate list \<Rightarrow> bool) \<Rightarrow>
   'r RedisQueue \<Rightarrow> bool" where
  "redis_inv rlist rhash W net q \<longleftrightarrow>
     keys_ok (queue_keys q) \<and> store_ok rlist rhash W (queue_keys q) (rq_server q) \<and> net (rq_net q)"

section \<open>Facts on the client\<close>

lemma fate_once_answered: "fate_once answered"
  by (simp add: fate_once_def answered_def)

lemma redis_run_keys:
  "redis_run cmd q = (res, q') \<Longrightarrow> queue_keys q' = queue_keys q \<and> rq_net q' = tl (rq_net q)"
  by (auto simp: redis_run_def queue_keys_def split: prod.splits)

lemma redis_run_once:
  assumes "cmd (rq_server q) = (Inr a, r')" and "fate_once (fate_at 0 q)" and "redis_run cmd q = (res, q')"
  shows "res = Inr a \<and> rq_server q' = r' \<or>
    (\<exists>err. res = Inl err \<and> transport_error err \<and> (rq_server q' = rq_server q \<or> rq_server q' = r'))"
proof (cases "ft_error (fate_at 0 q)")
  case None
  with assms show ?thesis by (auto simp: redis_run_def redis_call_def fate_once_def Let_def)
next
  case (Some err)
  then have "transport_error err" "ft_lost (fate_at 0 q) = 0 \<or> ft_lost (fate_at 0 q) = 1"
    using assms(2) by (auto simp: fate_once_def)
  with Some assms(1,3) show ?thesis by (auto simp: redis_run_def redis_call_def Let_def)
qed

lemma redis_run_answered:
  assumes "cmd (rq_server q) = (Inr a, r')" and "rq_net q = []"
  shows "redis_run cmd q = (Inr a, q\<lparr>rq_server := r'\<rparr>)"
  using assms by (simp add: redis_run_def redis_call_def fate_at_def answered_def)

section \<open>Facts on the scripts\<close>

lemma lua_simps [simp]:
  "lua_bind (lua_lift (Inr v)) f r = f v r" "lua_return a s = (Inr a, s)" "lua_lift w u = (w, u)"
  by (simp_all add: lua_bind_def lua_lift_def lua_return_def)

lemma lua_bind_Inr: "m r = (Inr a, r') \<Longrightarrow> lua_bind m f r = f a r'"
  by (simp add: lua_bind_def)

lemma active_keys_fences: "active_keys (fence_args ls) = map (\<lambda>f. fence_key (fence_TaskID f) (fence_LeaseID f)) ls"
  by (induction ls) simp_all

lemma fence_key_eq:
  assumes "CHR 0x00 \<notin> set tid" and "CHR 0x00 \<notin> set l"
  shows "fence_key tid l = fence_key tid' l' \<longleftrightarrow> tid = tid' \<and> l = l'"
proof
  let ?nul = "CHR 0x00 :: char"
  assume eq: "fence_key tid l = fence_key tid' l'"
  have "count_list (fence_key tid l) ?nul = 1" using assms by (simp add: fence_key_def)
  then have "count_list tid' ?nul = 0" unfolding eq by (simp add: fence_key_def)
  then have "?nul \<notin> set tid'" by (simp add: count_list_0_iff)
  with assms(1) have "takeWhile (\<lambda>c. c \<noteq> ?nul) (fence_key tid l) = tid" "takeWhile (\<lambda>c. c \<noteq> ?nul) (fence_key tid' l') = tid'"
    unfolding fence_key_def by (auto simp: takeWhile_append2 takeWhile_tail)
  with eq have "tid = tid'" by simp
  with eq show "tid = tid' \<and> l = l'" by (simp add: fence_key_def)
qed simp

lemma decode_matched_strings:
  "\<exists>m. decode_matched (map RStr ls) acc = Inr m \<and> set (gm_keys m) = set (gm_keys acc) \<union> set ls"
proof (induction ls arbitrary: acc)
  case (Cons l ls)
  have "set (gm_keys (gm_put l () acc)) = insert l (set (gm_keys acc))"
    using gm_keys_dom [of "gm_put l () acc"] gm_keys_dom [of acc] by (simp add: gomap_simps)
  with Cons [of "gm_put l () acc"] show ?case by auto
qed simp

lemma attempts_bump: "redis_room t \<Longrightarrow> task_fits t \<Longrightarrow> sint (task_Attempts t + 1) = sint (task_Attempts t) + 1"
  by (simp add: redis_room_def task_fits_def sint_word_ariths(1) signed_take_bit_int_eq_self_iff)

lemma task_fits_bump: "redis_room t \<Longrightarrow> task_fits t \<Longrightarrow> task_fits (bump_attempts t)"
  using attempts_bump [of t] by (simp add: task_fits_def redis_room_def)

lemma bumped_entry_task:
  assumes "cj_decode js s = Inr (lua_task t)" and "redis_room t" and fits: "task_fits t"
  shows "bumped_entry js s r = (Inr (lua_task (bump_attempts t)), r)"
proof -
  have "round53 (sint (task_Attempts t) + 1) = sint (task_Attempts t) + 1"
    using fits assms(2) by (simp add: round53_def task_fits_def redis_room_def)
  with attempts_bump [OF assms(2) fits] show ?thesis
    by (simp add: bumped_entry_def assms(1) lua_task_def lua_index_def lua_or_def lua_add_def lua_set_def fun_upd_twist)
qed

section \<open>The server\<close>

text \<open>The list of strings that \<open>HGETALL\<close> returns for a list of fields and values.\<close>

fun flat :: "(string \<times> string) list \<Rightarrow> string list" where
  "flat [] = []"
| "flat ((k, v) # ps) = k # v # flat ps"

text \<open>Recovery: the entry of a task is kept when its fence is one of the active keys.\<close>

definition kept :: "string list \<Rightarrow> (string \<rightharpoonup> string) \<Rightarrow> string \<Rightarrow> bool" where
  "kept active L tid \<longleftrightarrow> (case L tid of None \<Rightarrow> False | Some l \<Rightarrow> fence_key tid l \<in> set active)"

text \<open>\<open>rlist r k\<close> is the list under the key \<open>k\<close>, empty where there is none, and \<open>rhash r k\<close> the hash. A command
  for lists works on a key that holds no hash, a command for hashes on one that holds no list.\<close>

locale redis_server =
  fixes rd :: "'r redis_api" and js :: cjson
    and rlist :: "'r \<Rightarrow> string \<Rightarrow> string list" and rhash :: "'r \<Rightarrow> string \<Rightarrow> string \<rightharpoonup> string"
  assumes RPOP: "rhash r k = Map.empty \<Longrightarrow>
        \<exists>r'. rd_RPOP rd k r = (Inr (if rlist r k = [] then None else Some (last (rlist r k))), r') \<and>
          rlist r' = (rlist r)(k := butlast (rlist r k)) \<and> rhash r' = rhash r"
    and LPUSH: "rhash r k = Map.empty \<Longrightarrow>
        \<exists>n r'. rd_LPUSH rd k v r = (Inr n, r') \<and> rlist r' = (rlist r)(k := v # rlist r k) \<and> rhash r' = rhash r"
    and HSET: "rlist r k = [] \<Longrightarrow>
        \<exists>n r'. rd_HSET rd k f v r = (Inr n, r') \<and> rhash r' = (rhash r)(k := (rhash r k)(f \<mapsto> v)) \<and> rlist r' = rlist r"
    and HGET: "rlist r k = [] \<Longrightarrow> rd_HGET rd k f r = (Inr (rhash r k f), r)"
    and HDEL: "rlist r k = [] \<Longrightarrow>
        \<exists>n r'. rd_HDEL rd k f r = (Inr n, r') \<and> rhash r' = (rhash r)(k := (rhash r k)(f := None)) \<and> rlist r' = rlist r"
    and HGETALL: "rlist r k = [] \<Longrightarrow>
        \<exists>ps. rd_HGETALL rd k r = (Inr (flat ps), r) \<and> distinct (map fst ps) \<and> map_of ps = rhash r k"
    and LLEN: "rhash r k = Map.empty \<Longrightarrow> rd_LLEN rd k r = (Inr (length (rlist r k)), r)"
    and HLEN: "rlist r k = [] \<Longrightarrow> rd_HLEN rd k r = (Inr (card (dom (rhash r k))), r)"
    and decode: "parse_json s = Some j \<Longrightarrow> shows_task t j \<Longrightarrow> task_fits t \<Longrightarrow> cj_decode js s = Inr (lua_task t)"
    and encode_task: "task_fits t \<Longrightarrow> \<exists>s v. cj_encode js (lua_task t) = Inr s \<and> parse_json s = Some v \<and> shows_task t v"
    and encode_dead: "task_fits t \<Longrightarrow> utf8_valid reason \<Longrightarrow> clock_text now \<Longrightarrow>
        \<exists>s v. cj_encode js (dead_table (lua_task t) reason (RFC3339Nano 0 now)) = Inr s \<and> parse_json s = Some v \<and>
          shows_dead \<lparr>dead_Task = t, dead_Reason = reason, dead_DeadAt = now\<rparr> v"
begin

abbreviation sabs :: "redisQueueKeys \<Rightarrow> 'r \<Rightarrow> aqueue" where
  "sabs \<equiv> store_abs rlist rhash"

abbreviation sok :: "other_keys \<Rightarrow> redisQueueKeys \<Rightarrow> 'r \<Rightarrow> bool" where
  "sok \<equiv> store_ok rlist rhash"

lemma entry_lua: "entry s t \<Longrightarrow> cj_decode js s = Inr (lua_task t)"
  unfolding entry_def using decode by blast

lemma sok_typed:
  assumes "sok W K r"
  shows "rhash r (rk_ready K) = Map.empty" "rhash r (rk_dead K) = Map.empty"
    "rlist r (rk_processing K) = []" "rlist r (rk_processingLeases K) = []"
  using assms by (simp_all add: store_ok_def)

lemma hash_finite: "rlist r k = [] \<Longrightarrow> finite (dom (rhash r k))"
  using HGETALL [of r k] by (metis finite_dom_map_of)

lemma sabs_proc:
  assumes "sok W K r"
  shows "aq_proc (sabs K r) tid = Some (t, l) \<longleftrightarrow>
    (\<exists>s. rhash r (rk_processing K) tid = Some s \<and> entry s t \<and> task_ID t = tid \<and> rhash r (rk_processingLeases K) tid = Some l)"
    and "dom (aq_proc (sabs K r)) = dom (rhash r (rk_processing K))"
    and "aq_proc (sabs K r) tid = None \<longleftrightarrow> rhash r (rk_processing K) tid = None"
proof -
  have e: "\<exists>t. entry s t \<and> task_ID t = tid" if "rhash r (rk_processing K) tid = Some s" for tid s
    using assms that by (simp add: store_ok_def)
  have d: "dom (rhash r (rk_processingLeases K)) = dom (rhash r (rk_processing K))" using assms by (simp add: store_ok_def)
  show "aq_proc (sabs K r) tid = Some (t, l) \<longleftrightarrow>
    (\<exists>s. rhash r (rk_processing K) tid = Some s \<and> entry s t \<and> task_ID t = tid \<and> rhash r (rk_processingLeases K) tid = Some l)"
    using e [of tid] by (auto simp: store_abs_def entry_task split: option.splits)
  have iff: "aq_proc (sabs K r) tid = None \<longleftrightarrow> rhash r (rk_processing K) tid = None" for tid
    using d by (auto simp: store_abs_def dom_def set_eq_iff split: option.splits)
  show "aq_proc (sabs K r) tid = None \<longleftrightarrow> rhash r (rk_processing K) tid = None" by (rule iff)
  show "dom (aq_proc (sabs K r)) = dom (rhash r (rk_processing K))" unfolding dom_def iff ..
qed

lemma sok_wf: "sok W K r \<Longrightarrow> aq_wf (sabs K r)"
  using sabs_proc [of W K r] hash_finite [OF sok_typed(3)] by (auto simp: aq_wf_def)

lemma push_ready:
  assumes "keys_ok K" and "sok W K r" and "entry s t"
    and "rlist r' = (rlist r)(rk_ready K := s # rlist r (rk_ready K))" and "rhash r' = rhash r"
  shows "sok W K r' \<and> sabs K r' = (sabs K r)\<lparr>aq_ready := aq_ready (sabs K r) @ [t]\<rparr>"
  using assms(1-3) unfolding store_ok_def store_abs_def assms(4,5) by (auto simp: keys_ok_def entry_task)

lemma push_dead:
  assumes "keys_ok K" and "sok W K r" and "text_dead s = d"
    and "rlist r' = (rlist r)(rk_dead K := s # rlist r (rk_dead K))" and "rhash r' = rhash r"
  shows "sok W K r' \<and> sabs K r' = (sabs K r)\<lparr>aq_dead := aq_dead (sabs K r) @ [d]\<rparr>"
  using assms(1-3) unfolding store_ok_def store_abs_def assms(4,5) by (auto simp: keys_ok_def)

lemma drop_hashes:
  assumes "keys_ok K" and "sok W K r" and "rlist r' = rlist r"
    and "rhash r' = (rhash r)(rk_processing K := (rhash r (rk_processing K))(tid := None),
      rk_processingLeases K := (rhash r (rk_processingLeases K))(tid := None))"
  shows "sok W K r' \<and> sabs K r' = drop_proc tid (sabs K r)"
  using assms(1,2) unfolding store_ok_def store_abs_def assms(3,4) by (auto simp: keys_ok_def drop_proc_def fun_eq_iff split: option.split)

subsection \<open>The commands, one by one\<close>

lemma Enqueue_step:
  assumes "keys_ok K" and "sok W K r" and "entry s t"
  shows "\<exists>n r'. rd_LPUSH rd (rk_ready K) s r = (Inr n, r') \<and> sok W K r' \<and> sabs K r' = snd (spec_Enqueue t (sabs K r))"
  using LPUSH [OF sok_typed(1) [OF assms(2)], of s] push_ready [OF assms] by (fastforce simp: spec_Enqueue_def)

lemma Acquire_step:
  assumes "keys_ok K" and "sok W K r" and "CHR 0x00 \<notin> set lid"
  shows "\<exists>a r'. acquireTaskScript rd js (rk_ready K) (rk_processing K) (rk_processingLeases K) lid r = (Inr a, r') \<and>
    sok W K r' \<and> (case a of None \<Rightarrow> Inl ErrQueueEmpty | Some s \<Rightarrow> decodeTask s, sabs K r') = spec_Acquire lid (sabs K r)"
proof -
  let ?k = "rk_ready K" and ?p = "rk_processing K" and ?l = "rk_processingLeases K"
  note ty = sok_typed [OF assms(2)]
  have keys: "?k \<noteq> ?p" "?k \<noteq> ?l" "?p \<noteq> ?l" "rk_dead K \<noteq> ?p" "rk_dead K \<noteq> ?l" "rk_dead K \<noteq> ?k"
    using assms(1) by (auto simp: keys_ok_def)
  obtain r1 where pop: "rd_RPOP rd ?k r = (Inr (if rlist r ?k = [] then None else Some (last (rlist r ?k))), r1)"
    and r1: "rlist r1 = (rlist r)(?k := butlast (rlist r ?k))" "rhash r1 = rhash r"
    using RPOP [OF ty(1)] by blast
  show ?thesis
  proof (cases "rlist r ?k = []")
    case True
    with r1 have same: "rlist r1 = rlist r" by auto
    have "sok W K r1" "sabs K r1 = sabs K r" using assms(2) unfolding store_ok_def store_abs_def same r1(2) by simp_all
    with pop True show ?thesis by (simp add: acquireTaskScript_def lua_bind_def spec_Acquire_def store_abs_def)
  next
    case False
    let ?s = "last (rlist r ?k)"
    have "?s \<in> set (rlist r ?k)" using False by simp
    then obtain t where t: "entry ?s t" using assms(2) by (auto simp: store_ok_def)
    have l1: "rlist r1 ?p = []" "rlist r1 ?l = []" using ty r1 keys by simp_all
    obtain n2 r2 where set1: "rd_HSET rd ?p (task_ID t) ?s r1 = (Inr n2, r2)"
      and r2: "rhash r2 = (rhash r1)(?p := (rhash r1 ?p)(task_ID t \<mapsto> ?s))" "rlist r2 = rlist r1"
      using HSET [OF l1(1)] by blast
    obtain n3 r3 where set2: "rd_HSET rd ?l (task_ID t) lid r2 = (Inr n3, r3)"
      and r3: "rhash r3 = (rhash r2)(?l := (rhash r2 ?l)(task_ID t \<mapsto> lid))" "rlist r3 = rlist r2"
      using HSET [of r2 ?l] l1(2) r2(2) by metis
    have pop': "rd_RPOP rd ?k r = (Inr (Some ?s), r1)" using pop False by simp
    have run: "acquireTaskScript rd js ?k ?p ?l lid r = (Inr (Some ?s), r3)"
      using entry_lua [OF t] by (simp add: acquireTaskScript_def lua_bind_def pop' lua_task_def lua_index_def lua_arg_def set1 set2)
    have views: "rlist r3 = (rlist r)(?k := butlast (rlist r ?k))"
      "rhash r3 = (rhash r)(?p := (rhash r ?p)(task_ID t \<mapsto> ?s), ?l := (rhash r ?l)(task_ID t \<mapsto> lid))"
      using r1 r2 r3 keys by simp_all
    have "sok W K r3"
      using assms(2,3) keys t unfolding store_ok_def views by (auto dest: in_set_butlastD)
    moreover have "rlist r ?k = butlast (rlist r ?k) @ [?s]" using False by simp
    from arg_cong [OF this, of "\<lambda>l. rev (map (text_task) l)"]
    have "aq_ready (sabs K r) = t # rev (map (text_task) (butlast (rlist r ?k)))"
      by (simp add: store_abs_def entry_task [OF t])
    moreover have "decodeTask ?s = Inr t" using t by (rule entry_decode)
    moreover have "sabs K r3 = (sabs K r)\<lparr>aq_ready := rev (map (text_task) (butlast (rlist r ?k))),
        aq_proc := (aq_proc (sabs K r))(task_ID t \<mapsto> (t, lid))\<rparr>"
      using keys entry_task [OF t] unfolding store_abs_def views by (auto simp: fun_eq_iff split: option.split)
    ultimately show ?thesis
      using run by (simp add: spec_Acquire_def)
  qed
qed

lemma drop_step:
  assumes "keys_ok K" and "sok W K r"
  shows "\<exists>n m r1 r2. rd_HDEL rd (rk_processing K) tid r = (Inr n, r1) \<and> rd_HDEL rd (rk_processingLeases K) tid r1 = (Inr m, r2) \<and>
    sok W K r2 \<and> sabs K r2 = drop_proc tid (sabs K r) \<and>
    rhash r2 = (rhash r)(rk_processing K := (rhash r (rk_processing K))(tid := None),
      rk_processingLeases K := (rhash r (rk_processingLeases K))(tid := None))"
proof -
  let ?p = "rk_processing K" and ?l = "rk_processingLeases K"
  have key: "?p \<noteq> ?l" using assms(1) by (simp add: keys_ok_def)
  obtain n r1 where d1: "rd_HDEL rd ?p tid r = (Inr n, r1)"
    and r1: "rhash r1 = (rhash r)(?p := (rhash r ?p)(tid := None))" "rlist r1 = rlist r"
    using HDEL [OF sok_typed(3) [OF assms(2)]] by blast
  obtain m r2 where d2: "rd_HDEL rd ?l tid r1 = (Inr m, r2)"
    and r2: "rhash r2 = (rhash r1)(?l := (rhash r1 ?l)(tid := None))" "rlist r2 = rlist r1"
    using HDEL [of r1 ?l tid] sok_typed(4) [OF assms(2)] r1(2) by auto
  have views: "rhash r2 = (rhash r)(?p := (rhash r ?p)(tid := None), ?l := (rhash r ?l)(tid := None))" "rlist r2 = rlist r"
    using r1 r2 key by simp_all
  with d1 d2 drop_hashes [OF assms views(2,1)] show ?thesis by blast
qed

lemma fenced_step:
  assumes "keys_ok K" and "sok W K r"
    and rest: "\<And>s t r1. aq_proc (sabs K r) tid = Some (t, lid) \<Longrightarrow> entry s t \<Longrightarrow> sok W K r1 \<Longrightarrow>
      \<exists>r'. rest s r1 = (Inr 1, r') \<and> sok W K r' \<and> sabs K r' = upd t (sabs K r1)"
  shows "\<exists>n r'. fenced_script rd (rk_processing K) (rk_processingLeases K) tid lid rest r = (Inr n, r') \<and> sok W K r' \<and>
    (transitionResultError n, sabs K r') =
      (case fence_check tid lid (sabs K r) of Inl e \<Rightarrow> (Inl e, sabs K r) | Inr t \<Rightarrow> (Inr (), upd t (drop_proc tid (sabs K r))))"
proof -
  let ?p = "rk_processing K" and ?l = "rk_processingLeases K"
  note get = HGET [OF sok_typed(3) [OF assms(2)]] HGET [OF sok_typed(4) [OF assms(2)]]
  consider (absent) "rhash r ?p tid = None" |
    (there) s t l where "rhash r ?p tid = Some s" "entry s t" "rhash r ?l tid = Some l" "aq_proc (sabs K r) tid = Some (t, l)"
    using sabs_proc(1,3) [OF assms(2), of tid] by (metis not_None_eq surj_pair)
  then show ?thesis
  proof cases
    case absent
    with sabs_proc(3) [OF assms(2), of tid] get(1) [of tid] assms(2) show ?thesis
      by (simp add: fenced_script_def lua_bind_def fence_check_def transitionResultError_def)
  next
    case there
    show ?thesis
    proof (cases "l = lid")
      case True
      obtain n m r1 r2 where d: "rd_HDEL rd ?p tid r = (Inr n, r1)" "rd_HDEL rd ?l tid r1 = (Inr m, r2)"
        and r2: "sok W K r2" "sabs K r2 = drop_proc tid (sabs K r)"
        using drop_step [OF assms(1,2)] by blast
      obtain r' where "rest s r2 = (Inr 1, r')" "sok W K r'" "sabs K r' = upd t (sabs K r2)"
        using rest there True r2(1) by blast
      with d r2(2) get there True show ?thesis
        by (simp add: fenced_script_def lua_bind_def fence_check_def transitionResultError_def)
    next
      case False
      with get there assms(2) show ?thesis
        by (simp add: fenced_script_def lua_bind_def fence_check_def transitionResultError_def)
    qed
  qed
qed

lemma Complete_step:
  assumes "keys_ok K" and "sok W K r"
  shows "\<exists>n r'. completeTaskScript rd (rk_processing K) (rk_processingLeases K) tid lid r = (Inr n, r') \<and> sok W K r' \<and>
    (transitionResultError n, sabs K r') = spec_Complete tid lid (sabs K r)"
  unfolding completeTaskScript_def spec_Complete_def
  using fenced_step [OF assms, of tid lid "\<lambda>_. lua_return 1" "\<lambda>t q. q"] by simp

lemma Requeue_step:
  assumes "keys_ok K" and "sok W K r" and "can_bump redis_room tid (sabs K r)"
  shows "\<exists>n r'. requeueTaskScript rd js (rk_processing K) (rk_processingLeases K) (rk_ready K) tid lid r = (Inr n, r') \<and>
    sok W K r' \<and> (transitionResultError n, sabs K r') = spec_Requeue tid lid (sabs K r)"
proof -
  let ?rest = "\<lambda>encoded. lua_bind (bumped_entry js encoded) (\<lambda>task. lua_bind (lua_lift (cj_encode js task))
    (\<lambda>text. lua_bind (rd_LPUSH rd (rk_ready K) text) (\<lambda>_. lua_return 1)))"
  let ?upd = "\<lambda>t q. q\<lparr>aq_ready := aq_ready q @ [bump_attempts t]\<rparr>"
  have "\<exists>r'. ?rest s r1 = (Inr 1, r') \<and> sok W K r' \<and> sabs K r' = ?upd t (sabs K r1)"
    if t: "aq_proc (sabs K r) tid = Some (t, lid)" and s: "entry s t" and ok: "sok W K r1" for s t r1
  proof -
    have room: "redis_room t" using assms(3) t by (auto simp: can_bump_def)
    have fits: "task_fits t" using s by (simp add: entry_def)
    with room s have "task_fits (bump_attempts t)" "CHR 0x00 \<notin> set (task_ID (bump_attempts t))"
      by (simp_all add: task_fits_bump entry_def)
    then obtain s' where s': "cj_encode js (lua_task (bump_attempts t)) = Inr s'" "entry s' (bump_attempts t)"
      using encode_task unfolding entry_def by blast
    obtain n r' where "rd_LPUSH rd (rk_ready K) s' r1 = (Inr n, r')" "sok W K r'" "sabs K r' = ?upd t (sabs K r1)"
      using Enqueue_step [OF assms(1) ok s'(2)] by (auto simp: spec_Enqueue_def)
    with s' show ?thesis by (simp add: lua_bind_def bumped_entry_task [OF entry_lua [OF s] room fits])
  qed
  from fenced_step [where tid = tid and lid = lid and rest = ?rest and upd = ?upd, OF assms(1,2) this] show ?thesis
    unfolding requeueTaskScript_def spec_Requeue_def drop_proc_sel .
qed

lemma DeadLetter_step:
  assumes "keys_ok K" and "sok W K r" and "can_bump redis_room tid (sabs K r)" and "utf8_valid reason" and "clock_text now"
  shows "\<exists>n r'. deadLetterTaskScript rd js (rk_processing K) (rk_processingLeases K) (rk_dead K) tid lid reason (RFC3339Nano 0 now) r =
      (Inr n, r') \<and> sok W K r' \<and> (transitionResultError n, sabs K r') = spec_DeadLetter tid lid reason now (sabs K r)"
proof -
  let ?rest = "\<lambda>encoded. lua_bind (bumped_entry js encoded) (\<lambda>task. lua_bind (lua_lift (cj_encode js
    (dead_table task reason (RFC3339Nano 0 now)))) (\<lambda>text. lua_bind (rd_LPUSH rd (rk_dead K) text) (\<lambda>_. lua_return 1)))"
  let ?upd = "\<lambda>t q. q\<lparr>aq_dead := aq_dead q @ [\<lparr>dead_Task = bump_attempts t, dead_Reason = reason, dead_DeadAt = now\<rparr>]\<rparr>"
  have "\<exists>r'. ?rest s r1 = (Inr 1, r') \<and> sok W K r' \<and> sabs K r' = ?upd t (sabs K r1)"
    if t: "aq_proc (sabs K r) tid = Some (t, lid)" and s: "entry s t" and ok: "sok W K r1" for s t r1
  proof -
    have room: "redis_room t" using assms(3) t by (auto simp: can_bump_def)
    have fits: "task_fits t" using s by (simp add: entry_def)
    with room have "task_fits (bump_attempts t)" by (simp add: task_fits_bump)
    from encode_dead [OF this assms(4,5)] obtain s'
      where s': "cj_encode js (dead_table (lua_task (bump_attempts t)) reason (RFC3339Nano 0 now)) = Inr s'"
        "text_dead s' = \<lparr>dead_Task = bump_attempts t, dead_Reason = reason, dead_DeadAt = now\<rparr>"
      using text_dead_shown assms(5) by fastforce
    obtain n r' where push: "rd_LPUSH rd (rk_dead K) s' r1 = (Inr n, r')"
      and "rlist r' = (rlist r1)(rk_dead K := s' # rlist r1 (rk_dead K))" "rhash r' = rhash r1"
      using LPUSH [OF sok_typed(2) [OF ok]] by blast
    with push_dead [OF assms(1) ok s'(2)] have "sok W K r'" "sabs K r' = ?upd t (sabs K r1)" by blast+
    with push s' show ?thesis by (simp add: lua_bind_def bumped_entry_task [OF entry_lua [OF s] room fits])
  qed
  from fenced_step [where tid = tid and lid = lid and rest = ?rest and upd = ?upd, OF assms(1,2) this] show ?thesis
    unfolding deadLetterTaskScript_def spec_DeadLetter_def drop_proc_sel .
qed

subsection \<open>Recovery\<close>

lemma orphan_step:
  assumes "keys_ok K" and "sok W K r" and "rhash r (rk_processing K) tid = Some s"
  shows "\<exists>n m i r1 r2 r3. rd_HDEL rd (rk_processing K) tid r = (Inr n, r1) \<and> rd_HDEL rd (rk_processingLeases K) tid r1 = (Inr m, r2) \<and>
    rd_LPUSH rd (rk_ready K) s r2 = (Inr i, r3) \<and> sok W K r3 \<and>
    sabs K r3 = (drop_proc tid (sabs K r))\<lparr>aq_ready := aq_ready (sabs K r) @ [text_task s]\<rparr> \<and>
    (\<forall>tid'. tid' \<noteq> tid \<longrightarrow> rhash r3 (rk_processing K) tid' = rhash r (rk_processing K) tid' \<and>
       rhash r3 (rk_processingLeases K) tid' = rhash r (rk_processingLeases K) tid')"
proof -
  obtain t where t: "entry s t" using assms(2,3) unfolding store_ok_def by blast
  obtain n m r1 r2 where d: "rd_HDEL rd (rk_processing K) tid r = (Inr n, r1)" "rd_HDEL rd (rk_processingLeases K) tid r1 = (Inr m, r2)"
    and r2: "sok W K r2" "sabs K r2 = drop_proc tid (sabs K r)"
    and h2: "rhash r2 = (rhash r)(rk_processing K := (rhash r (rk_processing K))(tid := None),
      rk_processingLeases K := (rhash r (rk_processingLeases K))(tid := None))"
    using drop_step [OF assms(1,2)] by blast
  obtain i r3 where push: "rd_LPUSH rd (rk_ready K) s r2 = (Inr i, r3)"
    and r3: "rlist r3 = (rlist r2)(rk_ready K := s # rlist r2 (rk_ready K))" "rhash r3 = rhash r2"
    using LPUSH [OF sok_typed(1) [OF r2(1)]] by blast
  have "sok W K r3" "sabs K r3 = (drop_proc tid (sabs K r))\<lparr>aq_ready := aq_ready (sabs K r) @ [text_task s]\<rparr>"
    using push_ready [OF assms(1) r2(1) t r3] r2(2) entry_task [OF t] by simp_all
  moreover have "rk_processing K \<noteq> rk_processingLeases K" using assms(1) by (simp add: keys_ok_def)
  then have "\<forall>tid'. tid' \<noteq> tid \<longrightarrow> rhash r3 (rk_processing K) tid' = rhash r (rk_processing K) tid' \<and>
       rhash r3 (rk_processingLeases K) tid' = rhash r (rk_processingLeases K) tid'"
    unfolding r3(2) h2 by simp
  ultimately show ?thesis using d push by blast
qed

lemma restrict_upd_None: "m(k := None) |` (- A) = m |` (- insert k A)"
  by (auto simp: restrict_map_def fun_eq_iff)

lemma recover_step:
  fixes active :: "string list"
  assumes "keys_ok K" and "sok W K r" and "distinct (map fst ps)"
    and "\<forall>(tid, s) \<in> set ps. rhash r (rk_processing K) tid = Some s \<and> rhash r (rk_processingLeases K) tid = L tid"
  defines "orph \<equiv> filter (\<lambda>(tid, s). \<not> kept active L tid) ps"
  shows "\<exists>r'. recover_entries rd (rk_processing K) (rk_processingLeases K) (rk_ready K) active (flat ps) moved matched r =
      (Inr (moved + int (length orph), matched @ map (the \<circ> L \<circ> fst) (filter (kept active L \<circ> fst) ps)), r') \<and> sok W K r' \<and>
    sabs K r' = (sabs K r)\<lparr>aq_ready := aq_ready (sabs K r) @ map (text_task \<circ> snd) orph,
      aq_proc := aq_proc (sabs K r) |` (- set (map fst orph))\<rparr>"
  using assms(2-4) unfolding orph_def
proof (induction ps arbitrary: r moved matched)
  case Nil
  then show ?case by simp
next
  case (Cons p ps)
  obtain tid s where p [simp]: "p = (tid, s)" by fastforce
  have here: "rhash r (rk_processing K) tid = Some s" "rhash r (rk_processingLeases K) tid = L tid"
    and fresh: "tid \<notin> set (map fst ps)" "distinct (map fst ps)"
    and others: "\<forall>(tid, s) \<in> set ps. rhash r (rk_processing K) tid = Some s \<and> rhash r (rk_processingLeases K) tid = L tid"
    using Cons.prems by auto
  note get = HGET [OF sok_typed(4) [OF Cons.prems(1)], of tid]
  show ?case
  proof (cases "kept active L tid")
    case True
    with here obtain l where l: "L tid = Some l" "fence_key tid l \<in> set active" by (auto simp: kept_def split: option.splits)
    with get here True Cons.IH [OF Cons.prems(1) fresh(2) others, of moved "matched @ [l]"] show ?thesis by (simp add: lua_bind_def)
  next
    case False
    obtain n m i r1 r2 r3 where run: "rd_HDEL rd (rk_processing K) tid r = (Inr n, r1)"
        "rd_HDEL rd (rk_processingLeases K) tid r1 = (Inr m, r2)" "rd_LPUSH rd (rk_ready K) s r2 = (Inr i, r3)"
      and r3: "sok W K r3" "sabs K r3 = (drop_proc tid (sabs K r))\<lparr>aq_ready := aq_ready (sabs K r) @ [text_task s]\<rparr>"
      and same: "\<forall>tid'. tid' \<noteq> tid \<longrightarrow> rhash r3 (rk_processing K) tid' = rhash r (rk_processing K) tid' \<and>
        rhash r3 (rk_processingLeases K) tid' = rhash r (rk_processingLeases K) tid'"
      using orphan_step [OF assms(1) Cons.prems(1) here(1)] by blast
    have "rhash r3 (rk_processing K) tid' = Some s' \<and> rhash r3 (rk_processingLeases K) tid' = L tid'" if "(tid', s') \<in> set ps" for tid' s'
    proof -
      have "tid' \<noteq> tid" using fresh(1) that by (metis fst_conv image_eqI set_map)
      with same bspec [OF others that] show ?thesis by simp
    qed
    then have "\<forall>(tid, s) \<in> set ps. rhash r3 (rk_processing K) tid = Some s \<and> rhash r3 (rk_processingLeases K) tid = L tid" by blast
    from Cons.IH [OF r3(1) fresh(2) this] obtain r' where r':
      "recover_entries rd (rk_processing K) (rk_processingLeases K) (rk_ready K) active (flat ps) (moved + 1) matched r3 =
        (Inr (moved + 1 + int (length (filter (\<lambda>(tid, s). \<not> kept active L tid) ps)),
          matched @ map (the \<circ> L \<circ> fst) (filter (kept active L \<circ> fst) ps)), r')" "sok W K r'"
      "sabs K r' = (sabs K r3)\<lparr>aq_ready := aq_ready (sabs K r3) @ map (text_task \<circ> snd) (filter (\<lambda>(tid, s). \<not> kept active L tid) ps),
        aq_proc := aq_proc (sabs K r3) |` (- set (map fst (filter (\<lambda>(tid, s). \<not> kept active L tid) ps)))\<rparr>"
      by blast
    have "\<not> (case L tid of None \<Rightarrow> False | Some l \<Rightarrow> fence_key tid l \<in> set active)" using False by (simp add: kept_def)
    then have run': "recover_entries rd (rk_processing K) (rk_processingLeases K) (rk_ready K) active (flat (p # ps)) moved matched r =
        recover_entries rd (rk_processing K) (rk_processingLeases K) (rk_ready K) active (flat ps) (moved + 1) matched r3"
      using get run here by (simp add: lua_bind_def)
    show ?thesis
      unfolding run' r'(1) using False r'(2,3) r3(2)
      by (intro exI [of _ r']) (simp add: restrict_upd_None drop_proc_def comp_def del: restrict_fun_upd)
  qed
qed

lemma kept_covered:
  assumes "sok W K r" and "rhash r (rk_processing K) tid = Some s"
  shows "kept (active_keys (fence_args active)) (rhash r (rk_processingLeases K)) tid \<longleftrightarrow> tid \<in> covered active (sabs K r)"
proof -
  obtain t where t: "entry s t" "task_ID t = tid" using assms unfolding store_ok_def by blast
  obtain l where l: "rhash r (rk_processingLeases K) tid = Some l" using assms unfolding store_ok_def by blast
  have nul: "CHR 0x00 \<notin> set tid" "CHR 0x00 \<notin> set l" using t l assms(1) by (auto simp: entry_def store_ok_def)
  have "aq_proc (sabs K r) tid = Some (t, l)" using sabs_proc(1) [OF assms(1)] assms(2) t l by blast
  then have "tid \<in> covered active (sabs K r) \<longleftrightarrow> \<lparr>fence_TaskID = tid, fence_LeaseID = l\<rparr> \<in> set active" by (auto simp: covered_def)
  also have "\<dots> \<longleftrightarrow> (\<exists>f \<in> set active. fence_key tid l = fence_key (fence_TaskID f) (fence_LeaseID f))"
    unfolding fence_key_eq [OF nul] by (metis lease_fence.select_convs(1,2) lease_fence.surjective old.unit.exhaust)
  finally show ?thesis using l by (auto simp: kept_def active_keys_fences)
qed

lemma matched_kept:
  assumes "sok W K r"
  shows "l \<in> matched_leases active (sabs K r) \<longleftrightarrow> (\<exists>tid s. rhash r (rk_processing K) tid = Some s \<and>
    kept (active_keys (fence_args active)) (rhash r (rk_processingLeases K)) tid \<and> rhash r (rk_processingLeases K) tid = Some l)"
proof -
  have "l \<in> matched_leases active (sabs K r) \<longleftrightarrow>
      (\<exists>tid t. aq_proc (sabs K r) tid = Some (t, l) \<and> tid \<in> covered active (sabs K r))"
    by (auto simp: matched_leases_def covered_def)
  also have "\<dots> \<longleftrightarrow> (\<exists>tid s. rhash r (rk_processing K) tid = Some s \<and> tid \<in> covered active (sabs K r) \<and>
      rhash r (rk_processingLeases K) tid = Some l)"
    using sabs_proc(1) [OF assms] assms unfolding store_ok_def by blast
  finally show ?thesis using kept_covered [OF assms] by blast
qed

lemma Recover_step:
  assumes "keys_ok K" and "sok W K r"
  shows "\<exists>items res r'. recoverOrphanedProcessingScript rd (rk_processing K) (rk_processingLeases K) (rk_ready K) (fence_args active) r =
      (Inr items, r') \<and> decodeRecoveryResult items = Inr res \<and> sok W K r' \<and> spec_Recover active (sabs K r) res (sabs K r')"
proof -
  let ?L = "rhash r (rk_processingLeases K)" and ?A = "active_keys (fence_args active)" and ?q = "sabs K r"
  obtain ps where all: "rd_HGETALL rd (rk_processing K) r = (Inr (flat ps), r)"
    and ps: "distinct (map fst ps)" "map_of ps = rhash r (rk_processing K)"
    using HGETALL [OF sok_typed(3) [OF assms(2)]] by blast
  have in_ps: "(tid, s) \<in> set ps \<longleftrightarrow> rhash r (rk_processing K) tid = Some s" for tid s
    using map_of_eq_Some_iff [OF ps(1)] unfolding ps(2) by auto
  define orph where "orph = filter (\<lambda>(tid, s). \<not> kept ?A ?L tid) ps"
  define mat where "mat = map (the \<circ> ?L \<circ> fst) (filter (kept ?A ?L \<circ> fst) ps)"
  obtain r' where run: "recover_entries rd (rk_processing K) (rk_processingLeases K) (rk_ready K) ?A (flat ps) 0 [] r =
      (Inr (int (length orph), mat), r')" and r': "sok W K r'"
      "sabs K r' = ?q\<lparr>aq_ready := aq_ready ?q @ map (text_task \<circ> snd) orph, aq_proc := aq_proc ?q |` (- set (map fst orph))\<rparr>"
    using recover_step [OF assms ps(1), of ?L ?A 0 "[]"] in_ps unfolding orph_def mat_def by auto
  obtain m where m: "decode_matched (map RStr mat) [] = Inr m" "set (gm_keys m) = set mat"
    using decode_matched_strings [of mat "[]"] by auto
  let ?res = "\<lparr>rr_Moved = length orph, rr_MatchedLeaseIDs = m\<rparr>"
  have "tid \<in> set (map fst orph) \<longleftrightarrow> tid \<in> dom (aq_proc ?q) - covered active ?q" for tid
  proof -
    have "tid \<in> set (map fst orph) \<longleftrightarrow> (\<exists>s. (tid, s) \<in> set ps \<and> \<not> kept ?A ?L tid)" unfolding orph_def by force
    also have "\<dots> \<longleftrightarrow> (\<exists>s. rhash r (rk_processing K) tid = Some s \<and> tid \<notin> covered active ?q)"
      unfolding in_ps using kept_covered [OF assms(2)] by blast
    finally show ?thesis using sabs_proc(2) [OF assms(2)] by blast
  qed
  then have orph: "set (map fst orph) = dom (aq_proc ?q) - covered active ?q" by blast
  have fst_task: "fst (the (aq_proc ?q tid)) = text_task s" if "(tid, s) \<in> set ps" for tid s
    using that in_ps sabs_proc(3) [OF assms(2), of tid] by (auto simp: store_abs_def split: option.splits)
  have "distinct (map fst orph)" unfolding orph_def using ps(1) by (rule distinct_map_filter)
  then have ids: "mset_set (set (map fst orph)) = mset (map fst orph)" by (rule mset_set_set)
  have "orphans active ?q = mset (map ((\<lambda>tid. fst (the (aq_proc ?q tid))) \<circ> fst) orph)"
    unfolding orphans_def orph [symmetric] ids by (simp flip: map_map)
  also have "map ((\<lambda>tid. fst (the (aq_proc ?q tid))) \<circ> fst) orph = map (text_task \<circ> snd) orph"
    using fst_task by (auto simp: orph_def)
  finally have moved: "mset (map (text_task \<circ> snd) orph) = orphans active ?q" ..
  have "aq_proc ?q |` (- set (map fst orph)) = aq_proc ?q |` covered active ?q"
    unfolding orph by (auto simp: restrict_map_def fun_eq_iff domIff simp del: not_None_eq)
  moreover have "l \<in> set mat \<longleftrightarrow> l \<in> matched_leases active ?q" for l
  proof -
    have "l \<in> set mat \<longleftrightarrow> (\<exists>tid s. (tid, s) \<in> set ps \<and> kept ?A ?L tid \<and> the (?L tid) = l)" unfolding mat_def by force
    also have "\<dots> \<longleftrightarrow> (\<exists>tid s. (tid, s) \<in> set ps \<and> kept ?A ?L tid \<and> ?L tid = Some l)"
      by (auto simp: kept_def split: option.splits)
    finally show ?thesis unfolding in_ps matched_kept [OF assms(2)] .
  qed
  then have "set mat = matched_leases active ?q" by blast
  ultimately have "spec_Recover active ?q ?res (sabs K r')"
    unfolding spec_Recover_def r'(2) using moved m(2) by (intro conjI exI [of _ "map (text_task \<circ> snd) orph"]) simp_all
  with run r'(1) all m(1) show ?thesis
    by (intro exI [of _ "RInt (int (length orph)) # map RStr mat"] exI [of _ ?res] exI [of _ r'])
      (simp add: recoverOrphanedProcessingScript_def lua_bind_def decodeRecoveryResult_def)
qed

subsection \<open>The methods\<close>

abbreviation qabs :: "'r RedisQueue \<Rightarrow> aqueue" where
  "qabs \<equiv> redis_abs rlist rhash"

abbreviation qinv :: "other_keys \<Rightarrow> 'r RedisQueue \<Rightarrow> bool" where
  "qinv W \<equiv> redis_inv rlist rhash W (list_all fate_once)"

lemma qinv_store: "qinv W q \<Longrightarrow> keys_ok (queue_keys q)" "qinv W q \<Longrightarrow> sok W (queue_keys q) (rq_server q)"
  by (simp_all add: redis_inv_def)

text \<open>A method whose command the server runs as \<open>spec\<close> says behaves as \<open>spec\<close> says, or fails with an error of
  the network.\<close>

lemma run_spec:
  assumes inv: "qinv W q" and step: "cmd (rq_server q) = (Inr a, r')" and ok: "sok W (queue_keys q) r'"
    and spec: "(f a, sabs (queue_keys q) r') = spec (qabs q)" and run: "redis_run cmd q = (res, q')"
    and result: "r = (case res of Inl err \<Rightarrow> Inl err | Inr a \<Rightarrow> f a)"
  shows "qinv W q' \<and> rq_net q' = tl (rq_net q) \<and> outcome spec (qabs q) r (qabs q') \<and>
    (rq_net q = [] \<longrightarrow> (r, qabs q') = spec (qabs q))"
proof -
  have "fate_once (fate_at 0 q)"
    using inv fate_once_answered by (auto simp: redis_inv_def fate_at_def list_all_length)
  note once = redis_run_once [OF step this run]
  have keys: "queue_keys q' = queue_keys q" "rq_net q' = tl (rq_net q)" using redis_run_keys [OF run] by simp_all
  have "list_all fate_once (rq_net q')" using inv keys(2) by (cases "rq_net q") (simp_all add: redis_inv_def)
  with inv ok once keys(1) have inv': "qinv W q'" by (auto simp: redis_inv_def)
  have "outcome spec (qabs q) r (qabs q')"
    using once spec result keys(1) by (auto simp: outcome_def redis_abs_def dest: sym)
  moreover have "(r, qabs q') = spec (qabs q)" if "rq_net q = []"
    using redis_run_answered [of cmd q, OF step that] run spec result by (auto simp: redis_abs_def queue_keys_def)
  ultimately show ?thesis using inv' keys(2) by blast
qed

lemma redis_Enqueue_spec:
  assumes "qinv W q" and "id_text (task_ID t)" and "task_Attempts t = 0" and "redis_Enqueue rd t q = (r, q')"
  shows "qinv W q' \<and> rq_net q' = tl (rq_net q) \<and> outcome (spec_Enqueue t) (qabs q) r (qabs q') \<and>
    (rq_net q = [] \<longrightarrow> (r, qabs q') = spec_Enqueue t (qabs q))"
proof -
  have fits: "task_fits t" "CHR 0x00 \<notin> set (task_ID t)" using assms(2,3) by (simp_all add: task_fits_def id_text_def)
  then obtain s where s: "encodeTask t = Inr s" "entry s t"
    using marshal_entry [OF fits] by (simp add: encodeTask_def)
  obtain n r' where step: "rd_LPUSH rd (rk_ready (queue_keys q)) s (rq_server q) = (Inr n, r')" "sok W (queue_keys q) r'"
      "sabs (queue_keys q) r' = snd (spec_Enqueue t (qabs q))"
    using Enqueue_step [OF qinv_store [OF assms(1)] s(2)] unfolding redis_abs_def by blast
  obtain res q1 where run: "redis_run (rd_LPUSH rd (rk_ready (queue_keys q)) s) q = (res, q1)" by fastforce
  have "r = (case res of Inl err \<Rightarrow> Inl err | Inr a \<Rightarrow> (\<lambda>_. Inr ()) a)" "q' = q1"
    using assms(4) run s(1) by (auto simp: redis_Enqueue_def queue_keys_def split: sum.splits)
  with run_spec [where cmd = "rd_LPUSH rd (rk_ready (queue_keys q)) s" and f = "\<lambda>_. Inr ()", OF assms(1) step(1,2) _ run this(1), of "spec_Enqueue t"] step(3) show ?thesis
    by (simp add: spec_Enqueue_def)
qed

lemma redis_Acquire_spec:
  assumes "qinv W q" and "id_text lid" and "redis_Acquire rd js lid q = (r, q')"
  shows "qinv W q' \<and> rq_net q' = tl (rq_net q) \<and> outcome (spec_Acquire lid) (qabs q) r (qabs q') \<and>
    (rq_net q = [] \<longrightarrow> (r, qabs q') = spec_Acquire lid (qabs q))"
proof -
  let ?K = "queue_keys q"
  let ?cmd = "acquireTaskScript rd js (rk_ready ?K) (rk_processing ?K) (rk_processingLeases ?K) lid"
  let ?f = "\<lambda>a. case a of None \<Rightarrow> Inl ErrQueueEmpty | Some s \<Rightarrow> decodeTask s"
  have "CHR 0x00 \<notin> set lid" using assms(2) by (simp add: id_text_def)
  from Acquire_step [OF qinv_store [OF assms(1)] this] obtain a r' where step: "?cmd (rq_server q) = (Inr a, r')" "sok W ?K r'"
      "(?f a, sabs ?K r') = spec_Acquire lid (qabs q)"
    unfolding redis_abs_def by blast
  obtain res q1 where run: "redis_run ?cmd q = (res, q1)" by fastforce
  have "r = (case res of Inl err \<Rightarrow> Inl err | Inr a \<Rightarrow> ?f a)" "q' = q1"
    using assms(3) run by (auto simp: redis_Acquire_def queue_keys_def split: sum.splits option.splits)
  with run_spec [where cmd = ?cmd and f = ?f and spec = "spec_Acquire lid", OF assms(1) step run this(1)] show ?thesis by simp
qed

lemma runTaskScript_spec:
  assumes "qinv W q" and "\<exists>n r'. cmd (rq_server q) = (Inr n, r') \<and> sok W (queue_keys q) r' \<and>
      (transitionResultError n, sabs (queue_keys q) r') = spec (qabs q)"
    and "runTaskScript cmd q = (r, q')"
  shows "qinv W q' \<and> rq_net q' = tl (rq_net q) \<and> outcome spec (qabs q) r (qabs q') \<and>
    (rq_net q = [] \<longrightarrow> (r, qabs q') = spec (qabs q))"
proof -
  obtain n r' where step: "cmd (rq_server q) = (Inr n, r')" "sok W (queue_keys q) r'"
      "(transitionResultError n, sabs (queue_keys q) r') = spec (qabs q)"
    using assms(2) by blast
  obtain res q1 where run: "redis_run cmd q = (res, q1)" by fastforce
  have "r = (case res of Inl err \<Rightarrow> Inl err | Inr a \<Rightarrow> transitionResultError a)" "q' = q1"
    using assms(3) run by (auto simp: runTaskScript_def split: sum.splits)
  with run_spec [where cmd = cmd and f = transitionResultError and spec = spec, OF assms(1) step run this(1)] show ?thesis by simp
qed

lemma redis_fenced_spec:
  assumes "qinv W q"
  shows "redis_Complete rd tid lid q = (r, q') \<Longrightarrow> qinv W q' \<and> rq_net q' = tl (rq_net q) \<and>
      outcome (spec_Complete tid lid) (qabs q) r (qabs q') \<and> (rq_net q = [] \<longrightarrow> (r, qabs q') = spec_Complete tid lid (qabs q))"
    and "can_bump redis_room tid (qabs q) \<Longrightarrow> redis_Requeue rd js tid lid q = (r, q') \<Longrightarrow> qinv W q' \<and> rq_net q' = tl (rq_net q) \<and>
      outcome (spec_Requeue tid lid) (qabs q) r (qabs q') \<and> (rq_net q = [] \<longrightarrow> (r, qabs q') = spec_Requeue tid lid (qabs q))"
    and "can_bump redis_room tid (qabs q) \<Longrightarrow> utf8_valid reason \<Longrightarrow> clock_text now \<Longrightarrow>
      redis_DeadLetter rd js tid lid reason now q = (r, q') \<Longrightarrow> qinv W q' \<and> rq_net q' = tl (rq_net q) \<and>
      outcome (spec_DeadLetter tid lid reason now) (qabs q) r (qabs q') \<and>
      (rq_net q = [] \<longrightarrow> (r, qabs q') = spec_DeadLetter tid lid reason now (qabs q))"
proof -
  note K = queue_keys_def redisQueueKeys.select_convs
  note st = qinv_store [OF assms]
  { assume "redis_Complete rd tid lid q = (r, q')"
    then have "runTaskScript (completeTaskScript rd (rk_processing (queue_keys q)) (rk_processingLeases (queue_keys q)) tid lid) q = (r, q')"
      by (simp add: redis_Complete_def K)
    from runTaskScript_spec [where spec = "spec_Complete tid lid", OF assms Complete_step [OF st, folded redis_abs_def] this]
    show "qinv W q' \<and> rq_net q' = tl (rq_net q) \<and> outcome (spec_Complete tid lid) (qabs q) r (qabs q') \<and>
      (rq_net q = [] \<longrightarrow> (r, qabs q') = spec_Complete tid lid (qabs q))" . }
  assume bump: "can_bump redis_room tid (qabs q)"
  { assume "redis_Requeue rd js tid lid q = (r, q')"
    then have "runTaskScript (requeueTaskScript rd js (rk_processing (queue_keys q)) (rk_processingLeases (queue_keys q))
        (rk_ready (queue_keys q)) tid lid) q = (r, q')"
      by (simp add: redis_Requeue_def K)
    from runTaskScript_spec [where spec = "spec_Requeue tid lid", OF assms Requeue_step [OF st, folded redis_abs_def, OF bump] this]
    show "qinv W q' \<and> rq_net q' = tl (rq_net q) \<and> outcome (spec_Requeue tid lid) (qabs q) r (qabs q') \<and>
      (rq_net q = [] \<longrightarrow> (r, qabs q') = spec_Requeue tid lid (qabs q))" . }
  assume ok: "utf8_valid reason" "clock_text now" and "redis_DeadLetter rd js tid lid reason now q = (r, q')"
  then have "runTaskScript (deadLetterTaskScript rd js (rk_processing (queue_keys q)) (rk_processingLeases (queue_keys q))
      (rk_dead (queue_keys q)) tid lid reason (RFC3339Nano 0 now)) q = (r, q')"
    by (simp add: redis_DeadLetter_def K)
  from runTaskScript_spec [where spec = "spec_DeadLetter tid lid reason now", OF assms DeadLetter_step [OF st, folded redis_abs_def, OF bump ok] this]
  show "qinv W q' \<and> rq_net q' = tl (rq_net q) \<and> outcome (spec_DeadLetter tid lid reason now) (qabs q) r (qabs q') \<and>
    (rq_net q = [] \<longrightarrow> (r, qabs q') = spec_DeadLetter tid lid reason now (qabs q))" .
qed

lemma redis_Recover_spec:
  assumes "qinv W q" and "redis_RecoverOrphanedProcessing rd active q = (rr, q')"
  shows "qinv W q' \<and> rq_net q' = tl (rq_net q) \<and>
    ((\<exists>res. rr = Inr res \<and> spec_Recover active (qabs q) res (qabs q')) \<or>
     rq_net q \<noteq> [] \<and> (\<exists>e. rr = Inl e \<and> (qabs q' = qabs q \<or> (\<exists>res. spec_Recover active (qabs q) res (qabs q')))))"
proof -
  let ?K = "queue_keys q"
  let ?cmd = "recoverOrphanedProcessingScript rd (rk_processing ?K) (rk_processingLeases ?K) (rk_ready ?K) (fence_args active)"
  obtain items res r' where step: "?cmd (rq_server q) = (Inr items, r')" "decodeRecoveryResult items = Inr res"
      "sok W ?K r'" "spec_Recover active (qabs q) res (sabs ?K r')"
    using Recover_step [OF qinv_store [OF assms(1)]] unfolding redis_abs_def by blast
  obtain out q1 where run: "redis_run ?cmd q = (out, q1)" by fastforce
  have "rr = (case out of Inl err \<Rightarrow> Inl err | Inr a \<Rightarrow> decodeRecoveryResult a)" "q' = q1"
    using assms(2) run by (auto simp: redis_RecoverOrphanedProcessing_def queue_keys_def split: sum.splits)
  with run_spec [where cmd = ?cmd and f = decodeRecoveryResult, OF assms(1) step(1,3) _ run this(1), of "\<lambda>_. (Inr res, sabs ?K r')"] step show ?thesis
    by (auto simp: outcome_def)
qed

lemma redis_Stats_spec:
  assumes "qinv W q" and "rq_net q = []"
  shows "redis_Stats rd q = \<lparr>qs_Ready = length (aq_ready (qabs q)), qs_Processing = card (dom (aq_proc (qabs q))),
    qs_Dead = length (aq_dead (qabs q))\<rparr>"
proof -
  let ?K = "queue_keys q" and ?r = "rq_server q"
  have ok: "sok W ?K ?r" using assms(1) by (rule qinv_store)
  note len = LLEN [OF sok_typed(1) [OF ok]] LLEN [OF sok_typed(2) [OF ok]] HLEN [OF sok_typed(3) [OF ok]]
  have "card (dom (aq_proc (qabs q))) = card (dom (rhash ?r (rk_processing ?K)))"
    unfolding redis_abs_def sabs_proc(2) [OF ok] ..
  with len assms(2) show ?thesis
    by (simp add: redis_Stats_def redis_val_def redis_call_def fate_at_def answered_def queue_keys_def redis_abs_def store_abs_def)
qed

end

text \<open>The contract of the engine, with a network that loses requests and replies, and without.\<close>

sublocale redis_server \<subseteq> net: backend_contract "redis_ops rd js" "redis_abs rlist rhash"
  "redis_inv rlist rhash W (list_all fate_once)" redis_room for W
proof unfold_locales
  show "aq_wf (qabs q)" if "qinv W q" for q
    unfolding redis_abs_def by (rule sok_wf [OF qinv_store(2) [OF that]])
  show "qinv W q' \<and> outcome (spec_Enqueue t) (qabs q) r (qabs q')"
    if "qinv W q" "id_text (task_ID t)" "task_Attempts t = 0" "be_Enqueue (redis_ops rd js) t q = (r, q')" for q t r q'
    using that redis_Enqueue_spec [where W = W and q = q and r = r and q' = q', OF _ that(2,3)] by (simp add: redis_ops_def)
  show "qinv W q' \<and> outcome (spec_Acquire lid) (qabs q) r (qabs q')"
    if "qinv W q" "id_text lid" "be_Acquire (redis_ops rd js) lid q = (r, q')" for q lid r q'
    using that redis_Acquire_spec [where W = W and q = q and r = r and q' = q', OF _ that(2)] by (simp add: redis_ops_def)
  show "qinv W q' \<and> outcome (spec_Complete tid lid) (qabs q) r (qabs q')"
    if "qinv W q" "be_Complete (redis_ops rd js) tid lid q = (r, q')" for q tid lid r q'
    using that redis_fenced_spec(1) [where W = W and q = q and r = r and q' = q'] by (simp add: redis_ops_def)
  show "qinv W q' \<and> outcome (spec_Requeue tid lid) (qabs q) r (qabs q')"
    if "qinv W q" "can_bump redis_room tid (qabs q)" "be_Requeue (redis_ops rd js) tid lid q = (r, q')" for q tid lid r q'
    using that redis_fenced_spec(2) [where W = W and q = q and r = r and q' = q', OF _ that(2)] by (simp add: redis_ops_def)
  show "qinv W q' \<and> outcome (spec_DeadLetter tid lid reason now) (qabs q) r (qabs q')"
    if "qinv W q" "can_bump redis_room tid (qabs q)" "utf8_valid reason" "clock_text now" "be_DeadLetter (redis_ops rd js) tid lid reason now q = (r, q')" for q tid lid reason now r q'
    using that redis_fenced_spec(3) [where W = W and q = q and r = r and q' = q', OF _ that(2-4)] by (simp add: redis_ops_def)
  show "qinv W q' \<and> ((\<exists>res. r = Inr res \<and> spec_Recover active (qabs q) res (qabs q')) \<or>
      (\<exists>e. r = Inl e \<and> (qabs q' = qabs q \<or> (\<exists>res. spec_Recover active (qabs q) res (qabs q')))))"
    if "qinv W q" "be_RecoverOrphanedProcessing (redis_ops rd js) active q = (r, q')" for q active r q'
    using redis_Recover_spec [OF that(1), of active r q'] that(2) by (auto simp: redis_ops_def)
qed

context redis_server
begin

abbreviation cinv :: "other_keys \<Rightarrow> 'r RedisQueue \<Rightarrow> bool" where
  "cinv W \<equiv> redis_inv rlist rhash W (\<lambda>n. n = [])"

lemma redis_inv_calm: "cinv W q \<longleftrightarrow> qinv W q \<and> rq_net q = []"
  by (auto simp: redis_inv_def)

end

sublocale redis_server \<subseteq> calm: reliable_backend "redis_ops rd js" "redis_abs rlist rhash"
  "redis_inv rlist rhash W (\<lambda>n. n = [])" redis_room for W
proof unfold_locales
  show "aq_wf (qabs q)" if "cinv W q" for q
    using that net.invar_wf [of W q] by (simp add: redis_inv_calm)
  show "cinv W q' \<and> (r, qabs q') = spec_Enqueue t (qabs q)"
    if "cinv W q" "id_text (task_ID t)" "task_Attempts t = 0" "be_Enqueue (redis_ops rd js) t q = (r, q')" for q t r q'
    using that redis_Enqueue_spec [where W = W and q = q and r = r and q' = q', OF _ that(2,3)] by (simp add: redis_ops_def redis_inv_calm)
  show "cinv W q' \<and> (r, qabs q') = spec_Acquire lid (qabs q)"
    if "cinv W q" "id_text lid" "be_Acquire (redis_ops rd js) lid q = (r, q')" for q lid r q'
    using that redis_Acquire_spec [where W = W and q = q and r = r and q' = q', OF _ that(2)] by (simp add: redis_ops_def redis_inv_calm)
  show "cinv W q' \<and> (r, qabs q') = spec_Complete tid lid (qabs q)"
    if "cinv W q" "be_Complete (redis_ops rd js) tid lid q = (r, q')" for q tid lid r q'
    using that redis_fenced_spec(1) [where W = W and q = q and r = r and q' = q'] by (simp add: redis_ops_def redis_inv_calm)
  show "cinv W q' \<and> (r, qabs q') = spec_Requeue tid lid (qabs q)"
    if "cinv W q" "can_bump redis_room tid (qabs q)" "be_Requeue (redis_ops rd js) tid lid q = (r, q')" for q tid lid r q'
    using that redis_fenced_spec(2) [where W = W and q = q and r = r and q' = q', OF _ that(2)] by (simp add: redis_ops_def redis_inv_calm)
  show "cinv W q' \<and> (r, qabs q') = spec_DeadLetter tid lid reason now (qabs q)"
    if "cinv W q" "can_bump redis_room tid (qabs q)" "utf8_valid reason" "clock_text now" "be_DeadLetter (redis_ops rd js) tid lid reason now q = (r, q')" for q tid lid reason now r q'
    using that redis_fenced_spec(3) [where W = W and q = q and r = r and q' = q', OF _ that(2-4)] by (simp add: redis_ops_def redis_inv_calm)
  show "cinv W q' \<and> (\<exists>res. r = Inr res \<and> spec_Recover active (qabs q) res (qabs q'))"
    if "cinv W q" "be_RecoverOrphanedProcessing (redis_ops rd js) active q = (r, q')" for q active r q'
    using redis_Recover_spec [of W q active r q'] that by (simp add: redis_ops_def redis_inv_calm)
  show "be_Stats (redis_ops rd js) q = \<lparr>qs_Ready = length (aq_ready (qabs q)), qs_Processing = card (dom (aq_proc (qabs q))),
      qs_Dead = length (aq_dead (qabs q))\<rparr>" if "cinv W q" for q
    using that redis_Stats_spec [of W q] by (simp add: redis_ops_def redis_inv_calm)
qed

end
