(* ===== verification/Redis_Store.thy ===== *)
theory Redis_Store
  imports Redis_Contract Engine_Runs
begin

text \<open>
  A server for the Redis backend: the eight commands on a key space of lists and hashes, as the Redis
  documentation describes them, and a \<open>cjson\<close> for the documents of this program. It keeps every law of
  \<open>redis_server\<close>, so the backend on it keeps the contract of the engine, with the journal in a file beside it.

  The key space is one map. A key whose list or hash is empty does not exist; a command on a key that holds the
  other kind of value answers \<open>WRONGTYPE\<close>.
\<close>

section \<open>The engine on Redis\<close>

text \<open>With every call answered, the backend on a server and a journal file keep what the engine relies on.\<close>

sublocale redis_server \<subseteq> rw: engine_contracts "redis_ops rd js" "redis_abs rlist rhash" "redis_inv rlist rhash W (\<lambda>n. n = [])" redis_room
  "wal_append c" "wal_records c" "wal_invar c" for W c
  by unfold_locales

text \<open>Recovery works with a network that loses requests and replies, too.\<close>

sublocale redis_server \<subseteq> rn: recovery_contracts "redis_ops rd js" "redis_abs rlist rhash"
  "redis_inv rlist rhash W (list_all fate_once)" redis_room "wal_append c" "wal_records c" "wal_invar c" for W c
  by unfold_locales

context redis_server
begin

lemma recovery_on_redis:
  "recovery_contracts (redis_ops rd js) (redis_abs rlist rhash) (redis_inv rlist rhash W (list_all fate_once)) redis_room
     (wal_append c) (wal_records c) (wal_invar c)"
  by (rule rn.recovery_contracts_axioms)

lemma engine_on_redis:
  "engine_contracts (redis_ops rd js) (redis_abs rlist rhash) (redis_inv rlist rhash W (\<lambda>n. n = [])) redis_room
     (wal_append c) (wal_records c) (wal_invar c)"
  by (rule rw.engine_contracts_axioms)

end

section \<open>The key space\<close>

datatype redis_value = RList "string list" | RHash "(string \<times> string) list"

type_synonym keyspace = "(string, redis_value) gomap"

definition held :: "keyspace \<Rightarrow> string \<Rightarrow> redis_value option" where
  "held ks k =
     (case gm_get ks k of
        Some (RList []) \<Rightarrow> None
      | Some (RHash []) \<Rightarrow> None
      | v \<Rightarrow> v)"

definition ks_list :: "keyspace \<Rightarrow> string \<Rightarrow> string list" where
  "ks_list ks k = (case held ks k of Some (RList xs) \<Rightarrow> xs | _ \<Rightarrow> [])"

definition ks_pairs :: "keyspace \<Rightarrow> string \<Rightarrow> (string \<times> string) list" where
  "ks_pairs ks k = (case held ks k of Some (RHash ps) \<Rightarrow> ps | _ \<Rightarrow> [])"

definition ks_hash :: "keyspace \<Rightarrow> string \<Rightarrow> string \<rightharpoonup> string" where
  "ks_hash ks k = map_of (ks_pairs ks k)"

definition wrong_type :: string where
  "wrong_type = ''WRONGTYPE Operation against a key holding the wrong kind of value''"

definition on_list :: "string \<Rightarrow> (string list \<Rightarrow> 'a \<times> string list) \<Rightarrow> (keyspace, 'a) script" where
  "on_list k f ks =
     (case held ks k of
        Some (RHash _) \<Rightarrow> (Inl wrong_type, ks)
      | _ \<Rightarrow> (case f (ks_list ks k) of (a, xs) \<Rightarrow> (Inr a, gm_put k (RList xs) ks)))"

definition on_hash :: "string \<Rightarrow> ((string \<times> string) list \<Rightarrow> 'a \<times> (string \<times> string) list) \<Rightarrow> (keyspace, 'a) script" where
  "on_hash k f ks =
     (case held ks k of
        Some (RList _) \<Rightarrow> (Inl wrong_type, ks)
      | _ \<Rightarrow> (case f (ks_pairs ks k) of (a, ps) \<Rightarrow> (Inr a, gm_put k (RHash ps) ks)))"

definition read_list :: "string \<Rightarrow> (string list \<Rightarrow> 'a) \<Rightarrow> (keyspace, 'a) script" where
  "read_list k f ks = (case held ks k of Some (RHash _) \<Rightarrow> (Inl wrong_type, ks) | _ \<Rightarrow> (Inr (f (ks_list ks k)), ks))"

definition read_hash :: "string \<Rightarrow> ((string \<times> string) list \<Rightarrow> 'a) \<Rightarrow> (keyspace, 'a) script" where
  "read_hash k f ks = (case held ks k of Some (RList _) \<Rightarrow> (Inl wrong_type, ks) | _ \<Rightarrow> (Inr (f (ks_pairs ks k)), ks))"

definition store_api :: "keyspace redis_api" where
  "store_api =
     \<lparr>rd_RPOP = (\<lambda>k. on_list k (\<lambda>xs. if xs = [] then (None, []) else (Some (last xs), butlast xs))),
      rd_LPUSH = (\<lambda>k v. on_list k (\<lambda>xs. (Suc (length xs), v # xs))),
      rd_HSET = (\<lambda>k f v. on_hash k (\<lambda>ps. (if map_of ps f = None then 1 else 0, gm_put f v ps))),
      rd_HGET = (\<lambda>k f. read_hash k (\<lambda>ps. map_of ps f)),
      rd_HDEL = (\<lambda>k f. on_hash k (\<lambda>ps. (if map_of ps f = None then 0 else 1, gm_del f ps))),
      rd_HGETALL = (\<lambda>k. read_hash k (\<lambda>ps. flat (AList.clearjunk ps))),
      rd_LLEN = (\<lambda>k. read_list k length),
      rd_HLEN = (\<lambda>k. read_hash k (\<lambda>ps. length (AList.clearjunk ps)))\<rparr>"

lemma list_key: "ks_hash ks k = Map.empty \<Longrightarrow> \<not> (\<exists>ps. held ks k = Some (RHash ps))"
  by (auto simp: ks_hash_def ks_pairs_def held_def split: option.splits redis_value.splits list.splits)

lemma hash_key: "ks_list ks k = [] \<Longrightarrow> \<not> (\<exists>xs. held ks k = Some (RList xs))"
  by (auto simp: ks_list_def held_def split: option.splits redis_value.splits list.splits)

lemma on_list_run:
  assumes "ks_hash ks k = Map.empty" and "f (ks_list ks k) = (a, xs)"
  shows "\<exists>ks'. on_list k f ks = (Inr a, ks') \<and> ks_list ks' = (ks_list ks)(k := xs) \<and> ks_hash ks' = ks_hash ks"
proof -
  let ?ks = "gm_put k (RList xs) ks"
  have "on_list k f ks = (Inr a, ?ks)"
    using list_key [OF assms(1)] assms(2) by (auto simp: on_list_def split: option.split redis_value.split)
  moreover have "ks_list ?ks = (ks_list ks)(k := xs)"
    by (auto simp: fun_eq_iff ks_list_def held_def gomap_simps split: option.split redis_value.split list.split)
  moreover have "ks_hash ?ks k' = ks_hash ks k'" for k'
  proof (cases "k' = k")
    case True
    then show ?thesis using assms(1) by (simp add: ks_hash_def ks_pairs_def held_def gomap_simps split: list.split)
  qed (simp add: ks_hash_def ks_pairs_def held_def gomap_simps)
  ultimately show ?thesis by blast
qed

lemma on_hash_run:
  assumes "ks_list ks k = []" and "f (ks_pairs ks k) = (a, ps)"
  shows "\<exists>ks'. on_hash k f ks = (Inr a, ks') \<and> ks_hash ks' = (ks_hash ks)(k := map_of ps) \<and> ks_list ks' = ks_list ks"
proof -
  let ?ks = "gm_put k (RHash ps) ks"
  have "on_hash k f ks = (Inr a, ?ks)"
    using hash_key [OF assms(1)] assms(2) by (auto simp: on_hash_def split: option.split redis_value.split)
  moreover have "ks_hash ?ks = (ks_hash ks)(k := map_of ps)"
    by (auto simp: fun_eq_iff ks_hash_def ks_pairs_def held_def gomap_simps split: option.split redis_value.split list.split)
  moreover have "ks_list ?ks k' = ks_list ks k'" for k'
  proof (cases "k' = k")
    case True
    then show ?thesis using assms(1) by (simp add: ks_list_def held_def gomap_simps split: list.split)
  qed (simp add: ks_list_def held_def gomap_simps)
  ultimately show ?thesis by blast
qed

lemma read_list_run: "ks_hash ks k = Map.empty \<Longrightarrow> read_list k f ks = (Inr (f (ks_list ks k)), ks)"
  using list_key [of ks k] by (auto simp: read_list_def split: option.split redis_value.split)

lemma read_hash_run: "ks_list ks k = [] \<Longrightarrow> read_hash k f ks = (Inr (f (ks_pairs ks k)), ks)"
  using hash_key [of ks k] by (auto simp: read_hash_def split: option.split redis_value.split)

section \<open>Documents\<close>

text \<open>A \<open>cjson\<close> for documents without arrays and with whole numbers: it writes the fields this program uses, in a
  fixed order.\<close>

definition doc_keys :: "string list" where
  "doc_keys = [''id'', ''payload'', ''attempts'', ''task'', ''reason'', ''dead_at'']"

primrec lua_text :: "lua \<Rightarrow> string" where
  "lua_text LNil = ''null''"
| "lua_text LNull = ''null''"
| "lua_text (LBool b) = (if b then ''true'' else ''false'')"
| "lua_text (LNum n) = show_int n"
| "lua_text (LStr s) = json_string s"
| "lua_text (LTab t) = json_struct (List.map_filter (\<lambda>k. map_option (Pair k) ((map_option lua_text \<circ> t) k)) doc_keys)"

fun lua_of :: "json \<Rightarrow> lua" where
  "lua_of JNull = LNull"
| "lua_of (JBool b) = LBool b"
| "lua_of (JNumber n) = (case ParseInt n of None \<Rightarrow> LNil | Some i \<Rightarrow> LNum (sint i))"
| "lua_of (JString raw) = LStr (unquote raw)"
| "lua_of (JArray vs) = LNil"
| "lua_of (JObject ms) = LTab (map_of (map (\<lambda>(k, v). (unquote k, lua_of v)) ms))"

definition store_cjson :: cjson where
  "store_cjson =
     \<lparr>cj_decode = (\<lambda>s. case parse_json s of None \<Rightarrow> Inl ''Expected value but found invalid token'' | Some v \<Rightarrow> Inr (lua_of v)),
      cj_encode = (\<lambda>v. Inr (lua_text v))\<rparr>"

lemma map_of_constant:
  "\<forall>(k, v) \<in> set xs. v = f k \<Longrightarrow> map_of xs = (\<lambda>k. if k \<in> fst ` set xs then Some (f k) else None)"
  by (induction xs) (auto simp: fun_eq_iff)

lemma lua_of_bytes:
  "shows_bytes p v \<Longrightarrow> lua_of v = (case p of None \<Rightarrow> LNull | Some b \<Rightarrow> LStr (base64 b))"
  by (auto simp: shows_bytes_def shows_string_def split: option.splits)

lemma lua_of_task:
  assumes "shows_task t v"
  shows "lua_of v = lua_task t"
proof -
  define f where "f = (\<lambda>k. if k = ''id'' then LStr (task_ID t)
    else if k = ''payload'' then (case task_Payload t of None \<Rightarrow> LNull | Some p \<Rightarrow> LStr (base64 p)) else LNum (sint (task_Attempts t)))"
  obtain ms where v: "v = JObject ms" and keys: "(unquote \<circ> fst) ` set ms = {''id'', ''payload'', ''attempts''}"
    and vals: "\<forall>(k, x) \<in> set ms. \<exists>P. map_of [(''id'', shows_string (task_ID t)), (''payload'', shows_bytes (task_Payload t)),
      (''attempts'', \<lambda>v. v = JNumber (show_int (sint (task_Attempts t))))] (unquote k) = Some P \<and> P x"
    using assms unfolding shows_task_def shows_fields_def by auto
  have "lua_of x = f (unquote k)" if "(k, x) \<in> set ms" for k x
  proof -
    have "unquote k \<in> {''id'', ''payload'', ''attempts''}" using keys that by force
    with bspec [OF vals that] show ?thesis
      by (auto simp: f_def shows_string_def ParseInt_show_int dest: lua_of_bytes)
  qed
  then have "\<forall>(k, y) \<in> set (map (\<lambda>(k, v). (unquote k, lua_of v)) ms). y = f k" by auto
  note map_of_constant [OF this]
  moreover have "fst ` set (map (\<lambda>(k, v). (unquote k, lua_of v)) ms) = {''id'', ''payload'', ''attempts''}"
    using keys by (simp add: image_image split_def comp_def)
  ultimately show ?thesis by (auto simp: v lua_task_def f_def fun_eq_iff)
qed

definition json_of_lua_task :: "task \<Rightarrow> json" where
  "json_of_lua_task t =
     JObject [(''id'', JString (appendString (task_ID t))),
       (''payload'', case task_Payload t of None \<Rightarrow> JNull | Some p \<Rightarrow> JString (appendString (base64 p))),
       (''attempts'', JNumber (show_int (sint (task_Attempts t))))]"

lemma denotes_lua_task: "denotes 1 (lua_text (lua_task t)) (json_of_lua_task t)"
proof -
  let ?p = "case task_Payload t of None \<Rightarrow> ''null'' | Some p \<Rightarrow> json_string (base64 p)"
    and ?v = "case task_Payload t of None \<Rightarrow> JNull | Some p \<Rightarrow> JString (appendString (base64 p))"
  have "denotes 0 ?p ?v" by (simp add: denotes_null denotes_string split: option.split)
  moreover have "lua_text (lua_task t) =
      json_struct [(''id'', json_string (task_ID t)), (''payload'', ?p), (''attempts'', show_int (sint (task_Attempts t)))]"
    by (simp add: lua_task_def doc_keys_def List.map_filter_def split: option.split)
  ultimately show ?thesis
    using denotes_struct [of "[(''id'', json_string (task_ID t), JString (appendString (task_ID t))), (''payload'', ?p, ?v),
        (''attempts'', show_int (sint (task_Attempts t)), JNumber (show_int (sint (task_Attempts t))))]" 0]
    by (simp add: json_of_lua_task_def denotes_string denotes_int appendString_names)
qed

lemma shows_printed: "utf8_valid s \<Longrightarrow> shows_string s (JString (appendString s))"
  using unquote_appendString [of s "[]"] by (simp add: shows_string_def)

lemma shows_lua_task: "task_fits t \<Longrightarrow> shows_task t (json_of_lua_task t)"
proof -
  assume "task_fits t"
  moreover have "utf8_valid (base64 p)" for p
    using base64_plain by (intro utf8_valid_ascii) (auto simp: list_all_iff plain_def byte_in_def)
  ultimately show ?thesis
    by (simp add: shows_task_def shows_fields_def json_of_lua_task_def unquote_names shows_printed task_fits_def shows_bytes_def split: option.split)
qed

lemma denotes_dead:
  fixes t :: task and reason :: string and now :: instant
  defines "v \<equiv> JObject [(''task'', json_of_lua_task t), (''reason'', JString (appendString reason)), (''dead_at'', JString (RFC3339Nano 0 now))]"
  assumes "clock_text now"
  shows "denotes 2 (lua_text (dead_table (lua_task t) reason (RFC3339Nano 0 now))) v"
proof -
  have plain: "\<forall>c \<in> set (RFC3339Nano 0 now). plain c"
    using format_time_plain [OF format_time_clock] assms(2) by (auto simp: clock_text_def)
  have eq: "lua_text (dead_table (lua_task t) reason (RFC3339Nano 0 now)) =
      json_struct [(''task'', lua_text (lua_task t)), (''reason'', json_string reason), (''dead_at'', json_string (RFC3339Nano 0 now))]"
    by (simp add: dead_table_def doc_keys_def List.map_filter_def)
  have one: "denotes (Suc 0) (lua_text (lua_task t)) (json_of_lua_task t)" "denotes (Suc 0) (json_string s) (JString (appendString s))" for s
    using denotes_lua_task denotes_mono [OF denotes_string, of "Suc 0"] by simp_all
  then show ?thesis
    using denotes_struct [of "[(''task'', lua_text (lua_task t), json_of_lua_task t), (''reason'', json_string reason, JString (appendString reason)),
        (''dead_at'', json_string (RFC3339Nano 0 now), JString (appendString (RFC3339Nano 0 now)))]" "Suc 0"]
      one(2) [of "RFC3339Nano 0 now"]
    by (simp add: v_def eq appendString_names appendString_plain [OF plain] numeral_2_eq_2)
qed

section \<open>The server keeps the laws\<close>

interpretation rs: redis_server store_api store_cjson ks_list ks_hash
proof unfold_locales
  fix r :: keyspace and k f v :: string
  show "\<exists>r'. rd_RPOP store_api k r = (Inr (if ks_list r k = [] then None else Some (last (ks_list r k))), r') \<and>
      ks_list r' = (ks_list r)(k := butlast (ks_list r k)) \<and> ks_hash r' = ks_hash r" if "ks_hash r k = Map.empty"
    using on_list_run [OF that, of "\<lambda>xs. if xs = [] then (None, []) else (Some (last xs), butlast xs)"] by (auto simp: store_api_def)
  show "\<exists>n r'. rd_LPUSH store_api k v r = (Inr n, r') \<and> ks_list r' = (ks_list r)(k := v # ks_list r k) \<and> ks_hash r' = ks_hash r"
    if "ks_hash r k = Map.empty"
    using on_list_run [OF that, of "\<lambda>xs. (Suc (length xs), v # xs)"] by (auto simp: store_api_def)
  show "rd_LLEN store_api k r = (Inr (length (ks_list r k)), r)" if "ks_hash r k = Map.empty"
    using read_list_run [OF that] by (simp add: store_api_def)
  show "\<exists>n r'. rd_HSET store_api k f v r = (Inr n, r') \<and> ks_hash r' = (ks_hash r)(k := (ks_hash r k)(f \<mapsto> v)) \<and> ks_list r' = ks_list r"
    if "ks_list r k = []"
    using on_hash_run [OF that, of "\<lambda>ps. (if map_of ps f = None then 1 else 0, gm_put f v ps)"]
    by (auto simp: store_api_def gomap_simps ks_hash_def)
  show "\<exists>n r'. rd_HDEL store_api k f r = (Inr n, r') \<and> ks_hash r' = (ks_hash r)(k := (ks_hash r k)(f := None)) \<and> ks_list r' = ks_list r"
    if "ks_list r k = []"
    using on_hash_run [OF that, of "\<lambda>ps. (if map_of ps f = None then 0 else 1, gm_del f ps)"]
    by (auto simp: store_api_def gomap_simps ks_hash_def)
  show "rd_HGET store_api k f r = (Inr (ks_hash r k f), r)" if "ks_list r k = []"
    using read_hash_run [OF that] by (simp add: store_api_def ks_hash_def)
  show "\<exists>ps. rd_HGETALL store_api k r = (Inr (flat ps), r) \<and> distinct (map fst ps) \<and> map_of ps = ks_hash r k" if "ks_list r k = []"
    using read_hash_run [OF that] by (intro exI [of _ "AList.clearjunk (ks_pairs r k)"])
      (simp add: store_api_def ks_hash_def distinct_clearjunk map_of_clearjunk)
  show "rd_HLEN store_api k r = (Inr (card (dom (ks_hash r k))), r)" if "ks_list r k = []"
  proof -
    have "length (AList.clearjunk ps) = card (dom (map_of ps))" for ps :: "(string \<times> string) list"
      using gm_length_card [of "AList.clearjunk ps"] by (simp add: gm_ok_def distinct_clearjunk map_of_clearjunk)
    with read_hash_run [OF that] show ?thesis by (simp add: store_api_def ks_hash_def)
  qed
next
  fix s j t
  assume "parse_json s = Some j" and "shows_task t j"
  then show "cj_decode store_cjson s = Inr (lua_task t)" by (simp add: store_cjson_def lua_of_task)
next
  fix t assume fits: "task_fits t"
  have "parse_json (lua_text (lua_task t)) = Some (json_of_lua_task t)"
    by (rule parse_denotes [OF denotes_lua_task]) (simp add: maxNestingDepth_def)
  with shows_lua_task [OF fits] show "\<exists>s v. cj_encode store_cjson (lua_task t) = Inr s \<and> parse_json s = Some v \<and> shows_task t v"
    by (simp add: store_cjson_def)
  fix reason now assume "utf8_valid reason" and now: "clock_text now"
  with shows_lua_task [OF fits] have "shows_dead \<lparr>dead_Task = t, dead_Reason = reason, dead_DeadAt = now\<rparr>
      (JObject [(''task'', json_of_lua_task t), (''reason'', JString (appendString reason)), (''dead_at'', JString (RFC3339Nano 0 now))])"
    by (simp add: shows_dead_def shows_fields_def unquote_names shows_printed)
  moreover note parse_denotes [OF denotes_dead [OF now, of t reason]]
  ultimately show "\<exists>s v. cj_encode store_cjson (dead_table (lua_task t) reason (RFC3339Nano 0 now)) = Inr s \<and> parse_json s = Some v \<and>
      shows_dead \<lparr>dead_Task = t, dead_Reason = reason, dead_DeadAt = now\<rparr> v"
    by (simp add: store_cjson_def maxNestingDepth_def)
qed

end
