(* ===== verification/Engine_Faults.thy ===== *)
theory Engine_Faults
  imports Engine_Runs
begin

text \<open>
  The engine on storage whose calls may fail with an error of the transport after the transition has happened or
  before it (\<open>backend_contract\<close>), and on any journal: no method loses or duplicates a task.
\<close>

context backend_contract
begin

lemma outcome_queue: "outcome spec q r q' \<Longrightarrow> q' = snd (spec q) \<or> q' = q \<and> (\<exists>e. r = Inl e)"
  by (auto simp: outcome_def dest: arg_cong [of "(_, _)" _ snd])

lemma faulty_Acquire:
  assumes "invar b" and "id_text lid" and "be_Acquire ops lid b = (r, b')" and "aq_distinct (abs b)"
  shows "invar b' \<and> task_ids (abs b') = task_ids (abs b) \<and>
    (\<forall>t. r = Inr t \<longrightarrow> t \<in> set (aq_ready (abs b)) \<and> aq_proc (abs b') (task_ID t) = Some (t, lid))"
proof -
  have ok: "invar b'" "outcome (spec_Acquire lid) (abs b) r (abs b')" using Acquire [OF assms(1-3)] by simp_all
  have "aq_proc (abs b) (task_ID t) = None" if "aq_ready (abs b) = t # ts" for t ts
    using aq_distinct_head [OF invar_wf [OF assms(1)] assms(4) that] by simp
  with task_ids_Acquire [OF invar_wf [OF assms(1)], of lid] outcome_queue [OF ok(2)]
  have "task_ids (abs b') = task_ids (abs b)" by auto
  moreover have "t \<in> set (aq_ready (abs b)) \<and> aq_proc (abs b') (task_ID t) = Some (t, lid)" if "r = Inr t" for t
    using ok(2) that by (auto simp: outcome_def spec_Acquire_def split: list.splits)
  ultimately show ?thesis using ok(1) by blast
qed

lemma faulty_Requeue:
  assumes "invar b" and "can_bump room tid (abs b)" and "be_Requeue ops tid lid b = (r, b')"
  shows "invar b' \<and> task_ids (abs b') = task_ids (abs b) \<and> aq_proc (abs b') \<subseteq>\<^sub>m aq_proc (abs b)"
proof -
  have ok: "invar b'" "outcome (spec_Requeue tid lid) (abs b) r (abs b')" using Requeue [OF assms] by simp_all
  have "aq_proc (snd (spec_Requeue tid lid (abs b))) \<subseteq>\<^sub>m aq_proc (abs b)"
    by (auto simp: spec_Requeue_def map_le_def split: sum.split)
  with task_ids_fenced(1) [OF invar_wf [OF assms(1)]] outcome_queue [OF ok(2)] ok(1) show ?thesis by auto
qed

lemma faulty_DeadLetter:
  assumes "invar b" and "can_bump room tid (abs b)" and "utf8_valid reason" and "clock_text now"
    and "be_DeadLetter ops tid lid reason now b = (r, b')"
  shows "invar b' \<and> task_ids (abs b') = task_ids (abs b) \<and> aq_proc (abs b') \<subseteq>\<^sub>m aq_proc (abs b)"
proof -
  have ok: "invar b'" "outcome (spec_DeadLetter tid lid reason now) (abs b) r (abs b')" using DeadLetter [OF assms] by simp_all
  have "aq_proc (snd (spec_DeadLetter tid lid reason now (abs b))) \<subseteq>\<^sub>m aq_proc (abs b)"
    by (auto simp: spec_DeadLetter_def map_le_def split: sum.split)
  with task_ids_fenced(2) [OF invar_wf [OF assms(1)]] outcome_queue [OF ok(2)] ok(1) show ?thesis by auto
qed

text \<open>What the methods keep: storage keeps its invariant and the tasks.\<close>

abbreviation keeps :: "('b, 'j) Engine \<Rightarrow> ('b, 'j) Engine \<Rightarrow> bool" where
  "keeps e e' \<equiv> invar (en_ready e') \<and> task_ids (abs (en_ready e')) = task_ids (abs (en_ready e))"

lemma engine_record_ready: "engine_record app r e = (res, e') \<Longrightarrow> en_ready e' = en_ready e"
  using engine_record_frame(1) [of app r e] by simp

lemma faulty_Fetch:
  assumes "invar (en_ready e)" and "aq_distinct (abs (en_ready e))" and "id_text uuid" and "can_fetch room (abs (en_ready e))"
    and run: "engine_Fetch ops app uuid now timeout e = (r, e')"
  shows "keeps e e'"
proof (cases "sint timeout \<le> 0 \<or> en_recoveryErr e \<noteq> None")
  case True
  with run have "e' = e" by (auto simp: engine_Fetch_def ensureRecovered_def split: if_splits option.splits)
  then show ?thesis by (simp add: assms(1))
next
  case False
  obtain ra b where acq: "be_Acquire ops uuid (en_ready e) = (ra, b)" by fastforce
  note a = faulty_Acquire [OF assms(1,3) acq assms(2)]
  show ?thesis
  proof (cases ra)
    case (Inl err)
    with run acq False have "en_ready e' = b" by (auto simp: engine_Fetch_def ensureRecovered_def)
    with a show ?thesis by simp
  next
    case (Inr t)
    define l where "l = \<lparr>lease_LeaseID = uuid, lease_Task = t, lease_ExpiresAt = now + sint timeout, lease_CreatedAt = now\<rparr>"
    obtain rj e1 where rec: "engine_record app (fetch_record l) (e\<lparr>en_ready := b\<rparr>) = (rj, e1)" by fastforce
    have e1: "en_ready e1 = b" using engine_record_ready [OF rec] by simp
    obtain rq b' where req: "be_Requeue ops (task_ID t) uuid b = (rq, b')" by fastforce
    have "can_bump room (task_ID t) (abs b)" using a Inr assms(4) by (auto simp: can_bump_def can_fetch_def)
    note q = faulty_Requeue [OF _ this req]
    have "en_ready e' = b \<or> en_ready e' = b'"
      using run acq False Inr rec e1 req
      by (auto simp: engine_Fetch_def ensureRecovered_def Let_def l_def [symmetric] install_lease_def split: sum.splits prod.splits)
    with a q show ?thesis by auto
  qed
qed

lemma faulty_Ack:
  assumes "invar (en_ready e)" and run: "engine_Ack ops app l e = (r, e')"
  shows "invar (en_ready e') \<and> (keeps e e' \<and> r \<noteq> Inr () \<or> (\<exists>le. gm_get (en_leases e) l = Some le \<and>
    task_ids (abs (en_ready e)) = add_mset (task_ID (lease_Task le)) (task_ids (abs (en_ready e')))))"
proof (cases "en_recoveryErr e = None \<and> gm_get (en_leases e) l \<noteq> None")
  case False
  with run have "e' = e" "r \<noteq> Inr ()" by (auto simp: engine_Ack_def ensureRecovered_def split: option.splits)
  then show ?thesis by (simp add: assms(1))
next
  case True
  then obtain le where le: "gm_get (en_leases e) l = Some le" by blast
  let ?tid = "task_ID (lease_Task le)"
  obtain rc b where com: "be_Complete ops ?tid (lease_LeaseID le) (en_ready e) = (rc, b)" by fastforce
  have ok: "invar b" "outcome (spec_Complete ?tid (lease_LeaseID le)) (abs (en_ready e)) rc (abs b)"
    using Complete [OF assms(1) com] by simp_all
  have ready: "en_ready e' = b"
    using run True le com engine_record_frame(1) [of app _ "e\<lparr>en_ready := b\<rparr>"]
    by (auto simp: engine_Ack_def ensureRecovered_def delete_lease_def split: sum.splits prod.splits if_splits dest!: engine_record_ready)
  note ids = task_ids_fenced(3,4) [OF invar_wf [OF assms(1)], of ?tid "lease_LeaseID le"]
  show ?thesis
  proof (cases "fst (spec_Complete ?tid (lease_LeaseID le) (abs (en_ready e)))")
    case (Inl err)
    then have same: "abs b = abs (en_ready e)" using ids(2) [OF Inl] outcome_queue [OF ok(2)] by auto
    have "rc \<noteq> Inr ()" using ok(2) Inl by (auto simp: outcome_def dest: arg_cong [of "(_, _)" _ fst])
    then have "r \<noteq> Inr ()"
      using run True le com by (cases rc) (auto simp: engine_Ack_def ensureRecovered_def split: sum.splits prod.splits if_splits)
    with ready same ok(1) show ?thesis by simp
  next
    case (Inr u)
    note fin = ids(1) [OF Inr [simplified]]
    show ?thesis
    proof (cases "abs b = snd (spec_Complete ?tid (lease_LeaseID le) (abs (en_ready e)))")
      case True
      then show ?thesis using fin le ready ok(1) by auto
    next
      case False
      with outcome_queue [OF ok(2)] obtain err where err: "abs b = abs (en_ready e)" "rc = Inl err" by blast
      then have "r \<noteq> Inr ()"
        using run True le com by (auto simp: engine_Ack_def ensureRecovered_def split: sum.splits prod.splits if_splits)
      with err ready ok(1) show ?thesis by simp
    qed
  qed
qed

lemma faulty_expire:
  assumes "invar (en_ready e)" and "can_reap room wall (abs (en_ready e))" and "expireLease ops app wall le e = (r, e')"
  shows "keeps e e' \<and> aq_proc (abs (en_ready e')) \<subseteq>\<^sub>m aq_proc (abs (en_ready e))"
proof -
  let ?tid = "task_ID (lease_Task le)" and ?l = "lease_LeaseID le"
  have "utf8_valid ''max attempts exceeded''" by (rule reason_text)
  note d = faulty_DeadLetter [OF assms(1) can_reap_bump(1) [OF assms(2)] this can_reap_bump(2) [OF assms(2)]]
  note q = faulty_Requeue [OF assms(1) can_reap_bump(1) [OF assms(2)]]
  obtain res b where mv: "(if shouldDeadLetter (en_config e) le
      then be_DeadLetter ops ?tid ?l ''max attempts exceeded'' (wall ?l) (en_ready e)
      else be_Requeue ops ?tid ?l (en_ready e)) = (res, b)" by fastforce
  have "invar b \<and> task_ids (abs b) = task_ids (abs (en_ready e)) \<and> aq_proc (abs b) \<subseteq>\<^sub>m aq_proc (abs (en_ready e))"
    using mv d q by (auto split: if_splits)
  moreover have "en_ready e' = b"
    using assms(3) mv by (auto simp: expireLease_def Let_def split: sum.splits prod.splits if_splits dest!: engine_record_ready)
  ultimately show ?thesis by simp
qed

lemma faulty_ReapExpired:
  assumes "invar (en_ready e)" and "can_reap room wall (abs (en_ready e))" and run: "engine_ReapExpired ops app wall now e = ((n, err), e')"
  shows "keeps e e'"
proof (cases "en_recoveryErr e")
  case None
  let ?I = "\<lambda>(_ :: nat) e1. keeps e e1 \<and> can_reap room wall (abs (en_ready e1))"
  have loop: "reap_loop ops app wall now 0 e = ((n, err), e')" using run None by (simp add: engine_ReapExpired_def ensureRecovered_def)
  have step: "keeps e e2 \<and> can_reap room wall (abs (en_ready e2))"
    if "keeps e e1 \<and> can_reap room wall (abs (en_ready e1))" and "expireLease ops app wall le (e1\<lparr>en_expirations := h\<rparr>) = (res, e2)" for e1 e2 le h res
  proof -
    have ex: "keeps e1 e2 \<and> aq_proc (abs (en_ready e2)) \<subseteq>\<^sub>m aq_proc (abs (en_ready e1))"
      using faulty_expire [where e = "e1\<lparr>en_expirations := h\<rparr>", OF _ _ that(2)] that(1) by simp
    have "can_reap room wall (abs (en_ready e2))" by (rule can_reap_map_le [of _ _ "abs (en_ready e1)"]) (use that(1) ex in blast)+
    with ex that(1) show ?thesis by simp
  qed
  have "if snd (n, err) = None then ?I (fst (n, err)) e' \<and> (\<forall>it. eh_peek (en_expirations e') = Some it \<longrightarrow> now < ei_ExpiresAt it)
      else ?I (fst (n, err)) e'"
    by (rule reap_loop_rule [OF loop, where I = ?I and R = ?I])
      (use assms(1,2) in \<open>simp_all add: delete_lease_def\<close>, (drule (1) step [simplified], simp)+)
  then show ?thesis by (auto split: if_splits)
next
  case (Some x)
  with run assms(1) show ?thesis by (simp add: engine_ReapExpired_def ensureRecovered_def)
qed

lemma faulty_Enqueue:
  assumes "invar (en_ready e)" and "id_text uuid" and run: "engine_Enqueue ops uuid p e = (r, e')"
  shows "invar (en_ready e') \<and> (task_ids (abs (en_ready e')) = add_mset uuid (task_ids (abs (en_ready e))) \<or>
    (\<exists>err. r = Inl err) \<and> task_ids (abs (en_ready e')) = task_ids (abs (en_ready e)))"
proof (cases "en_recoveryErr e")
  case None
  let ?t = "\<lparr>task_ID = uuid, task_Payload = p, task_Attempts = 0\<rparr>"
  obtain rb b where enq: "be_Enqueue ops ?t (en_ready e) = (rb, b)" by fastforce
  have ok: "invar b" "outcome (spec_Enqueue ?t) (abs (en_ready e)) rb (abs b)" using Enqueue [OF assms(1) _ _ enq] assms(2) by simp_all
  have "en_ready e' = b" "(\<exists>err. r = Inl err) \<longleftrightarrow> (\<exists>err. rb = Inl err)"
    using run None enq by (auto simp: engine_Enqueue_def ensureRecovered_def Let_def split: sum.splits)
  with ok outcome_queue [OF ok(2)] task_ids_Enqueue [of ?t "abs (en_ready e)"] show ?thesis by auto
next
  case (Some x)
  with run assms(1) show ?thesis by (auto simp: engine_Enqueue_def ensureRecovered_def)
qed

end

end
