(* ===== verification/Redis_Properties.thy ===== *)
theory Redis_Properties
  imports Redis_Store Engine_Properties Engine_Faults Daemon
begin

text \<open>
  The properties of the Redis backend (\<open>internal/queue/redis.go\<close>, \<open>internal/queue/redis_scripts.go\<close>) on every
  server that keeps the laws of \<open>redis_server\<close>, and of the lease engine that runs on it with a journal in a
  file. The examples use the key space of \<open>Redis_Store\<close>.
\<close>

section \<open>A queue for the examples\<close>

abbreviation rs_abs :: "keyspace RedisQueue \<Rightarrow> aqueue" where
  "rs_abs \<equiv> redis_abs ks_list ks_hash"

abbreviation rs_inv :: "(fate list \<Rightarrow> bool) \<Rightarrow> keyspace RedisQueue \<Rightarrow> bool" where
  "rs_inv \<equiv> redis_inv ks_list ks_hash (\<lambda>_. ([], Map.empty))"

definition stocked :: "fate list \<Rightarrow> keyspace RedisQueue" where
  "stocked net = (snd (redis_Enqueue store_api example_task (NewRedisQueue [] [] ''q'')))\<lparr>rq_net := net\<rparr>"

lemma redis_example_text: "id_text (task_ID example_task)" "task_Attempts example_task = 0" "id_text ''l1''"
  using example_ids by (simp_all add: example_lease_sel)

lemma keys_distinct: "keys_ok (newRedisQueueKeys name)"
proof -
  have "rk_ready K \<noteq> rk_processing K \<and> rk_ready K \<noteq> rk_processingLeases K \<and> rk_ready K \<noteq> rk_dead K \<and>
      rk_processing K \<noteq> rk_processingLeases K \<and> rk_processing K \<noteq> rk_dead K \<and> rk_processingLeases K \<noteq> rk_dead K"
    if "K = newRedisQueueKeys name" for K
    unfolding that newRedisQueueKeys_def Let_def by (simp add: append_eq_append_conv)
  then show ?thesis by (simp add: keys_ok_def)
qed

lemma queue_keys_new: "queue_keys (NewRedisQueue server net name) = newRedisQueueKeys name"
  by (simp add: queue_keys_def NewRedisQueue_def newRedisQueueKeys_def Let_def)

lemma new_queue_sel: "rq_server (NewRedisQueue server net name) = server" "rq_net (NewRedisQueue server net name) = net"
  by (simp_all add: NewRedisQueue_def Let_def)

lemma empty_store: "ks_list [] k = []" "ks_hash [] k = Map.empty"
  by (simp_all add: ks_list_def ks_hash_def ks_pairs_def held_def)

lemma new_queue: "rs_inv P (NewRedisQueue [] net name) \<longleftrightarrow> P net" "rs_abs (NewRedisQueue [] net name) = aq_empty"
  using keys_distinct [of name]
  by (auto simp: redis_inv_def redis_abs_def queue_keys_new store_ok_def store_abs_def aq_empty_def new_queue_sel empty_store)

lemma stocked_state:
  "rs_inv P (stocked net) \<longleftrightarrow> P net" "rs_abs (stocked net) = \<lparr>aq_ready = [example_task], aq_proc = Map.empty, aq_dead = []\<rparr>"
proof -
  let ?q = "NewRedisQueue [] [] ''q'' :: keyspace RedisQueue"
  obtain r q where run: "redis_Enqueue store_api example_task ?q = (r, q)" by fastforce
  have "rs_inv (list_all fate_once) ?q" by (simp add: new_queue)
  note spec = rs.redis_Enqueue_spec [OF this redis_example_text(1,2) run]
  have net: "rq_net ?q = []" by (simp add: new_queue_sel)
  have eq: "stocked net = q\<lparr>rq_net := net\<rparr>" by (simp add: stocked_def run)
  have keys: "queue_keys (q\<lparr>rq_net := net\<rparr>) = queue_keys q" by (simp add: queue_keys_def)
  show "rs_inv P (stocked net) \<longleftrightarrow> P net"
    using spec unfolding eq redis_inv_def keys by simp
  have "rs_abs (stocked net) = rs_abs q" unfolding eq redis_abs_def keys by simp
  then show "rs_abs (stocked net) = \<lparr>aq_ready = [example_task], aq_proc = Map.empty, aq_dead = []\<rparr>"
    using spec net by (simp add: new_queue(2) spec_Enqueue_def aq_empty_def)
qed

lemma method_keys:
  "redis_Enqueue rd t q = (r, q') \<Longrightarrow> queue_keys q' = queue_keys q"
  "redis_Acquire rd js lid q = (ra, q') \<Longrightarrow> queue_keys q' = queue_keys q"
  by (auto simp: redis_Enqueue_def redis_Acquire_def redis_run_def queue_keys_def split: sum.splits prod.splits option.splits)

lemma stocked_keys: "queue_keys (stocked net) = newRedisQueueKeys ''q''" "rq_net (stocked net) = net"
proof -
  obtain r q where run: "redis_Enqueue store_api example_task (NewRedisQueue [] [] ''q'') = (r, q)" by fastforce
  from method_keys(1) [OF run] show "queue_keys (stocked net) = newRedisQueueKeys ''q''"
    unfolding queue_keys_new by (simp add: stocked_def run queue_keys_def)
qed (simp add: stocked_def)

section \<open>Refinement\<close>

text \<open>A call carries out an operation of the abstract queue: its result and the stored tasks are those of the
  specification when every call is answered; with a failing network it may also end with an error that names no
  verdict of the queue, and the operation has then happened completely or not at all.\<close>

definition carries_out ::
  "('r RedisQueue \<Rightarrow> aqueue) \<Rightarrow> ('r RedisQueue \<Rightarrow> bool) \<Rightarrow> (aqueue \<Rightarrow> (go_error + 'a) \<times> aqueue) \<Rightarrow>
   (go_error + 'a) \<times> 'r RedisQueue \<Rightarrow> 'r RedisQueue \<Rightarrow> bool" where
  "carries_out absq invq spec res q \<longleftrightarrow>
     (case res of (r, q') \<Rightarrow>
        invq q' \<and> outcome spec (absq q) r (absq q') \<and> (rq_net q = [] \<longrightarrow> (r, absq q') = spec (absq q)))"

text \<open>C6. The Redis backend implements the abstract queue: on any server that keeps the documented effect of the
  commands, each method does what the specification says, or fails with an error of the network after which the
  transition has happened completely or not at all, provided the server runs no command twice; when every call is
  answered it returns exactly what the specification returns, startup reconciliation and the counts included. Every
  other key of the server, so every other queue, stays as it is: the invariant says what these keys hold.\<close>

theorem redis_queue_refines:
  fixes rlist :: "'r \<Rightarrow> string \<Rightarrow> string list" and rhash :: "'r \<Rightarrow> string \<Rightarrow> string \<rightharpoonup> string" and W :: other_keys
  defines "absq \<equiv> redis_abs rlist rhash" and "invq \<equiv> redis_inv rlist rhash W (list_all fate_once)"
  assumes "redis_server rd js rlist rhash" and "invq q"
    and "id_text (task_ID t)" and "task_Attempts t = 0" and "id_text lid"
    and "can_bump redis_room tid (absq q)" and "utf8_valid reason" and "clock_text now"
  shows "carries_out absq invq (spec_Enqueue t) (redis_Enqueue rd t q) q \<and>
    carries_out absq invq (spec_Acquire lid) (redis_Acquire rd js lid q) q \<and>
    carries_out absq invq (spec_Complete tid lid) (redis_Complete rd tid lid q) q \<and>
    carries_out absq invq (spec_Requeue tid lid) (redis_Requeue rd js tid lid q) q \<and>
    carries_out absq invq (spec_DeadLetter tid lid reason now) (redis_DeadLetter rd js tid lid reason now q) q \<and>
    (case redis_RecoverOrphanedProcessing rd active q of (r, q') \<Rightarrow> invq q' \<and>
       ((\<exists>res. r = Inr res \<and> spec_Recover active (absq q) res (absq q')) \<or>
        rq_net q \<noteq> [] \<and> (\<exists>e. r = Inl e \<and> (absq q' = absq q \<or> (\<exists>res. spec_Recover active (absq q) res (absq q')))))) \<and>
    (rq_net q = [] \<longrightarrow> redis_Stats rd q =
       \<lparr>qs_Ready = length (aq_ready (absq q)), qs_Processing = card (dom (aq_proc (absq q))), qs_Dead = length (aq_dead (absq q))\<rparr>)"
proof -
  note s = assms(3) and i = assms(4) [unfolded invq_def] and b = assms(8) [unfolded absq_def]
  show ?thesis
    unfolding carries_out_def absq_def invq_def
    using redis_server.redis_Enqueue_spec [OF s i assms(5,6)] redis_server.redis_Acquire_spec [OF s i assms(7)]
      redis_server.redis_fenced_spec(1) [OF s i] redis_server.redis_fenced_spec(2) [OF s i b]
      redis_server.redis_fenced_spec(3) [OF s i b assms(9,10)] redis_server.redis_Recover_spec [OF s i]
      redis_server.redis_Stats_spec [OF s i]
    by (intro conjI) (auto split: prod.split)
qed

theorem redis_queue_refines_witness:
  "(case redis_Acquire store_api store_cjson ''l1'' (stocked []) of (r, q') \<Rightarrow> r = Inr example_task \<and>
      rs_abs q' = \<lparr>aq_ready = [], aq_proc = [''t1'' \<mapsto> (example_task, ''l1'')], aq_dead = []\<rparr>) \<and>
   redis_Stats store_api (stocked []) = \<lparr>qs_Ready = 1, qs_Processing = 0, qs_Dead = 0\<rparr>"
proof -
  have bump: "can_bump redis_room ''t1'' (rs_abs (stocked []))" by (simp add: can_bump_def stocked_state)
  have inv: "rs_inv (list_all fate_once) (stocked [])" by (simp add: stocked_state)
  have net: "rq_net (stocked []) = []" by (simp add: stocked_def)
  have "utf8_valid []" "clock_text 0" by (simp_all add: clock_text_def utf8_valid_ascii)
  note all = redis_queue_refines [OF rs.redis_server_axioms inv redis_example_text bump this]
  from all have "carries_out rs_abs (rs_inv (list_all fate_once)) (spec_Acquire ''l1'') (redis_Acquire store_api store_cjson ''l1'' (stocked [])) (stocked [])"
    by blast
  moreover from all net have "redis_Stats store_api (stocked []) = \<lparr>qs_Ready = length (aq_ready (rs_abs (stocked []))),
      qs_Processing = card (dom (aq_proc (rs_abs (stocked [])))), qs_Dead = length (aq_dead (rs_abs (stocked [])))\<rparr>" by blast
  ultimately show ?thesis
    using net by (auto simp: carries_out_def stocked_state spec_Acquire_def example_lease_sel split: prod.splits)
qed

section \<open>Commands sent again\<close>

text \<open>A command that the server runs \<open>n\<close> times before a reply arrives has the effect of \<open>n\<close> operations more.\<close>

context redis_server
begin

lemma retried:
  assumes step: "\<And>r. sok W K r \<Longrightarrow> \<exists>a r'. cmd r = (Inr a, r') \<and> sok W K r' \<and> (f a, sabs K r') = spec (sabs K r)" and "sok W K r"
  shows "\<exists>a r'. redis_call \<lparr>ft_lost = n, ft_error = None\<rparr> cmd r = (Inr a, r') \<and> sok W K r' \<and>
    (f a, sabs K r') = spec (((snd \<circ> spec) ^^ n) (sabs K r))"
proof -
  have "sok W K (((\<lambda>r. snd (cmd r)) ^^ n) r) \<and> sabs K (((\<lambda>r. snd (cmd r)) ^^ n) r) = ((snd \<circ> spec) ^^ n) (sabs K r)" for n
  proof (induction n)
    case (Suc n)
    with step [of "((\<lambda>r. snd (cmd r)) ^^ n) r"] show ?case by (auto simp: dest: arg_cong [of "(_, _)" _ snd])
  qed (simp add: assms(2))
  with step [of "((\<lambda>r. snd (cmd r)) ^^ n) r"] show ?thesis by (auto simp: redis_call_def)
qed

lemma retried_run:
  assumes step: "\<And>r. sok W (queue_keys q) r \<Longrightarrow>
      \<exists>a r'. cmd r = (Inr a, r') \<and> sok W (queue_keys q) r' \<and> (f a, sabs (queue_keys q) r') = spec (sabs (queue_keys q) r)"
    and "redis_inv rlist rhash W P q" and "rq_net q = \<lparr>ft_lost = n, ft_error = None\<rparr> # fs"
  shows "\<exists>a q'. redis_run cmd q = (Inr a, q') \<and> (f a, qabs q') = spec (((snd \<circ> spec) ^^ n) (qabs q))"
proof -
  have "sok W (queue_keys q) (rq_server q)" using assms(2) by (simp add: redis_inv_def)
  with retried [where cmd = cmd and f = f and spec = spec, OF step, of "rq_server q" n] obtain a r' where
    "redis_call \<lparr>ft_lost = n, ft_error = None\<rparr> cmd (rq_server q) = (Inr a, r')"
    "(f a, sabs (queue_keys q) r') = spec (((snd \<circ> spec) ^^ n) (sabs (queue_keys q) (rq_server q)))" by blast
  with assms(3) show ?thesis by (auto simp: redis_run_def fate_at_def redis_abs_def queue_keys_def)
qed

lemma Enqueue_retried:
  assumes "redis_inv rlist rhash W P q" and "rq_net q = \<lparr>ft_lost = n, ft_error = None\<rparr> # fs"
    and "id_text (task_ID t)" and "task_Attempts t = 0"
  shows "\<exists>q'. redis_Enqueue rd t q = (Inr (), q') \<and> qabs q' = (qabs q)\<lparr>aq_ready := aq_ready (qabs q) @ replicate (Suc n) t\<rparr>"
proof -
  let ?K = "queue_keys q" and ?cmd = "rd_LPUSH rd (rq_readyKey q) (marshal_Task t)"
  have "task_fits t" "CHR 0x00 \<notin> set (task_ID t)" using assms(3,4) by (simp_all add: task_fits_def id_text_def)
  note entry = marshal_entry [OF this]
  have K: "keys_ok ?K" using assms(1) by (simp add: redis_inv_def)
  have "\<exists>a r'. ?cmd r = (Inr a, r') \<and> sok W ?K r' \<and> ((\<lambda>_. Inr ()) a, sabs ?K r') = spec_Enqueue t (sabs ?K r)" if "sok W ?K r" for r
    using Enqueue_step [OF K that entry] by (auto simp: spec_Enqueue_def queue_keys_def)
  from retried_run [where cmd = ?cmd and f = "\<lambda>_. Inr ()" and spec = "spec_Enqueue t", OF this assms(1,2)]
  obtain a q' where "redis_run ?cmd q = (Inr a, q')" and
    abs: "(Inr (), qabs q') = spec_Enqueue t (((snd \<circ> spec_Enqueue t) ^^ n) (qabs q))" by auto
  then have run: "redis_Enqueue rd t q = (Inr (), q')" by (simp add: redis_Enqueue_def encodeTask_def)
  have "((snd \<circ> spec_Enqueue t) ^^ n) x = x\<lparr>aq_ready := aq_ready x @ replicate n t\<rparr>" for x
    by (induction n) (simp_all add: spec_Enqueue_def flip: replicate_append_same)
  with abs run show ?thesis by (simp add: spec_Enqueue_def flip: replicate_append_same)
qed

lemma Acquire_retried:
  assumes "redis_inv rlist rhash W P q" and "rq_net q = \<lparr>ft_lost = 1, ft_error = None\<rparr> # fs"
    and "id_text lid" and "aq_ready (qabs q) = t1 # t2 # ts"
  shows "\<exists>q'. redis_Acquire rd js lid q = (Inr t2, q') \<and> qabs q' = (qabs q)\<lparr>aq_ready := ts,
    aq_proc := (aq_proc (qabs q))(task_ID t1 \<mapsto> (t1, lid), task_ID t2 \<mapsto> (t2, lid))\<rparr>"
proof -
  let ?K = "queue_keys q" and ?cmd = "acquireTaskScript rd js (rq_readyKey q) (rq_processingKey q) (rq_processingLeaseKey q) lid"
  let ?f = "\<lambda>a. case a of None \<Rightarrow> Inl ErrQueueEmpty | Some s \<Rightarrow> decodeTask s"
  have K: "keys_ok ?K" "CHR 0x00 \<notin> set lid" using assms(1,3) by (simp_all add: redis_inv_def id_text_def)
  have "\<exists>a r'. ?cmd r = (Inr a, r') \<and> sok W ?K r' \<and> (?f a, sabs ?K r') = spec_Acquire lid (sabs ?K r)" if "sok W ?K r" for r
    using Acquire_step [OF K(1) that K(2)] by (simp add: queue_keys_def)
  from retried_run [where cmd = ?cmd and f = ?f and spec = "spec_Acquire lid", OF this assms(1,2)]
  obtain a q' where run: "redis_run ?cmd q = (Inr a, q')" and "(?f a, qabs q') = spec_Acquire lid (snd (spec_Acquire lid (qabs q)))"
    by auto
  with assms(4) show ?thesis by (auto simp: redis_Acquire_def spec_Acquire_def split: option.splits)
qed

lemma Complete_retried:
  assumes "redis_inv rlist rhash W P q" and "rq_net q = \<lparr>ft_lost = Suc n, ft_error = None\<rparr> # fs"
    and "aq_proc (qabs q) tid = Some (t, lid)"
  shows "\<exists>q'. redis_Complete rd tid lid q = (Inl ErrTaskNotProcessing, q') \<and> qabs q' = drop_proc tid (qabs q)"
proof -
  let ?K = "queue_keys q" and ?cmd = "completeTaskScript rd (rq_processingKey q) (rq_processingLeaseKey q) tid lid"
  have K: "keys_ok ?K" using assms(1) by (simp add: redis_inv_def)
  have "\<exists>a r'. ?cmd r = (Inr a, r') \<and> sok W ?K r' \<and> (transitionResultError a, sabs ?K r') = spec_Complete tid lid (sabs ?K r)" if "sok W ?K r" for r
    using Complete_step [OF K that] by (simp add: queue_keys_def)
  from retried_run [where cmd = ?cmd and f = transitionResultError and spec = "spec_Complete tid lid", OF this assms(1,2)]
  obtain a q' where run: "redis_run ?cmd q = (Inr a, q')"
    and res: "(transitionResultError a, qabs q') = spec_Complete tid lid (((snd \<circ> spec_Complete tid lid) ^^ Suc n) (qabs q))"
    by blast
  have gone: "spec_Complete tid lid (drop_proc tid x) = (Inl ErrTaskNotProcessing, drop_proc tid x)" for x
    by (simp add: spec_Complete_def fence_check_def)
  have "((snd \<circ> spec_Complete tid lid) ^^ Suc n) (qabs q) = drop_proc tid (qabs q)"
  proof (induction n)
    case 0
    then show ?case using assms(3) by (simp add: spec_Complete_def fence_check_def)
  qed (simp add: gone)
  with res run show ?thesis by (simp add: redis_Complete_def runTaskScript_def gone)
qed

end

text \<open>C39. A client that sends a command again after a lost reply does not keep the contract of the queue: an
  enqueue that reports success has stored the task once for every time the server ran it; an acquire whose first
  reply got lost hands out the second task and leaves the first in processing storage, fenced by a lease that
  nobody holds; a completion whose first reply got lost has completed the task and reports that it was not in
  processing storage.\<close>

theorem redis_retry_repeats:
  fixes rlist :: "'r \<Rightarrow> string \<Rightarrow> string list" and rhash :: "'r \<Rightarrow> string \<Rightarrow> string \<rightharpoonup> string"
  defines "absq \<equiv> redis_abs rlist rhash"
  assumes "redis_server rd js rlist rhash" and "redis_inv rlist rhash W P q" and "rq_net q = \<lparr>ft_lost = n, ft_error = None\<rparr> # fs"
    and "id_text (task_ID t)" and "task_Attempts t = 0" and "id_text lid"
  shows "(\<exists>q'. redis_Enqueue rd t q = (Inr (), q') \<and> aq_ready (absq q') = aq_ready (absq q) @ replicate (Suc n) t) \<and>
    (n = 1 \<and> aq_ready (absq q) = t1 # t2 # ts \<longrightarrow>
      (\<exists>q'. redis_Acquire rd js lid q = (Inr t2, q') \<and> aq_ready (absq q') = ts \<and>
         aq_proc (absq q') = (aq_proc (absq q))(task_ID t1 \<mapsto> (t1, lid), task_ID t2 \<mapsto> (t2, lid)))) \<and>
    (0 < n \<and> aq_proc (absq q) tid = Some (t1, lid) \<longrightarrow>
      (\<exists>q'. redis_Complete rd tid lid q = (Inl ErrTaskNotProcessing, q') \<and> absq q' = drop_proc tid (absq q)))"
proof (intro conjI impI)
  show "\<exists>q'. redis_Enqueue rd t q = (Inr (), q') \<and> aq_ready (absq q') = aq_ready (absq q) @ replicate (Suc n) t"
    using redis_server.Enqueue_retried [OF assms(2-6)] unfolding absq_def by fastforce
  show "\<exists>q'. redis_Acquire rd js lid q = (Inr t2, q') \<and> aq_ready (absq q') = ts \<and>
      aq_proc (absq q') = (aq_proc (absq q))(task_ID t1 \<mapsto> (t1, lid), task_ID t2 \<mapsto> (t2, lid))"
    if "n = 1 \<and> aq_ready (absq q) = t1 # t2 # ts"
    using redis_server.Acquire_retried [OF assms(2,3) _ assms(7)] assms(4) that unfolding absq_def by fastforce
  show "\<exists>q'. redis_Complete rd tid lid q = (Inl ErrTaskNotProcessing, q') \<and> absq q' = drop_proc tid (absq q)"
    if "0 < n \<and> aq_proc (absq q) tid = Some (t1, lid)"
    using redis_server.Complete_retried [OF assms(2,3)] assms(4) that unfolding absq_def by (cases n) auto
qed

definition lost_reply :: fate where
  "lost_reply = \<lparr>ft_lost = 1, ft_error = None\<rparr>"

theorem redis_retry_repeats_witness:
  "\<exists>q'. redis_Enqueue store_api example_task (NewRedisQueue [] [lost_reply] ''q'') = (Inr (), q') \<and> aq_ready (rs_abs q') = [example_task, example_task]"
proof -
  let ?q = "NewRedisQueue [] [lost_reply] ''q'' :: keyspace RedisQueue"
  have inv: "rs_inv (\<lambda>_. True) ?q" by (simp add: new_queue)
  have net: "rq_net ?q = \<lparr>ft_lost = 1, ft_error = None\<rparr> # []" by (simp add: new_queue_sel lost_reply_def)
  show ?thesis
    using redis_retry_repeats [OF rs.redis_server_axioms inv net redis_example_text, of zero_task zero_task "[]" "[]"]
    by (simp add: new_queue aq_empty_def)
qed

section \<open>The engine on Redis\<close>

text \<open>An engine on the queue with one task in processing storage and a journal with its lease.\<close>

abbreviation rs_ops :: "keyspace RedisQueue backend_ops" where
  "rs_ops \<equiv> redis_ops store_api store_cjson"

abbreviation utc :: "instant \<Rightarrow> int" where
  "utc \<equiv> \<lambda>_. 0"

definition leased_state :: aqueue where
  "leased_state = \<lparr>aq_ready = [], aq_proc = [''t1'' \<mapsto> (example_task, ''l1'')], aq_dead = []\<rparr>"

lemma utc_codec: "codec_ok (go_json utc)"
  by (rule go_json_ok) (simp add: zone_ok_def)

lemma leased_queue: "\<exists>server. rs_inv (\<lambda>n. n = []) (NewRedisQueue server [] ''q'') \<and> rs_abs (NewRedisQueue server [] ''q'') = leased_state"
proof -
  obtain r b where run: "redis_Acquire store_api store_cjson ''l1'' (stocked []) = (r, b)" by fastforce
  have "rs_inv (list_all fate_once) (stocked [])" by (simp add: stocked_state)
  from rs.redis_Acquire_spec [OF this redis_example_text(3) run]
  have b: "rs_inv (\<lambda>n. n = []) b" "rs_abs b = leased_state"
    by (auto simp: redis_inv_def stocked_keys stocked_state spec_Acquire_def leased_state_def example_lease_sel)
  have keys: "queue_keys b = newRedisQueueKeys ''q''"
    using method_keys(2) [OF run] by (simp add: stocked_keys)
  then have "b = NewRedisQueue (rq_server b) [] ''q''"
    using b(1) by (cases b) (auto simp: NewRedisQueue_def queue_keys_def redis_inv_def newRedisQueueKeys_def Let_def)
  with b show ?thesis by metis
qed

lemma leased_frame: "\<exists>f. encode (go_json utc) (fetch_record example_lease) = Inr f"
proof -
  have "case marshal_Record utc (fetch_record example_lease) of Inl _ \<Rightarrow> False | Inr p \<Rightarrow> length p \<le> 1000"
    by code_simp
  then show ?thesis by (auto simp: encode_def go_json_def maxRecordBytes_def Let_def split: sum.splits)
qed

text \<open>A journal file with the frame of the lease.\<close>

definition leased_disk :: disk where
  "leased_disk = [''/wal/q.wal'' \<mapsto> frames (go_json utc) [fetch_record example_lease]]"

lemma leased_journal:
  "\<exists>j. open_journal (go_json utc) (\<lambda>s. s) ''/wal'' \<lparr>dw_disk = leased_disk, dw_open = io_ok, dw_appends = [], \<dots> = z\<rparr> ''q'' =
     Inr (j, [fetch_record example_lease])"
proof -
  have enc: "list_all (encodable (go_json utc)) [fetch_record example_lease]"
    using leased_frame example_record_text(1) by (simp add: encodable_def)
  have path: "filepath_Join ''/wal'' ''q.wal'' = ''/wal/q.wal''" by code_simp
  have "validQueueName ''q''" by (simp add: validQueueName_def name_char_def)
  moreover have "replay_loop (go_json utc) no_faults (frames (go_json utc) [fetch_record example_lease]) 0 [] =
      Inr ([fetch_record example_lease], length (frames (go_json utc) [fetch_record example_lease]))"
    using replay_loop_frames [OF utc_codec enc, of "[]" 0 "[]"] by (simp add: replay_loop_short headerSize_def)
  ultimately show ?thesis
    by (simp add: open_journal_def journalFileName_valid path Open_def OpenWith_def io_ok_def replay_def leased_disk_def contents_of_def
        Recovered_def Let_def)
qed

lemma redis_boot:
  assumes "rs_inv (\<lambda>n. n = []) b" and "rs_abs b = leased_state"
    and e: "e = newEngine rs_ops app any_order config journal [fetch_record example_lease] b"
  shows "en_recoveryErr e = None \<and> gm_get (en_leases e) ''l1'' = Some example_lease \<and> en_journal e = journal \<and>
    rs_inv (\<lambda>n. n = []) (en_ready e) \<and> rs_abs (en_ready e) = leased_state"
proof -
  let ?act = "[\<lparr>fence_TaskID = ''t1'', fence_LeaseID = ''l1''\<rparr>]"
  have fences: "active_fences [(''l1'', fetch_record example_lease)] [''l1''] = ?act"
    by (simp add: active_fences_def map_filter_simps fetch_record_def example_lease_sel)
  obtain rr b' where run: "be_RecoverOrphanedProcessing rs_ops ?act b = (rr, b')" by fastforce
  obtain res where res: "rr = Inr res" "rs_inv (\<lambda>n. n = []) b'" "spec_Recover ?act leased_state res (rs_abs b')"
    using rs.calm.Recover [OF assms(1) run] assms(2) by auto
  have proc: "aq_proc leased_state tid = Some (t, l) \<longleftrightarrow> tid = ''t1'' \<and> t = example_task \<and> l = ''l1''" for tid t l
    by (auto simp: leased_state_def)
  have dom: "dom (aq_proc leased_state) = {''t1''}" by (simp add: leased_state_def)
  have cov: "covered ?act leased_state = {''t1''}" and mat: "matched_leases ?act leased_state = {''l1''}"
    unfolding covered_def matched_leases_def proc by simp_all
  have "orphans ?act leased_state = {#}" unfolding orphans_def dom cov by simp
  then have "aq_ready (rs_abs b') = []" "aq_dead (rs_abs b') = []"
    using res(3) by (simp_all add: spec_Recover_def, simp_all add: leased_state_def)
  moreover have "aq_proc (rs_abs b') = aq_proc leased_state"
    using res(3) restrict_map_superset [of "aq_proc leased_state"] dom cov by (simp add: spec_Recover_def)
  ultimately have abs: "rs_abs b' = leased_state" by (simp add: leased_state_def)
  have "set (gm_keys (rr_MatchedLeaseIDs res)) = {''l1''}" using res(3) mat by (simp add: spec_Recover_def)
  then have "''l1'' \<in> dom (gm_get (rr_MatchedLeaseIDs res))" unfolding gm_keys_dom by blast
  then have m: "is_matched res ''l1''" unfolding is_matched_def by blast
  have lease: "\<lparr>lease_LeaseID = wr_LeaseID (fetch_record example_lease), lease_Task = wr_Task (fetch_record example_lease),
      lease_ExpiresAt = wr_ExpiresAt (fetch_record example_lease), lease_CreatedAt = wr_CreatedAt (fetch_record example_lease)\<rparr> = example_lease"
    by (simp add: fetch_record_def)
  show ?thesis
    using m run res(1,2) abs fences by (simp add: e newEngine_def restore_def example_live Let_def lease install_lease_def example_lease_sel)
qed

text \<open>C7. Storage in Redis and leases in a journal file: in every run of an engine on a server that answers, with
  crashes and restarts, no task is lost or duplicated; and wherever the process dies, a restart that recovers has
  every lease whose task is still in processing storage, with the same task, start and deadline. The records are
  the JSON texts of \<open>encoding/json\<close>, the entries of the queue those of \<open>encoding/json\<close> and \<open>cjson\<close>.\<close>

theorem redis_engine_survives:
  fixes rlist :: "'r \<Rightarrow> string \<Rightarrow> string list" and rhash :: "'r \<Rightarrow> string \<Rightarrow> string \<rightharpoonup> string" and W :: other_keys and zone :: "instant \<Rightarrow> int"
  defines "c \<equiv> go_json zone" and "absq \<equiv> redis_abs rlist rhash" and "invq \<equiv> redis_inv rlist rhash W (\<lambda>n. n = [])"
  assumes "redis_server rd js rlist rhash"
    and "engine_run (redis_ops rd js) absq invq redis_room (wal_append c) (wal_records c) (wal_invar c) E C T e"
    and "en_recoveryErr e = None" and "crash_point (redis_ops rd js) absq redis_room (wal_append c) e b j K"
    and "wal_invar c j'" and "wal_records c j' = wal_records c j" and "\<And>i. range_order (ord i)"
    and "e' = newEngine (redis_ops rd js) (wal_append c) ord config (Some j') (wal_records c j') b" and "en_recoveryErr e' = None"
    and "gm_get (en_leases e) l = Some le" and "aq_proc (absq b) tid = Some (t, l)"
  shows "task_ids (absq (en_ready e)) + C = E \<and> (\<forall>x. count E x \<le> 1) \<and> gm_get (en_leases e') l = Some le"
proof -
  have ec: "engine_contracts (redis_ops rd js) absq invq redis_room (wal_append c) (wal_records c) (wal_invar c)"
    unfolding absq_def invq_def by (rule redis_server.engine_on_redis [OF assms(4)])
  have st: "task_ids (absq (en_ready e)) + C = E" "\<forall>x. count E x \<le> 1" "engine_inv absq invq (wal_records c) (wal_invar c) e"
    using engine_contracts.engine_run_state [OF ec assms(5)] assms(6) by (auto simp: run_state_def)
  then have dist: "aq_distinct (absq (en_ready e))"
    unfolding aq_distinct_def by (metis count_union le_trans le_add1)
  show ?thesis
    using engine_contracts.restart_keeps_lease [OF ec assms(7) st(3) dist assms(8-14)] st(1,2) by blast
qed

theorem redis_engine_survives_witness:
  "\<exists>(e :: (keyspace RedisQueue, wal_state) Engine) e' j. en_recoveryErr e = None \<and> gm_get (en_leases e) ''l1'' = Some example_lease \<and> rs_abs (en_ready e) = leased_state \<and>
     e' = newEngine rs_ops (wal_append (go_json utc)) any_order example_config (Some j) (wal_records (go_json utc) j) (en_ready e) \<and>
     gm_get (en_leases e') ''l1'' = Some example_lease \<and> task_ids (rs_abs (en_ready e)) + {#} = {#''t1''#}"
proof -
  obtain b where b: "rs_inv (\<lambda>n. n = []) b" "rs_abs b = leased_state" using leased_queue by (elim exE conjE)
  let ?w = "\<lparr>dw_disk = leased_disk, dw_open = io_ok, dw_appends = []\<rparr>"
  obtain j where oj: "open_journal (go_json utc) (\<lambda>s. s) ''/wal'' ?w ''q'' = Inr (j, [fetch_record example_lease])"
    using leased_journal [where z = "()"] by (elim exE)
  have "wal_invar (go_json utc) j \<and> wal_records (go_json utc) j = [fetch_record example_lease] \<and> list_all record_text [fetch_record example_lease]"
    by (rule open_journal_ok [OF utc_codec _ _ oj]) (simp_all add: io_ok_def)
  then have j: "wal_invar (go_json utc) j" "wal_records (go_json utc) j = [fetch_record example_lease]" by blast+
  define e where "e = newEngine rs_ops (wal_append (go_json utc)) any_order example_config (Some j) [fetch_record example_lease] b"
  note boot = redis_boot [OF b e_def]
  define e' where "e' = newEngine rs_ops (wal_append (go_json utc)) any_order example_config (Some j) (wal_records (go_json utc) j) (en_ready e)"
  have boot': "en_recoveryErr e' = None" using redis_boot [of "en_ready e" e'] boot by (simp add: e'_def j(2))
  have ids: "task_ids leased_state = {#''t1''#}" by (simp add: task_ids_def leased_state_def)
  have "engine_run rs_ops rs_abs (rs_inv (\<lambda>n. n = [])) redis_room (wal_append (go_json utc)) (wal_records (go_json utc))
      (wal_invar (go_json utc)) (task_ids (rs_abs b)) {#} 0 e"
    by (rule engine_run.boot [where b = b and rs = "[fetch_record example_lease]" and journal = "Some j" and ord = any_order and
          config = example_config])
      (use b j ids example_record_text(1) id_text_valid [OF example_ids(1)] e_def in \<open>simp_all add: aq_distinct_def range_order_id\<close>)
  then have run: "engine_run rs_ops rs_abs (rs_inv (\<lambda>n. n = [])) redis_room (wal_append (go_json utc)) (wal_records (go_json utc))
      (wal_invar (go_json utc)) {#''t1''#} {#} 0 e" by (simp add: b(2) ids)
  have crash: "crash_point rs_ops rs_abs redis_room (wal_append (go_json utc)) e (en_ready e) j {#}"
    by (rule crash_point.between) (use boot in simp)
  have proc: "aq_proc (rs_abs (en_ready e)) ''t1'' = Some (example_task, ''l1'')" using boot by (simp add: leased_state_def)
  have ord: "range_order (any_order i)" for i by (rule range_order_id)
  have eok: "en_recoveryErr e = None" and lease: "gm_get (en_leases e) ''l1'' = Some example_lease" using boot by blast+
  from redis_engine_survives [OF rs.redis_server_axioms run eok crash j(1) refl ord e'_def boot' lease proc]
  have "task_ids (rs_abs (en_ready e)) + {#} = {#''t1''#}" "gm_get (en_leases e') ''l1'' = Some example_lease" by blast+
  with eok lease boot e'_def show ?thesis
    by (intro exI [of _ e] exI [of _ e'] exI [of _ j] conjI) simp_all
qed

text \<open>C8. The daemon on Redis restores the open leases: when it opens a queue whose tasks are in Redis and whose leases
  are in the journal file, on a network that may lose requests and replies but runs no command twice, no task is lost;
  and if recovery reports no error, the engine has exactly the leases of the file whose task is still in processing
  storage under that lease, and all other tasks are ready or dead as before or back in ready storage.\<close>

theorem daemon_restores_leases:
  fixes rlist :: "'r \<Rightarrow> string \<Rightarrow> string list" and rhash :: "'r \<Rightarrow> string \<Rightarrow> string \<rightharpoonup> string" and W :: other_keys and zone :: "instant \<Rightarrow> int"
    and w :: "'r redis_world" and q :: string
  defines "c \<equiv> go_json zone" and "invq \<equiv> redis_inv rlist rhash W (list_all fate_once)"
    and "stored \<equiv> redis_abs rlist rhash (redis_factory w q)"
  assumes "redis_server rd js rlist rhash" and "zone_ok zone" and "list_all untorn (dw_appends w)" and "io_fault (dw_open w) = no_faults"
    and "\<And>i. range_order (ord i)" and "fl_walDir fl \<noteq> []"
    and "svc_factory s = redis_factory" and "svc_config s = daemon_config c quoted fl" and "engine_at s q = None"
    and "invq (redis_factory w q)" and "\<forall>x \<in># task_ids stored. utf8_valid x"
    and "engineFor (redis_ops rd js) (wal_append c) ord w q s = (Inr e, s')"
  shows "\<exists>j rs. open_journal c quoted (fl_walDir fl) w q = Inr (j, rs) \<and> engine_at s' q = Some e \<and>
    task_ids (redis_abs rlist rhash (en_ready e)) = task_ids stored \<and>
    (en_recoveryErr e = None \<longrightarrow>
       gm_get (en_leases e) = surviving_leases rs stored \<and> recovered_queue rs stored (redis_abs rlist rhash (en_ready e)))"
proof -
  have codec: "codec_ok c" unfolding c_def using assms(5) by (rule go_json_ok)
  have rc: "recovery_contracts (redis_ops rd js) (redis_abs rlist rhash) invq redis_room (wal_append c) (wal_records c) (wal_invar c)"
    unfolding invq_def by (rule redis_server.recovery_on_redis [OF assms(4)])
  from assms(15) show ?thesis
  proof (cases rule: engineFor_cases)
    case (created e1 journal recovered)
    then obtain j where j: "open_journal c quoted (fl_walDir fl) w q = Inr (j, recovered)" "journal = Some j"
      using assms(9,11) by (auto simp: daemon_config_def buildJournalFactory_def)
    have jok: "wal_invar c j" "wal_records c j = recovered"
      using open_journal_ok [OF codec assms(6,7) j(1)] by blast+
    have e: "e = newEngine (redis_ops rd js) (wal_append c) ord (sc_Engine (svc_config s)) (Some j) recovered (redis_factory w q)"
      using created j(2) assms(10) by simp
    have jn: "\<forall>j'. Some j = Some j' \<longrightarrow> wal_invar c j' \<and> wal_records c j' = recovered" using jok by simp
    note boot = recovery_contracts.newEngine_conserves [OF rc e assms(13,8) jn] recovery_contracts.newEngine_leases [OF rc e assms(13,8) jn]
    with j(1) created show ?thesis unfolding stored_def by (intro exI [of _ j] exI [of _ recovered]) simp
  qed (use assms(12) in auto)
qed

theorem daemon_restores_leases_witness:
  "\<exists>(w :: keyspace redis_world) e s'. dw_disk w = leased_disk \<and> rs_abs (redis_factory w ''q'') = leased_state \<and>
     engineFor rs_ops (wal_append (go_json utc)) any_order w ''q''
       (daemon_redis_service (go_json utc) (\<lambda>s. s) (default_flags\<lparr>fl_backend := ''redis'', fl_walDir := ''/wal''\<rparr>)) = (Inr e, s') \<and>
     task_ids (rs_abs (en_ready e)) = {#''t1''#} \<and> gm_get (en_leases e) ''l1'' = Some example_lease"
proof -
  let ?fl = "default_flags\<lparr>fl_backend := ''redis'', fl_walDir := ''/wal''\<rparr>"
  let ?s = "daemon_redis_service (go_json utc) (\<lambda>s. s) ?fl :: (keyspace RedisQueue, wal_state, keyspace redis_world) Service"
  obtain server where srv: "rs_inv (\<lambda>n. n = []) (NewRedisQueue server [] ''q'')" "rs_abs (NewRedisQueue server [] ''q'') = leased_state"
    using leased_queue by (elim exE conjE)
  define w :: "keyspace redis_world" where
    "w = \<lparr>dw_disk = leased_disk, dw_open = io_ok, dw_appends = [], rw_server = server, rw_net = []\<rparr>"
  have fac: "redis_factory w ''q'' = NewRedisQueue server [] ''q''" by (simp add: redis_factory_def w_def)
  obtain j where j: "open_journal (go_json utc) (\<lambda>s. s) ''/wal'' w ''q'' = Inr (j, [fetch_record example_lease])"
    unfolding w_def using leased_journal [where z = "\<lparr>rw_server = server, rw_net = []\<rparr>"] by (elim exE)
  define e where "e = newEngine rs_ops (wal_append (go_json utc)) any_order (sc_Engine (svc_config ?s)) (Some j) [fetch_record example_lease] (redis_factory w ''q'')"
  have "validQueueName ''q''" by (simp add: validQueueName_def name_char_def)
  then have run: "engineFor rs_ops (wal_append (go_json utc)) any_order w ''q'' ?s = (Inr e, put_engine ''q'' e ?s)"
    using j by (simp add: engineFor_def e_def daemon_redis_service_def NewWithConfig_def daemon_config_def buildJournalFactory_def maxQueues_def
        defaultMaxQueues_def NewEngineWithBackendAndConfig_def default_flags_def Let_def)
  have boot: "en_recoveryErr e = None" "gm_get (en_leases e) ''l1'' = Some example_lease"
    using redis_boot [OF srv e_def [unfolded fac]] by blast+
  have ids: "task_ids leased_state = {#''t1''#}" by (simp add: task_ids_def leased_state_def)
  have inv: "rs_inv (list_all fate_once) (redis_factory w ''q'')" using srv(1) fac by (simp add: redis_inv_def new_queue_sel)
  have ids_ok: "\<forall>x \<in># task_ids (rs_abs (redis_factory w ''q'')). utf8_valid x"
    using id_text_valid [OF example_ids(1)] by (simp add: fac srv(2) ids)
  have w_ok: "list_all untorn (dw_appends w)" "io_fault (dw_open w) = no_faults" by (simp_all add: w_def io_ok_def)
  have s_ok: "fl_walDir ?fl \<noteq> []" "svc_factory ?s = redis_factory" "svc_config ?s = daemon_config (go_json utc) (\<lambda>s. s) ?fl" "engine_at ?s ''q'' = None"
    by (simp_all add: daemon_redis_service_def NewWithConfig_def)
  have zone: "zone_ok utc" by (simp add: zone_ok_def)
  have ord: "range_order (any_order i)" for i by (rule range_order_id)
  have "task_ids (rs_abs (en_ready e)) = task_ids (rs_abs (redis_factory w ''q''))"
    using daemon_restores_leases [OF rs.redis_server_axioms zone w_ok ord s_ok inv ids_ok run] by blast
  then have "task_ids (rs_abs (en_ready e)) = {#''t1''#}" unfolding fac srv(2) ids .
  moreover have "dw_disk w = leased_disk" by (simp add: w_def)
  moreover have "rs_abs (redis_factory w ''q'') = leased_state" unfolding fac by (rule srv(2))
  ultimately show ?thesis
    using run boot(2) by (intro exI [of _ w] exI [of _ e] exI [of _ "put_engine ''q'' e ?s"] conjI)
qed

section \<open>A failing network\<close>

text \<open>C9. An engine loses no task to a failing network: over any storage whose calls may fail with an error of the
  transport, after the transition or before it, and with any journal, a fetch and a pass of the reaper keep exactly the
  tasks of the queue; an acknowledgement removes at most the task of its lease, and has removed it if it reports
  success; an enqueue adds at most the new task, and has added it if it reports success.\<close>

theorem faulty_storage_conserves:
  assumes "backend_contract ops absq b_inv room" and "b_inv (en_ready e)" and "aq_distinct (absq (en_ready e))"
    and "id_text uuid" and "can_fetch room (absq (en_ready e))" and "can_reap room wall (absq (en_ready e))"
  defines "ids \<equiv> \<lambda>e. task_ids (absq (en_ready e))"
  shows "(engine_Fetch ops app uuid now timeout e = (rf, e1) \<longrightarrow> b_inv (en_ready e1) \<and> ids e1 = ids e) \<and>
    (engine_ReapExpired ops app wall now e = ((n, err), e2) \<longrightarrow> b_inv (en_ready e2) \<and> ids e2 = ids e) \<and>
    (engine_Ack ops app l e = (ra, e3) \<longrightarrow> b_inv (en_ready e3) \<and>
       (ids e3 = ids e \<and> ra \<noteq> Inr () \<or>
        (\<exists>le. gm_get (en_leases e) l = Some le \<and> ids e = add_mset (task_ID (lease_Task le)) (ids e3)))) \<and>
    (engine_Enqueue ops uuid p e = (re, e4) \<longrightarrow> b_inv (en_ready e4) \<and>
       (ids e4 = add_mset uuid (ids e) \<or> ids e4 = ids e \<and> (\<exists>err. re = Inl err)))"
  unfolding ids_def
  using backend_contract.faulty_Fetch [OF assms(1-5)] backend_contract.faulty_ReapExpired [OF assms(1,2,6)]
    backend_contract.faulty_Ack [OF assms(1,2)] backend_contract.faulty_Enqueue [OF assms(1,2,4)]
  by blast

text \<open>The reply to the acquire gets lost: the fetch reports an error, and the task is still there.\<close>

definition outage :: fate where
  "outage = \<lparr>ft_lost = 1, ft_error = Some (ErrNew ''i/o timeout'')\<rparr>"

theorem faulty_storage_conserves_witness:
  "\<exists>(e :: (keyspace RedisQueue, wal_state) Engine) r e'. en_ready e = stocked [outage] \<and>
     engine_Fetch rs_ops w_app ''l1'' 100 50 e = (r, e') \<and> task_ids (rs_abs (en_ready e')) = {#''t1''#}"
proof -
  define e :: "(keyspace RedisQueue, wal_state) Engine" where
    "e = \<lparr>en_ready = stocked [outage], en_leases = [], en_expirations = [], en_config = example_config, en_journal = None, en_recoveryErr = None\<rparr>"
  have ready: "en_ready e = stocked [outage]" by (simp add: e_def)
  have ids: "task_ids (rs_abs (en_ready e)) = {#''t1''#}" by (simp add: ready stocked_state task_ids_def example_lease_sel)
  have inv: "rs_inv (list_all fate_once) (en_ready e)"
    by (simp add: ready stocked_state fate_once_def outage_def transport_error_def isStaleLeaseError_def)
  have dist: "aq_distinct (rs_abs (en_ready e))" by (simp add: aq_distinct_def ids)
  have fetch: "can_fetch redis_room (rs_abs (en_ready e))"
    by (simp add: can_fetch_def ready stocked_state redis_room_def example_lease_sel)
  have reap: "can_reap redis_room (\<lambda>_. 0) (rs_abs (en_ready e))" by (simp add: can_reap_def can_bump_def ready stocked_state clock_text_def)
  obtain r e' where run: "engine_Fetch rs_ops w_app ''l1'' 100 50 e = (r, e')" by fastforce
  have "task_ids (rs_abs (en_ready e')) = task_ids (rs_abs (en_ready e))"
    using faulty_storage_conserves [OF rs.net.backend_contract_axioms inv dist redis_example_text(3) fetch reap] run by blast
  with run ready ids show ?thesis by (intro exI [of _ e] exI [of _ r] exI [of _ e'] conjI) simp_all
qed

section \<open>Keys\<close>

text \<open>C35. The keys of a queue: the four keys are different, all of them carry the same hash tag, so that a cluster
  keeps them on one node, as scripts over several keys need; and two queues never share a key.\<close>

theorem redis_keys_apart:
  fixes name :: string
  defines "keys \<equiv> \<lambda>n. [rk_ready (newRedisQueueKeys n), rk_processing (newRedisQueueKeys n),
      rk_processingLeases (newRedisQueueKeys n), rk_dead (newRedisQueueKeys n)]"
  shows "distinct (keys name) \<and>
    (\<forall>k \<in> set (keys name). redisHashTag k = ''{'' @ takeWhile (\<lambda>c. c \<noteq> CHR ''}'') name @ ''}'') \<and>
    (name \<noteq> other \<longrightarrow> set (keys name) \<inter> set (keys other) = {})"
proof (intro conjI impI)
  show "distinct (keys name)" using keys_distinct [of name] by (simp add: keys_def keys_ok_def)
  define S where "S = {'':ready'', '':processing'', '':processing:leases'', '':dead''}"
  have shape: "set (keys n) = (\<lambda>s. ''moxy:{'' @ n @ CHR ''}'' # s) ` S" for n
    by (simp add: keys_def newRedisQueueKeys_def S_def Let_def)
  have tag_text: "take (Suc (length (takeWhile (\<lambda>c. c \<noteq> CHR ''}'') n))) (n @ CHR ''}'' # s) = takeWhile (\<lambda>c. c \<noteq> CHR ''}'') n @ ''}''" for n s
    by (induction n) simp_all
  have "IndexByte (n @ CHR ''}'' # s) (CHR ''}'') = Some (length (takeWhile (\<lambda>c. c \<noteq> CHR ''}'') n))" for n s
    by (induction n) simp_all
  then have "redisHashTag (''moxy:{'' @ n @ CHR ''}'' # s) = ''{'' @ takeWhile (\<lambda>c. c \<noteq> CHR ''}'') n @ ''}''" for n s
    by (simp add: redisHashTag_def tag_text del: take_append)
  then show "\<forall>k \<in> set (keys name). redisHashTag k = ''{'' @ takeWhile (\<lambda>c. c \<noteq> CHR ''}'') name @ ''}''"
    unfolding shape by auto
  have "distinct (map last ['':ready'', '':processing'', '':processing:leases'', '':dead''])" by code_simp
  then have inj: "inj_on last S" unfolding distinct_map list.set S_def by (rule conjunct2)
  have ne: "[] \<notin> S" by (simp add: S_def)
  have same: "n = n'" if eq: "''moxy:{'' @ n @ CHR ''}'' # s = ''moxy:{'' @ n' @ CHR ''}'' # s'" and S: "s \<in> S" "s' \<in> S" for n n' s s'
  proof -
    have "s \<noteq> []" "s' \<noteq> []" using S ne by metis+
    then have "last s = last s'" using arg_cong [OF eq, of last] by simp
    then have "s = s'" using inj_onD [OF inj _ S] by blast
    with eq show ?thesis by simp
  qed
  show "set (keys name) \<inter> set (keys other) = {}" if "name \<noteq> other"
  proof (rule ccontr)
    assume "set (keys name) \<inter> set (keys other) \<noteq> {}"
    then obtain s s' where "''moxy:{'' @ name @ CHR ''}'' # s = ''moxy:{'' @ other @ CHR ''}'' # s'" "s \<in> S" "s' \<in> S"
      unfolding shape by (elim ex_in_conv [THEN iffD2, elim_format] exE IntE imageE) simp
    with same that show False by blast
  qed
qed

theorem redis_keys_apart_witness:
  "rk_dead (newRedisQueueKeys ''a}'') \<noteq> rk_dead (newRedisQueueKeys ''a'') \<and> redisHashTag (rk_dead (newRedisQueueKeys ''a'')) = ''{a}''"
  using redis_keys_apart [of "''a''" "''a}''"] by auto

end
