(* ===== verification/Text_Properties.thy ===== *)
theory Text_Properties
  imports Redis_Queue Engine_Properties
begin

text \<open>
  The JSON texts of the program: the payload of a journal frame (\<open>wal.Record\<close>) and the entry of a task in Redis
  (\<open>task.Task\<close>).
\<close>

text \<open>C17. What the program writes as JSON it reads back: a journal record whose strings are valid UTF-8, with its times
  to the nanosecond in any zone of whole minutes and its payload byte for byte; and a task with any payload, any
  attempt counter and a valid id. A record is only refused for its times: one with years of four digits, written in
  UTC, always has a text.\<close>

theorem json_roundtrip:
  assumes "zone_ok zone" and "record_text r" and "utf8_valid (task_ID t)"
  shows "(\<forall>p. json_Marshal (go_json zone) r = Inr p \<longrightarrow> p \<noteq> [] \<and> json_Unmarshal (go_json zone) p = Inr r) \<and>
    (clock_text (wr_CreatedAt r) \<and> clock_text (wr_ExpiresAt r) \<and> zone (wr_CreatedAt r) = 0 \<and> zone (wr_ExpiresAt r) = 0 \<longrightarrow>
       (\<exists>p. json_Marshal (go_json zone) r = Inr p)) \<and>
    (\<exists>s. encodeTask t = Inr s \<and> decodeTask s = Inr t)"
proof (intro conjI allI impI)
  show "p \<noteq> []" "json_Unmarshal (go_json zone) p = Inr r" if "json_Marshal (go_json zone) r = Inr p" for p
    using codec_ok_back [OF go_json_ok [OF assms(1)] assms(2) that] by blast+
  show "\<exists>p. json_Marshal (go_json zone) r = Inr p"
    if "clock_text (wr_CreatedAt r) \<and> clock_text (wr_ExpiresAt r) \<and> zone (wr_CreatedAt r) = 0 \<and> zone (wr_ExpiresAt r) = 0"
    using that by (simp add: go_json_def marshal_Record_def json_time_def clock_text_def format_time_clock)
  show "\<exists>s. encodeTask t = Inr s \<and> decodeTask s = Inr t"
    using task_text_roundtrip [OF assms(3)] by (simp add: encodeTask_def decodeTask_def)
qed

theorem json_roundtrip_witness:
  "\<exists>p. json_Marshal (go_json (\<lambda>_. 0)) (fetch_record example_lease) = Inr p \<and>
     json_Unmarshal (go_json (\<lambda>_. 0)) p = Inr (fetch_record example_lease)"
proof -
  have z: "zone_ok (\<lambda>_. 0)" by (simp add: zone_ok_def)
  have "utf8_valid (task_ID example_task)" using example_ids(1) by (simp add: example_lease_sel id_text_def)
  moreover have "clock_text (wr_CreatedAt (fetch_record example_lease))" "clock_text (wr_ExpiresAt (fetch_record example_lease))"
    by (simp_all add: clock_text_def fetch_record_def example_lease_def)
  ultimately show ?thesis using json_roundtrip [OF z example_record_text(1)] by blast
qed

end
