(* ===== verification/Recovery_Demo.thy ===== *)
theory Recovery_Demo
  imports Engine_Recovery Go_Text
begin

text \<open>
  \<open>cmd/moxy-recovery-demo/main.go\<close>: one engine without a journal, a worker that disappears, and the next worker that
  gets the task. A line of the log is its message and its attributes. What the program reads from outside is an
  argument: the three ids of \<open>uuid.NewString\<close>, the clock at the two fetches and at the pass of the reaper.
\<close>

type_synonym log_line = "string \<times> (string \<times> string) list"

text \<open>\<open>exitOnError\<close>, with the rest of the program as its last argument: the exit code and the lines logged.\<close>

definition exitOnError ::
  "string \<Rightarrow> go_error + 'a \<Rightarrow> log_line list \<Rightarrow> ('a \<Rightarrow> log_line list \<Rightarrow> nat \<times> log_line list) \<Rightarrow> nat \<times> log_line list" where
  "exitOnError message r lines rest =
     (case r of
        Inl err \<Rightarrow> (1, lines @ [(message, [(''err'', error_msg err)])])
      | Inr a \<Rightarrow> rest a lines)"

definition demo_main ::
  "(string list \<Rightarrow> string list) \<Rightarrow> (nat \<Rightarrow> string list \<Rightarrow> string list) \<Rightarrow> 'j appender \<Rightarrow> (string \<Rightarrow> instant) \<Rightarrow>
   string \<Rightarrow> string \<Rightarrow> string \<Rightarrow> instant \<Rightarrow> instant \<Rightarrow> instant \<Rightarrow> nat \<times> log_line list" where
  "demo_main mord ord app wall uuid1 uuid2 uuid3 now1 now2 now3 =
     (case engine_Enqueue (memory_ops mord) uuid1 (Some ''charge invoice #4242'') (NewEngine app mord ord) of (r1, e1) \<Rightarrow>
      exitOnError ''enqueue'' r1 [] (\<lambda>t lines1.
      case engine_Fetch (memory_ops mord) app uuid2 now1 (25 * 1000000) e1 of (r2, e2) \<Rightarrow>
      exitOnError ''fetch'' r2 (lines1 @ [(''enqueue'', [(''task_id'', task_ID t), (''state'', ''READY'')])]) (\<lambda>l lines2.
      case engine_ReapExpired (memory_ops mord) app wall now2 e2 of ((requeued, err), e3) \<Rightarrow>
      exitOnError ''reap expired leases'' (case err of Some e \<Rightarrow> Inl e | None \<Rightarrow> Inr ())
        (lines2 @
         [(''worker fetched task'',
           [(''task_id'', task_ID (lease_Task l)), (''lease_id'', lease_LeaseID l), (''state'', ''PROCESSING'')]),
          (''worker disappeared before ack'', [(''simulated'', ''kill -9'')])]) (\<lambda>_ lines3.
      case engine_Fetch (memory_ops mord) app uuid3 now3 1000000000 e3 of (r4, e4) \<Rightarrow>
      exitOnError ''fetch recovered task'' r4
        (lines3 @ [(''reaper recovered expired work'', [(''requeued'', show_nat requeued), (''state'', ''READY'')])]) (\<lambda>recovered lines4.
      case engine_Ack (memory_ops mord) app (lease_LeaseID recovered) e4 of (r5, _) \<Rightarrow>
      exitOnError ''ack recovered task'' r5
        (lines4 @
         [(''next worker received recovered task'',
           [(''task_id'', task_ID (lease_Task recovered)),
            (''payload'', case task_Payload (lease_Task recovered) of None \<Rightarrow> [] | Some p \<Rightarrow> p), (''state'', ''PROCESSING'')])])
        (\<lambda>_ lines5. (0, lines5 @ [(''ack'', [(''task_id'', task_ID (lease_Task recovered)), (''state'', ''ACKED'')])])))))))"

section \<open>The demonstration succeeds\<close>

lemma heap_single: "heap_Push x [] = [x]" "heap_Pop [x] = Some (x, [])"
proof -
  show "heap_Push x [] = [x]" using heap_Push_mset [of x "[]"] by simp
  obtain y h where pop: "heap_Pop [x] = Some (y, h)" using heap_Pop_None_iff [of "[x]"] by (cases "heap_Pop [x]") auto
  then have "h = []" using heap_Pop_length [OF pop] by simp
  with pop heap_Pop_Some [of "[x]" y h] show "heap_Pop [x] = Some (x, [])" by (simp add: eh_peek_def)
qed

text \<open>When the second reading of the clock is at least 25 milliseconds after the first, the next worker gets the task of
  the one that disappeared, with its payload, and acknowledges it.\<close>

lemma demo_recovers_task:
  assumes "now1 + 25000000 \<le> now2" and "range_order mord" and "\<forall>i. range_order (ord i)"
  shows "demo_main mord ord app wall uuid1 uuid2 uuid3 now1 now2 now3 =
    (0, [(''enqueue'', [(''task_id'', uuid1), (''state'', ''READY'')]),
         (''worker fetched task'', [(''task_id'', uuid1), (''lease_id'', uuid2), (''state'', ''PROCESSING'')]),
         (''worker disappeared before ack'', [(''simulated'', ''kill -9'')]),
         (''reaper recovered expired work'', [(''requeued'', ''1''), (''state'', ''READY'')]),
         (''next worker received recovered task'',
           [(''task_id'', uuid1), (''payload'', ''charge invoice #4242''), (''state'', ''PROCESSING'')]),
         (''ack'', [(''task_id'', uuid1), (''state'', ''ACKED'')])])"
proof -
  let ?ops = "memory_ops mord" and ?t = "\<lparr>task_ID = uuid1, task_Payload = Some ''charge invoice #4242'', task_Attempts = 0\<rparr>"
  let ?e = "\<lambda>q ls h. \<lparr>en_ready = q, en_leases = ls, en_expirations = h,
      en_config = \<lparr>cfg_MaxAttempts = 0, cfg_RequeueRetryDelay = requeueRetryDelay\<rparr>, en_journal = None, en_recoveryErr = None\<rparr> :: (MemoryQueue, 'j) Engine"
  let ?l = "\<lparr>lease_LeaseID = uuid2, lease_Task = ?t, lease_ExpiresAt = now1 + 25000000, lease_CreatedAt = now1\<rparr>"
  have "mord [] = []" "ord i [] = []" for i
    using range_order_length [OF assms(2), of "[]"] range_order_length [of "ord i" "[]"] assms(3) by simp_all
  then have e0: "NewEngine app mord ord = ?e NewMemoryQueue [] []"
    by (simp add: NewEngine_def NewEngineWithBackend_def newEngine_def restore_def active_fences_def heap_Init_Nil Live_def
        mem_RecoverOrphanedProcessing_def NewMemoryQueue_def Let_def List.map_filter_def)
  let ?q = "\<lambda>r p. \<lparr>mq_ready = r, mq_processing = p, mq_dead = []\<rparr>"
  let ?t' = "bump_attempts ?t"
  let ?l' = "\<lparr>lease_LeaseID = uuid3, lease_Task = ?t', lease_ExpiresAt = now3 + 1000000000, lease_CreatedAt = now3\<rparr>"
  have e1: "engine_Enqueue ?ops uuid1 (Some ''charge invoice #4242'') (?e NewMemoryQueue [] []) = (Inr ?t, ?e (?q [?t] []) [] [])"
    by (simp add: engine_Enqueue_def ensureRecovered_def mem_Enqueue_def NewMemoryQueue_def Let_def)
  have e2: "engine_Fetch ?ops app uuid2 now1 25000000 (?e (?q [?t] []) [] []) =
      (Inr ?l, ?e (?q [] [(uuid1, \<lparr>mpe_task = ?t, mpe_leaseID = uuid2\<rparr>)]) [(uuid2, ?l)] [\<lparr>ei_LeaseID = uuid2, ei_ExpiresAt = now1 + 25000000\<rparr>])"
    by (simp add: engine_Fetch_def ensureRecovered_def mem_Acquire_eq engine_record_def install_lease_def heap_single Let_def)
  have ex: "expireLease ?ops app wall ?l (?e (?q [] [(uuid1, \<lparr>mpe_task = ?t, mpe_leaseID = uuid2\<rparr>)]) [(uuid2, ?l)] []) =
      (Inr (), ?e (?q [?t'] []) [(uuid2, ?l)] [])"
    by (simp add: expireLease_def shouldDeadLetter_def mem_Requeue_def engine_record_def Let_def)
  have stop: "reap_loop ?ops app wall now2 (Suc 0) (?e (?q [?t'] []) [] []) = ((Suc 0, None), ?e (?q [?t'] []) [] [])"
    by (subst reap_loop.simps) (simp add: eh_peek_def)
  have "reap_loop ?ops app wall now2 0 (?e (?q [] [(uuid1, \<lparr>mpe_task = ?t, mpe_leaseID = uuid2\<rparr>)]) [(uuid2, ?l)]
      [\<lparr>ei_LeaseID = uuid2, ei_ExpiresAt = now1 + 25000000\<rparr>]) = ((Suc 0, None), ?e (?q [?t'] []) [] [])"
    using assms(1) ex stop by (subst reap_loop.simps) (simp add: eh_peek_def heap_single delete_lease_def)
  then have e3: "engine_ReapExpired ?ops app wall now2 (?e (?q [] [(uuid1, \<lparr>mpe_task = ?t, mpe_leaseID = uuid2\<rparr>)]) [(uuid2, ?l)]
      [\<lparr>ei_LeaseID = uuid2, ei_ExpiresAt = now1 + 25000000\<rparr>]) = ((Suc 0, None), ?e (?q [?t'] []) [] [])"
    by (simp add: engine_ReapExpired_def ensureRecovered_def)
  have e4: "engine_Fetch ?ops app uuid3 now3 1000000000 (?e (?q [?t'] []) [] []) =
      (Inr ?l', ?e (?q [] [(uuid1, \<lparr>mpe_task = ?t', mpe_leaseID = uuid3\<rparr>)]) [(uuid3, ?l')] [\<lparr>ei_LeaseID = uuid3, ei_ExpiresAt = now3 + 1000000000\<rparr>])"
    by (simp add: engine_Fetch_def ensureRecovered_def mem_Acquire_eq engine_record_def install_lease_def heap_single Let_def)
  have e5: "\<exists>e5. engine_Ack ?ops app uuid3 (?e (?q [] [(uuid1, \<lparr>mpe_task = ?t', mpe_leaseID = uuid3\<rparr>)]) [(uuid3, ?l')]
      [\<lparr>ei_LeaseID = uuid3, ei_ExpiresAt = now3 + 1000000000\<rparr>]) = (Inr (), e5)"
    by (simp add: engine_Ack_def ensureRecovered_def mem_Complete_def engine_record_def)
  have one: "show_nat (Suc 0) = ''1''"
    by (subst show_nat.simps) (simp add: of_char_eq_iff [where 'a = nat, symmetric] del: of_char_eq_iff)
  from e5 obtain e6 where "engine_Ack ?ops app uuid3 (?e (?q [] [(uuid1, \<lparr>mpe_task = ?t', mpe_leaseID = uuid3\<rparr>)]) [(uuid3, ?l')]
      [\<lparr>ei_LeaseID = uuid3, ei_ExpiresAt = now3 + 1000000000\<rparr>]) = (Inr (), e6)" by blast
  then show ?thesis
    unfolding demo_main_def e0 e1 exitOnError_def by (simp add: e2 e3 e4 one)
qed

end
